(* ===== verification/Go_Prelude.thy ===== *)
theory Go_Prelude
  imports Main "HOL-Library.Word" "HOL-Library.AList"
begin

text \<open>
  The part of Go and of its standard library that the code under src/ uses and that every
  component shares: bytes and big-endian integers (\<open>encoding/binary\<close>), ordered byte streams
  and \<open>io.ReadFull\<close>, \<open>io.Writer\<close>, maps (the built-in \<open>map\<close> and \<open>sync.Map\<close>), the clock.
  With them come the generic lemmas on lists, options, maps and words that the component
  theories rest on, and the collections of rewrite rules their proofs use.
\<close>

unbundle bit_operations_syntax

named_theorems wire_simps \<open>lengths, slices and round trips of wire formats\<close>
named_theorems store_simps \<open>lookup after insert and delete in Go maps\<close>


section \<open>Bytes and big-endian integers\<close>

type_synonym byte = "8 word"
type_synonym bytes = "byte list"

text \<open>
  \<open>binary.BigEndian.PutUint16/32/64\<close> and \<open>Uint16/32/64\<close>. A byte conversion such as
  \<open>byte(v >> 8)\<close> keeps the low eight bits, which is \<open>ucast\<close>; the readers shift and OR.
\<close>

definition be16 :: "16 word \<Rightarrow> bytes" where
  "be16 v = [ucast (drop_bit 8 v), ucast v]"

definition be32 :: "32 word \<Rightarrow> bytes" where
  "be32 v = [ucast (drop_bit 24 v), ucast (drop_bit 16 v), ucast (drop_bit 8 v), ucast v]"

definition be64 :: "64 word \<Rightarrow> bytes" where
  "be64 v = [ucast (drop_bit 56 v), ucast (drop_bit 48 v), ucast (drop_bit 40 v),
     ucast (drop_bit 32 v), ucast (drop_bit 24 v), ucast (drop_bit 16 v),
     ucast (drop_bit 8 v), ucast v]"

definition un_be :: "bytes \<Rightarrow> 'a::len word" where
  "un_be bs = foldl (\<lambda>acc b. push_bit 8 acc OR ucast b) 0 bs"

definition be_bytes :: "nat \<Rightarrow> 'a::len word \<Rightarrow> bytes" where
  "be_bytes k v = rev (map (\<lambda>i. ucast (drop_bit (8 * i) v)) [0..<k])"

lemma be16_eq: "be16 v = be_bytes 2 v"
  by (simp add: be16_def be_bytes_def upt_rec)

lemma be32_eq: "be32 v = be_bytes 4 v"
  by (simp add: be32_def be_bytes_def upt_rec)

lemma be64_eq: "be64 v = be_bytes 8 v"
  by (simp add: be64_def be_bytes_def upt_rec)

lemma length_be [simp, wire_simps]:
  "length (be16 v) = 2" "length (be32 w) = 4" "length (be64 x) = 8"
  by (simp_all add: be16_def be32_def be64_def)

lemma length_be_bytes [simp]: "length (be_bytes k v) = k"
  by (simp add: be_bytes_def)

lemma bit_un_be_snoc:
  "bit (un_be (bs @ [b]) :: 'a::len word) n \<longleftrightarrow>
     n < LENGTH('a) \<and> (if n < 8 then bit b n else bit (un_be bs :: 'a word) (n - 8))"
  using bit_imp_le_length [of b n] by (auto simp: un_be_def bit_simps)

lemma bit_un_be:
  "bit (un_be bs :: 'a::len word) n \<longleftrightarrow>
     n < LENGTH('a) \<and> n div 8 < length bs \<and> bit (rev bs ! (n div 8)) (n mod 8)"
proof (induction bs arbitrary: n rule: rev_induct)
  case Nil
  then show ?case by (simp add: un_be_def)
next
  case (snoc b bs)
  show ?case
  proof (cases "n < 8")
    case True
    then show ?thesis by (simp add: bit_un_be_snoc)
  next
    case False
    then obtain m where n: "n = m + 8"
      using le_Suc_ex [of 8 n] by (auto simp: add.commute)
    have d: "(m + 8) div 8 = Suc (m div 8)" by simp
    show ?thesis
      unfolding n d by (auto simp: bit_un_be_snoc snoc.IH)
  qed
qed

lemma un_be_be_bytes:
  assumes "LENGTH('a) = 8 * k"
  shows "un_be (be_bytes k v) = (v :: 'a::len word)"
proof (rule bit_word_eqI)
  fix n assume n: "n < LENGTH('a)"
  with assms have d: "n div 8 < k" by auto
  have "8 * (n div 8) + n mod 8 = n" by simp
  with n d show "bit (un_be (be_bytes k v) :: 'a word) n = bit v n"
    by (simp add: bit_un_be be_bytes_def bit_ucast_iff bit_drop_bit_eq)
qed

lemma bit_byte_un_be:
  assumes "LENGTH('a) = 8 * k" "length bs = k" "i < k"
  shows "ucast (drop_bit (8 * i) (un_be bs :: 'a::len word)) = rev bs ! i"
proof (rule bit_word_eqI)
  fix n assume n: "n < LENGTH(8)"
  then have "(8 * i + n) div 8 = i" "(8 * i + n) mod 8 = n" by simp_all
  moreover have "8 * i + n < LENGTH('a)" using assms n by simp
  ultimately show "bit (ucast (drop_bit (8 * i) (un_be bs :: 'a word)) :: 8 word) n = bit (rev bs ! i) n"
    using assms n by (simp add: bit_ucast_iff bit_drop_bit_eq bit_un_be)
qed

lemma be_bytes_un_be:
  assumes "LENGTH('a) = 8 * k" "length bs = k"
  shows "be_bytes k (un_be bs :: 'a::len word) = bs"
proof -
  have "map (\<lambda>i. ucast (drop_bit (8 * i) (un_be bs :: 'a word))) [0..<k] = rev bs"
    using assms by (intro nth_equalityI) (simp_all add: bit_byte_un_be)
  then show ?thesis by (simp add: be_bytes_def)
qed

lemma un_be_be [simp, wire_simps]:
  "un_be (be16 v) = v" "un_be (be32 w) = w" "un_be (be64 x) = x"
  by (simp_all add: be16_eq be32_eq be64_eq un_be_be_bytes)

lemma be_un_be:
  "length bs = 2 \<Longrightarrow> be16 (un_be bs) = bs"
  "length bs = 4 \<Longrightarrow> be32 (un_be bs) = bs"
  "length bs = 8 \<Longrightarrow> be64 (un_be bs) = bs"
  by (simp_all add: be16_eq be32_eq be64_eq be_bytes_un_be)

text \<open>
  A slice \<open>b[i:j]\<close> of Go, used where the code has checked that \<open>j \<le> len(b)\<close>.
\<close>

definition slice_of :: "'a list \<Rightarrow> nat \<Rightarrow> nat \<Rightarrow> 'a list" where
  "slice_of b i j = take (j - i) (drop i b)"

lemma slice_of_append_left: "j \<le> length xs \<Longrightarrow> slice_of (xs @ ys) i j = slice_of xs i j"
  by (simp add: slice_of_def)

lemma slice_of_append_right [wire_simps]:
  "length xs \<le> i \<Longrightarrow> slice_of (xs @ ys) i j = slice_of ys (i - length xs) (j - length xs)"
  by (simp add: slice_of_def)

lemma slice_of_all [wire_simps]: "length xs = j \<Longrightarrow> slice_of (xs @ ys) 0 j = xs"
  by (simp add: slice_of_def)

lemma length_slice_of: "j \<le> length b \<Longrightarrow> i \<le> j \<Longrightarrow> length (slice_of b i j) = j - i"
  by (simp add: slice_of_def)

lemma unat_of_nat_less:
  "n < 2 ^ LENGTH('a) \<Longrightarrow> unat (of_nat n :: 'a::len word) = n"
  by (simp add: unat_of_nat take_bit_nat_eq_self)


section \<open>Ordered byte streams\<close>

text \<open>
  An \<open>io.Reader\<close> over an ordered transport (an SSH channel): the bytes the peer will ever
  deliver, and the error that \<open>Read\<close> returns after the last of them (\<open>io.EOF\<close> when the
  channel was closed in order, any other error when the connection broke).
\<close>

datatype io_error = EOF | ErrUnexpectedEOF | ErrShortWrite | Errorf string

record stream =
  st_bytes :: bytes
  st_end :: io_error

type_synonym 'a reader = "stream \<Rightarrow> (io_error + 'a) \<times> stream"

text \<open>
  \<open>io.ReadFull(r, buf)\<close> with \<open>len(buf) = n\<close>: exactly \<open>n\<close> bytes, or the stream's error, which
  becomes \<open>io.ErrUnexpectedEOF\<close> when it is \<open>io.EOF\<close> and some bytes were read.
\<close>

definition read_full :: "nat \<Rightarrow> bytes reader" where
  "read_full n s =
     (if n \<le> length (st_bytes s)
      then (Inr (take n (st_bytes s)), s\<lparr>st_bytes := drop n (st_bytes s)\<rparr>)
      else (Inl (if st_bytes s \<noteq> [] \<and> st_end s = EOF then ErrUnexpectedEOF else st_end s),
            s\<lparr>st_bytes := []\<rparr>))"

definition rd_return :: "'a \<Rightarrow> 'a reader" where
  "rd_return x s = (Inr x, s)"

definition rd_fail :: "io_error \<Rightarrow> 'a reader" where
  "rd_fail e s = (Inl e, s)"

definition rd_bind :: "'a reader \<Rightarrow> ('a \<Rightarrow> 'b reader) \<Rightarrow> 'b reader" where
  "rd_bind m f s = (case m s of (Inl e, s') \<Rightarrow> (Inl e, s') | (Inr x, s') \<Rightarrow> f x s')"

abbreviation on_wire :: "bytes \<Rightarrow> io_error \<Rightarrow> stream" where
  "on_wire bs e \<equiv> \<lparr>st_bytes = bs, st_end = e\<rparr>"

lemma read_full_append [wire_simps]:
  "length xs = n \<Longrightarrow> read_full n (on_wire (xs @ ys) e) = (Inr xs, on_wire ys e)"
  by (simp add: read_full_def)

lemma read_full_exact: "read_full (length xs) (on_wire xs e) = (Inr xs, on_wire [] e)"
  by (simp add: read_full_def)

lemma read_full_0 [wire_simps]: "read_full 0 s = (Inr [], s)"
  by (simp add: read_full_def)

lemma read_full_short:
  "length (st_bytes s) < n \<Longrightarrow>
   read_full n s = (Inl (if st_bytes s \<noteq> [] \<and> st_end s = EOF then ErrUnexpectedEOF else st_end s),
                    s\<lparr>st_bytes := []\<rparr>)"
  by (simp add: read_full_def)

lemma read_full_length:
  "fst (read_full n s) = Inr xs \<Longrightarrow> length xs = n"
  by (auto simp: read_full_def split: if_splits)

lemma rd_bind_Inr [wire_simps]: "m s = (Inr x, s') \<Longrightarrow> rd_bind m f s = f x s'"
  by (simp add: rd_bind_def)

lemma rd_bind_Inl [wire_simps]: "m s = (Inl e, s') \<Longrightarrow> rd_bind m f s = (Inl e, s')"
  by (simp add: rd_bind_def)

lemma rd_return_app [wire_simps]: "rd_return x s = (Inr x, s)"
  by (simp add: rd_return_def)

lemma rd_fail_app [wire_simps]: "rd_fail e s = (Inl e, s)"
  by (simp add: rd_fail_def)

text \<open>\<open>n\<close> frames read one after the other from a stream.\<close>

fun read_frames :: "nat \<Rightarrow> 'a reader \<Rightarrow> 'a list reader" where
  "read_frames 0 dec = rd_return []"
| "read_frames (Suc n) dec =
     rd_bind dec (\<lambda>x. rd_bind (read_frames n dec) (\<lambda>xs. rd_return (x # xs)))"


section \<open>A framed stream: the contract of an encoder and a reader\<close>

text \<open>
  What a component that writes frames to a stream promises to the one that reads them: the
  reader takes exactly one encoded frame off the stream and gives the value back, whatever
  follows. The lemmas below hold of every such pair.
\<close>

locale frame_codec =
  fixes enc :: "'a \<Rightarrow> bytes"
    and dec :: "'a reader"
    and ok :: "'a \<Rightarrow> bool"
  assumes dec_enc: "ok x \<Longrightarrow> dec (on_wire (enc x @ rest) e) = (Inr x, on_wire rest e)"
    and enc_nonempty: "ok x \<Longrightarrow> enc x \<noteq> []"
begin

lemma enc_prefix_free:
  assumes "ok x" "ok y" "enc x @ r = enc y @ r'"
  shows "x = y \<and> r = r'"
proof -
  have "dec (on_wire (enc x @ r) EOF) = dec (on_wire (enc y @ r') EOF)"
    using assms(3) by simp
  with dec_enc [OF assms(1)] dec_enc [OF assms(2)] show ?thesis by simp
qed

lemma read_frames_concat:
  "list_all ok xs \<Longrightarrow>
   read_frames (length xs) dec (on_wire (concat (map enc xs) @ rest) e) = (Inr xs, on_wire rest e)"
  by (induction xs) (simp_all add: wire_simps dec_enc)

lemma concat_inj:
  assumes "list_all ok xs" "list_all ok ys" "concat (map enc xs) = concat (map enc ys)"
  shows "xs = ys"
  using assms
proof (induction xs arbitrary: ys)
  case Nil
  then show ?case by (cases ys) (auto dest: enc_nonempty)
next
  case (Cons x xs)
  then obtain y ys' where ys: "ys = y # ys'"
    by (cases ys) (auto dest: enc_nonempty)
  with Cons.prems have "x = y \<and> concat (map enc xs) = concat (map enc ys')"
    by (intro enc_prefix_free) auto
  with Cons.IH [of ys'] Cons.prems ys show ?case by simp
qed

end


section \<open>Maps\<close>

text \<open>
  Go's \<open>map\<close> and \<open>sync.Map\<close> as association lists with distinct keys: assignment replaces
  the value of a key or adds the key, \<open>delete\<close> removes it, \<open>len\<close> is the length. Go leaves
  the iteration order of a map open; a model that iterates takes the order the list has, and
  a property that depends on it says so.
\<close>

locale go_store =
  fixes get :: "'m \<Rightarrow> 'k \<Rightarrow> 'v option"
    and put :: "'k \<Rightarrow> 'v \<Rightarrow> 'm \<Rightarrow> 'm"
    and del :: "'k \<Rightarrow> 'm \<Rightarrow> 'm"
    and len :: "'m \<Rightarrow> nat"
    and inv :: "'m \<Rightarrow> bool"
  assumes get_put: "get (put k v m) k' = (if k' = k then Some v else get m k')"
    and get_del: "get (del k m) k' = (if k' = k then None else get m k')"
    and inv_put: "inv m \<Longrightarrow> inv (put k v m)"
    and inv_del: "inv m \<Longrightarrow> inv (del k m)"
    and len_put: "inv m \<Longrightarrow> len (put k v m) = (if get m k = None then Suc (len m) else len m)"
    and len_del: "inv m \<Longrightarrow> len (del k m) = (if get m k = None then len m else len m - 1)"
begin

lemma len_put_bound: "inv m \<Longrightarrow> len m < n \<or> get m k \<noteq> None \<and> len m \<le> n \<Longrightarrow> len (put k v m) \<le> n"
  by (auto simp: len_put)

lemma len_del_le: "inv m \<Longrightarrow> len (del k m) \<le> len m"
  by (simp add: len_del)

lemma put_put: "get (put k v (put k w m)) = get (put k v m)"
  by (rule ext) (simp add: get_put)

lemma del_put: "get (del k (put k v m)) = get (del k m)"
  by (rule ext) (simp add: get_put get_del)

lemma put_del: "get (put k v (del k m)) = get (put k v m)"
  by (rule ext) (simp add: get_put get_del)

end

abbreviation distinct_keys :: "('k \<times> 'v) list \<Rightarrow> bool" where
  "distinct_keys m \<equiv> distinct (map fst m)"

lemma map_of_update [store_simps]:
  "map_of (AList.update k v m) k' = (if k' = k then Some v else map_of m k')"
  by (simp add: update_conv')

lemma map_of_delete [store_simps]:
  "map_of (AList.delete k m) k' = (if k' = k then None else map_of m k')"
  by (simp add: delete_conv')

lemma length_update_AList:
  "length (AList.update k v m) = (if map_of m k = None then Suc (length m) else length m)"
  by (induction m) auto

lemma length_delete_AList:
  "distinct_keys m \<Longrightarrow>
   length (AList.delete k m) = (if map_of m k = None then length m else length m - 1)"
proof (induction m)
  case Nil
  then show ?case by simp
next
  case (Cons kv m)
  then show ?case
  proof (cases "fst kv = k")
    case True
    with Cons.prems have "k \<notin> fst ` set m" by auto
    with True show ?thesis by (simp add: delete_id)
  next
    case False
    moreover have "map_of m k \<noteq> None \<Longrightarrow> 0 < length m" by (cases m) auto
    ultimately show ?thesis using Cons by auto
  qed
qed

interpretation alist: go_store map_of AList.update AList.delete length distinct_keys
  by unfold_locales
    (simp_all add: store_simps distinct_update distinct_delete length_update_AList length_delete_AList)

lemma map_of_filter_distinct:
  "distinct_keys m \<Longrightarrow>
   map_of (filter P m) k = (case map_of m k of None \<Rightarrow> None | Some v \<Rightarrow> if P (k, v) then Some v else None)"
proof (induction m)
  case Nil
  then show ?case by simp
next
  case (Cons kv m)
  then show ?case
  proof (cases "fst kv = k")
    case True
    with Cons.prems have "map_of m k = None" by (auto simp: map_of_eq_None_iff)
    with True Cons show ?thesis by (cases kv) auto
  next
    case False
    with Cons show ?thesis by (cases kv) auto
  qed
qed

lemma distinct_keys_filter: "distinct_keys m \<Longrightarrow> distinct_keys (filter P m)"
  by (rule distinct_map_filter)

lemma map_of_in_set: "distinct_keys m \<Longrightarrow> (k, v) \<in> set m \<longleftrightarrow> map_of m k = Some v"
  by simp

lemma list_all_values:
  "distinct_keys m \<Longrightarrow> list_all P (map snd m) \<longleftrightarrow> (\<forall>k v. map_of m k = Some v \<longrightarrow> P v)"
  by (auto simp: list_all_iff dest: map_of_SomeD)


section \<open>The clock\<close>

text \<open>
  Instants and durations are integers in nanoseconds (\<open>time.Duration\<close>). The zero
  \<open>time.Time\<close>, which \<open>IsZero\<close> tests for, is \<open>None\<close>; \<open>time.Since\<close> of it saturates at the
  largest duration. The clock readings of one step of the code are taken to be equal, and a
  step gets its reading as an argument \<open>now\<close>.
\<close>

type_synonym instant = int
type_synonym duration = int
type_synonym gotime = "int option"

definition millisecond :: duration where "millisecond = 1000000"
definition second :: duration where "second = 1000000000"
definition minute :: duration where "minute = 60 * second"
definition max_duration :: duration where "max_duration = 2 ^ 63 - 1"

definition since :: "instant \<Rightarrow> gotime \<Rightarrow> duration" where
  "since now t = (case t of None \<Rightarrow> max_duration | Some s \<Rightarrow> now - s)"

lemmas duration_defs = millisecond_def second_def minute_def max_duration_def

lemma since_Some [simp]: "since now (Some s) = now - s"
  by (simp add: since_def)


section \<open>The width of an int\<close>

text \<open>Go's \<open>int\<close> and \<open>time.Duration\<close> wrap to their width: \<open>to_int bits x\<close> is \<open>x\<close> in \<open>bits\<close> bits, signed.\<close>

definition to_int :: "nat \<Rightarrow> int \<Rightarrow> int" where
  "to_int bits x = signed_take_bit (bits - 1) x"

lemma to_int_64: "- (2 ^ 63) \<le> x \<Longrightarrow> x < 2 ^ 63 \<Longrightarrow> to_int 64 x = x"
  by (simp add: to_int_def signed_take_bit_int_eq_self)

lemma to_int_nonneg: "0 \<le> x \<Longrightarrow> x < 2 ^ 63 \<Longrightarrow> to_int 64 x = x"
  by (simp add: to_int_64)

end
