(* ===== verification/Udp_Frame.thy ===== *)
theory Udp_Frame
  imports Go_Prelude
begin

text \<open>
  The application frames of the UDP data plane (\<open>base_tunnel/udp_proxy.go\<close> and
  \<open>base_tunnel/udp_datagram.go\<close>): v1 frames (flow and length), v2 frames (flow, flags,
  fragment numbers and length), the stream readers of both and the parser of a v2 frame that
  came as one datagram. Both frame formats are interpreted as codecs of an ordered stream.
\<close>

section \<open>Constants\<close>

definition udpMaxPacketSize :: nat where "udpMaxPacketSize = 1400"
definition udpMaxDatagramSize :: nat where "udpMaxDatagramSize = 65507"
definition udpMaxShardCount :: nat where "udpMaxShardCount = 32"
definition udpFrameHeaderLen :: nat where "udpFrameHeaderLen = 6"
definition udpFrameHeaderLenV2 :: nat where "udpFrameHeaderLenV2 = 11"
definition udpFrameFlagFragment :: byte where "udpFrameFlagFragment = 0x01"
definition udpFrameFlagKeepalive :: byte where "udpFrameFlagKeepalive = 0x02"

lemmas frame_consts [wire_simps] =
  udpFrameHeaderLen_def udpFrameHeaderLenV2_def


section \<open>Frames of format v1\<close>

definition encodeUDPFrame :: "32 word \<Rightarrow> bytes \<Rightarrow> bytes" where
  "encodeUDPFrame flowID payload = be32 flowID @ be16 (of_nat (length payload)) @ payload"

definition readUDPFrame :: "(32 word \<times> bytes) reader" where
  "readUDPFrame =
     rd_bind (read_full udpFrameHeaderLen) (\<lambda>hdr.
       let flowID = un_be (slice_of hdr 0 4);
           len = unat (un_be (slice_of hdr 4 6) :: 16 word)
       in if len > 0
          then rd_bind (read_full len) (\<lambda>payload. rd_return (flowID, payload))
          else rd_return (flowID, []))"


section \<open>Frames of format v2\<close>

record udpFrameMeta =
  meta_flowID :: "32 word"
  meta_flags :: byte
  meta_fragID :: "16 word"
  meta_fragIdx :: byte
  meta_fragCnt :: byte

definition encodeUDPFrameV2 :: "udpFrameMeta \<Rightarrow> bytes \<Rightarrow> bytes" where
  "encodeUDPFrameV2 meta payload =
     be32 (meta_flowID meta) @ [meta_flags meta] @ be16 (meta_fragID meta) @
     [meta_fragIdx meta, meta_fragCnt meta] @ be16 (of_nat (length payload)) @ payload"

definition header_meta :: "bytes \<Rightarrow> udpFrameMeta" where
  "header_meta hdr =
     \<lparr>meta_flowID = un_be (slice_of hdr 0 4), meta_flags = hdr ! 4,
      meta_fragID = un_be (slice_of hdr 5 7), meta_fragIdx = hdr ! 7, meta_fragCnt = hdr ! 8\<rparr>"

definition header_length :: "bytes \<Rightarrow> nat" where
  "header_length hdr = unat (un_be (slice_of hdr 9 11) :: 16 word)"

definition readUDPFrameV2 :: "(udpFrameMeta \<times> bytes) reader" where
  "readUDPFrameV2 =
     rd_bind (read_full udpFrameHeaderLenV2) (\<lambda>hdr.
       let meta = header_meta hdr; len = header_length hdr
       in if len > 0
          then rd_bind (read_full len) (\<lambda>payload. rd_return (meta, payload))
          else rd_return (meta, []))"

definition parseUDPFrameV2Bytes :: "bytes \<Rightarrow> (udpFrameMeta \<times> bytes) option" where
  "parseUDPFrameV2Bytes b =
     (if length b < udpFrameHeaderLenV2 then None
      else let meta = header_meta b; len = header_length b
           in if udpFrameHeaderLenV2 + len > length b then None
              else Some (meta, slice_of b udpFrameHeaderLenV2 (udpFrameHeaderLenV2 + len)))"


section \<open>Lengths and headers\<close>

abbreviation wire_length :: "bytes \<Rightarrow> nat" where
  "wire_length payload \<equiv> length payload mod 65536"

lemma unat_of_nat16: "unat (of_nat n :: 16 word) = n mod 65536"
  by (simp add: unat_of_nat)

lemma length_encodeUDPFrame [wire_simps]: "length (encodeUDPFrame f p) = 6 + length p"
  by (simp add: encodeUDPFrame_def)

lemma length_encodeUDPFrameV2 [wire_simps]: "length (encodeUDPFrameV2 m p) = 11 + length p"
  by (simp add: encodeUDPFrameV2_def)

definition v1_header :: "32 word \<Rightarrow> bytes \<Rightarrow> bytes" where
  "v1_header f p = be32 f @ be16 (of_nat (length p))"

definition v2_header :: "udpFrameMeta \<Rightarrow> bytes \<Rightarrow> bytes" where
  "v2_header m p = be32 (meta_flowID m) @ [meta_flags m] @ be16 (meta_fragID m) @
     [meta_fragIdx m, meta_fragCnt m] @ be16 (of_nat (length p))"

lemma encode_header:
  "encodeUDPFrame f p = v1_header f p @ p" "encodeUDPFrameV2 m p = v2_header m p @ p"
  by (simp_all add: encodeUDPFrame_def v1_header_def encodeUDPFrameV2_def v2_header_def)

lemma length_header [simp]: "length (v1_header f p) = 6" "length (v2_header m p) = 11"
  by (simp_all add: v1_header_def v2_header_def)

lemma v1_header_fields:
  "un_be (slice_of (v1_header f p) 0 4) = f"
  "unat (un_be (slice_of (v1_header f p) 4 6) :: 16 word) = wire_length p"
  by (simp_all add: v1_header_def slice_of_def unat_of_nat16)

lemma v2_header_fields:
  "header_meta (v2_header m p @ q) = m" "header_length (v2_header m p @ q) = wire_length p"
  by (simp_all add: header_meta_def header_length_def v2_header_def slice_of_def nth_append
      unat_of_nat16)

lemmas v2_header_fields' = v2_header_fields [where q = "[]", simplified]


section \<open>What the readers return\<close>

lemma readUDPFrame_encoded:
  "readUDPFrame (on_wire (encodeUDPFrame f p @ rest) e) =
     (Inr (f, take (wire_length p) p), on_wire (drop (wire_length p) p @ rest) e)"
proof -
  let ?k = "wire_length p"
  have k: "?k \<le> length p" by simp
  have "read_full ?k (on_wire (p @ rest) e) = (Inr (take ?k p), on_wire (drop ?k p @ rest) e)"
    using k by (simp add: read_full_def)
  moreover have "?k = 0 \<Longrightarrow> take ?k p = [] \<and> drop ?k p = p" by simp
  ultimately show ?thesis
    by (simp add: readUDPFrame_def encode_header wire_simps rd_bind_def v1_header_fields
        Let_def rd_return_def)
qed

lemma readUDPFrameV2_encoded:
  "readUDPFrameV2 (on_wire (encodeUDPFrameV2 m p @ rest) e) =
     (Inr (m, take (wire_length p) p), on_wire (drop (wire_length p) p @ rest) e)"
proof -
  let ?k = "wire_length p"
  have k: "?k \<le> length p" by simp
  have "read_full ?k (on_wire (p @ rest) e) = (Inr (take ?k p), on_wire (drop ?k p @ rest) e)"
    using k by (simp add: read_full_def)
  moreover have "?k = 0 \<Longrightarrow> take ?k p = [] \<and> drop ?k p = p" by simp
  ultimately show ?thesis
    by (simp add: readUDPFrameV2_def encode_header wire_simps rd_bind_def v2_header_fields'
        Let_def rd_return_def)
qed

text \<open>Both formats are codecs for the payloads whose length fits the two length bytes.\<close>

definition fits_v1 :: "32 word \<times> bytes \<Rightarrow> bool" where
  "fits_v1 fp \<longleftrightarrow> length (snd fp) < 65536"

definition fits_v2 :: "udpFrameMeta \<times> bytes \<Rightarrow> bool" where
  "fits_v2 mp \<longleftrightarrow> length (snd mp) < 65536"

abbreviation enc_v1 :: "32 word \<times> bytes \<Rightarrow> bytes" where
  "enc_v1 fp \<equiv> encodeUDPFrame (fst fp) (snd fp)"

abbreviation enc_v2 :: "udpFrameMeta \<times> bytes \<Rightarrow> bytes" where
  "enc_v2 mp \<equiv> encodeUDPFrameV2 (fst mp) (snd mp)"

interpretation v1: frame_codec enc_v1 readUDPFrame fits_v1
proof unfold_locales
  fix fp and rest and e
  assume "fits_v1 fp"
  then show "readUDPFrame (on_wire (enc_v1 fp @ rest) e) = (Inr fp, on_wire rest e)"
    by (simp add: readUDPFrame_encoded fits_v1_def)
qed (simp add: encodeUDPFrame_def be32_def)

interpretation v2: frame_codec enc_v2 readUDPFrameV2 fits_v2
proof unfold_locales
  fix mp and rest and e
  assume "fits_v2 mp"
  then show "readUDPFrameV2 (on_wire (enc_v2 mp @ rest) e) = (Inr mp, on_wire rest e)"
    by (simp add: readUDPFrameV2_encoded fits_v2_def)
qed (simp add: encodeUDPFrameV2_def be32_def)

lemma readUDPFrame_no_header:
  "length bs < 6 \<Longrightarrow>
   readUDPFrame (on_wire bs e) =
     (Inl (if bs \<noteq> [] \<and> e = EOF then ErrUnexpectedEOF else e), on_wire [] e)"
  by (simp add: readUDPFrame_def rd_bind_def read_full_short wire_simps)

lemma readUDPFrameV2_no_header:
  "length bs < 11 \<Longrightarrow>
   readUDPFrameV2 (on_wire bs e) =
     (Inl (if bs \<noteq> [] \<and> e = EOF then ErrUnexpectedEOF else e), on_wire [] e)"
  by (simp add: readUDPFrameV2_def rd_bind_def read_full_short wire_simps)

lemma readUDPFrame_no_payload:
  assumes "n < wire_length p"
  shows "readUDPFrame (on_wire (v1_header f p @ take n p) e) =
     (Inl (if 0 < n \<and> e = EOF then ErrUnexpectedEOF else e), on_wire [] e)"
proof -
  have "n < length p" using assms by (metis less_le_trans mod_less_eq_dividend)
  with assms show ?thesis
    by (auto simp: readUDPFrame_def rd_bind_def wire_simps v1_header_fields Let_def
        read_full_short min_def)
qed

lemma readUDPFrame_cut:
  assumes p: "length p < 65536" and n: "n < length (encodeUDPFrame f p)"
  shows "fst (readUDPFrame (on_wire (take n (encodeUDPFrame f p)) EOF)) =
     Inl (if n = 0 \<or> n = 6 then EOF else ErrUnexpectedEOF)"
proof (cases "n < 6")
  case True
  with n have "length (take n (encodeUDPFrame f p)) = n" by simp
  with True readUDPFrame_no_header [of "take n (encodeUDPFrame f p)" EOF]
  show ?thesis by auto
next
  case False
  then have "take n (encodeUDPFrame f p) = v1_header f p @ take (n - 6) p"
    by (simp add: encode_header)
  moreover have "n - 6 < wire_length p"
    using n p False by (simp add: wire_simps)
  ultimately show ?thesis
    using False readUDPFrame_no_payload [of "n - 6" p f EOF] by auto
qed


section \<open>The datagram parser\<close>

lemma header_take: "11 \<le> length b \<Longrightarrow>
  header_meta (take 11 b) = header_meta b \<and> header_length (take 11 b) = header_length b"
  by (simp add: header_meta_def header_length_def slice_of_def drop_take)

lemma parse_eq_read:
  "parseUDPFrameV2Bytes b =
     (case fst (readUDPFrameV2 (on_wire b e)) of Inl _ \<Rightarrow> None | Inr x \<Rightarrow> Some x)"
proof (cases "length b < 11")
  case True
  then show ?thesis
    by (simp add: parseUDPFrameV2Bytes_def readUDPFrameV2_no_header wire_simps)
next
  case False
  then have r: "read_full 11 (on_wire b e) = (Inr (take 11 b), on_wire (drop 11 b) e)"
    by (simp add: read_full_def)
  show ?thesis
  proof (cases "11 + header_length b > length b")
    case True
    with False show ?thesis
      by (auto simp: parseUDPFrameV2Bytes_def readUDPFrameV2_def wire_simps rd_bind_def r header_take
          Let_def read_full_short)
  next
    case False
    then show ?thesis using \<open>\<not> length b < 11\<close>
      by (simp add: parseUDPFrameV2Bytes_def readUDPFrameV2_def wire_simps rd_bind_def r header_take
          Let_def read_full_def rd_return_def slice_of_def)
  qed
qed

lemma parse_encoded:
  "length p < 65536 \<Longrightarrow> parseUDPFrameV2Bytes (encodeUDPFrameV2 m p) = Some (m, p)"
  using readUDPFrameV2_encoded [of m p "[]" EOF]
  by (simp add: parse_eq_read [where e = EOF])

lemma list_11: "length b = 11 \<Longrightarrow>
  b = slice_of b 0 4 @ [b ! 4] @ slice_of b 5 7 @ [b ! 7, b ! 8] @ slice_of b 9 11"
  by (simp add: slice_of_def numeral_eq_Suc length_Suc_conv) (elim exE conjE, simp)

lemma parse_canonical:
  assumes "parseUDPFrameV2Bytes b = Some (m, p)"
  shows "take (11 + length p) b = encodeUDPFrameV2 m p"
proof -
  from assms have len: "11 + header_length b \<le> length b"
    and m: "m = header_meta b" and p: "p = take (header_length b) (drop 11 b)"
    by (auto simp: parseUDPFrameV2Bytes_def wire_simps Let_def slice_of_def split: if_splits)
  let ?h = "take 11 b"
  have h: "length ?h = 11" using len by simp
  have lp: "length p = header_length b" using p len by simp
  have hm: "header_meta ?h = m" "header_length ?h = length p"
    using header_take [of b] len m lp by simp_all
  have lw: "be16 (of_nat (length p)) = slice_of ?h 9 11"
    using h be_un_be(1) [of "slice_of ?h 9 11"]
    by (simp add: hm(2) [symmetric] header_length_def slice_of_def)
  have "encodeUDPFrameV2 m p = ?h @ p"
    using list_11 [OF h] h lw hm(1)
    by (simp add: encodeUDPFrameV2_def header_meta_def be_un_be length_slice_of flip: hm(1))
  moreover have "take (11 + length p) b = ?h @ p"
    by (simp add: take_add lp flip: p)
  ultimately show ?thesis by simp
qed


section \<open>Properties\<close>

text \<open>
  C13. Frame boundaries survive a stream: any sequence of v2 frames with payloads that fit the
  length field, written back to back on a channel, is read back frame by frame with every
  header field and payload as sent, and the reader stops exactly where the frames end; the
  same holds of v1 frames.
\<close>

theorem frames_roundtrip:
  "(list_all fits_v2 xs \<longrightarrow>
     read_frames (length xs) readUDPFrameV2 (on_wire (concat (map enc_v2 xs) @ rest) e) = (Inr xs, on_wire rest e)) \<and>
   (list_all fits_v1 ys \<longrightarrow>
     read_frames (length ys) readUDPFrame (on_wire (concat (map enc_v1 ys) @ rest) e) = (Inr ys, on_wire rest e))"
  using v2.read_frames_concat v1.read_frames_concat by blast

theorem frames_roundtrip_witness:
  "read_frames 2 readUDPFrame
     (on_wire (encodeUDPFrame 1 [0x61] @ encodeUDPFrame 2 [] @ [9]) EOF) = (Inr [(1, [0x61]), (2, [])], on_wire [9] EOF)"
  using frames_roundtrip [of "[]" "[9]" EOF "[(1, [0x61]), (2, [])]"]
  by (simp add: fits_v1_def numeral_2_eq_2)

text \<open>
  C35. The datagram parser agrees with the stream reader: it accepts exactly the byte strings
  from which the reader takes a frame, with the same result, and the bytes it accepts start
  with the encoding of that result, so a frame has one encoding only.
\<close>

theorem parse_agrees_with_reader:
  "parseUDPFrameV2Bytes b = (case fst (readUDPFrameV2 (on_wire b e)) of Inl _ \<Rightarrow> None | Inr x \<Rightarrow> Some x) \<and>
   (\<forall>m p. parseUDPFrameV2Bytes b = Some (m, p) \<longrightarrow> take (11 + length p) b = encodeUDPFrameV2 m p)"
  using parse_eq_read parse_canonical by blast

abbreviation sample_meta :: udpFrameMeta where
  "sample_meta \<equiv> \<lparr>meta_flowID = 7, meta_flags = 1, meta_fragID = 3, meta_fragIdx = 0, meta_fragCnt = 2\<rparr>"

theorem parse_agrees_with_reader_witness:
  "take 12 (encodeUDPFrameV2 sample_meta [0x61] @ [5]) = encodeUDPFrameV2 sample_meta [0x61]"
proof -
  let ?b = "encodeUDPFrameV2 sample_meta [0x61] @ [5]"
  have "parseUDPFrameV2Bytes ?b = Some (sample_meta, [0x61])"
    using parse_agrees_with_reader [of ?b EOF] readUDPFrameV2_encoded [of sample_meta "[0x61]" "[5]" EOF]
    by simp
  then have "take (11 + length [0x61 :: byte]) ?b = encodeUDPFrameV2 sample_meta [0x61]"
    using parse_agrees_with_reader [of ?b EOF] by blast
  then show ?thesis by (simp del: take_append)
qed

text \<open>
  C36. A frame that is cut off is an error, never a shorter frame: from a proper prefix of a v1
  frame the reader returns \<open>io.EOF\<close> when the stream ends on a boundary of its two reads (before
  the header or between header and payload) and \<open>io.ErrUnexpectedEOF\<close> anywhere else.
\<close>

theorem cut_frame_is_error:
  assumes "length p < 65536" "n < length (encodeUDPFrame f p)"
  shows "fst (readUDPFrame (on_wire (take n (encodeUDPFrame f p)) EOF)) =
    Inl (if n = 0 \<or> n = 6 then EOF else ErrUnexpectedEOF)"
  using assms by (rule readUDPFrame_cut)

theorem cut_frame_is_error_witness:
  "fst (readUDPFrame (on_wire (take 7 (encodeUDPFrame 5 [1, 2])) EOF)) = Inl ErrUnexpectedEOF"
  using cut_frame_is_error [of "[1, 2]" 7 5] by (simp add: wire_simps)

end
