(* ===== verification/Udp_Reassembly.thy ===== *)
theory Udp_Reassembly
  imports Udp_Frame
begin

text \<open>
  The fragment reassembler of \<open>base_tunnel/udp_proxy.go\<close> (\<open>udpReassemblySlot\<close>,
  \<open>udpReassembler\<close>, \<open>add\<close>, \<open>sweep\<close>). The lemmas show the slot invariant and the memory
  bound, that operations on one datagram leave the slots of all others alone, that a result
  is made of fragments that were received for it, and that the fragments of a datagram give
  it back in whatever order they come and whatever comes between them.
\<close>

section \<open>State\<close>

record udpReassemblySlot =
  sl_fragCnt :: nat
  sl_frags :: "bytes option list"
  sl_count :: nat
  sl_bytes :: nat
  sl_lastSeen :: instant

record udpReassembler =
  ra_slots :: "(64 word \<times> udpReassemblySlot) list"
  ra_maxConcurrent :: nat
  ra_timeout :: duration
  ra_maxDatagram :: nat

definition udpReassemblyTimeout :: duration where
  "udpReassemblyTimeout = 300 * millisecond"

definition udpMaxReassembliesPerFlow :: nat where
  "udpMaxReassembliesPerFlow = 16"

definition newUDPReassembler :: udpReassembler where
  "newUDPReassembler =
     \<lparr>ra_slots = [], ra_maxConcurrent = udpMaxReassembliesPerFlow,
      ra_timeout = udpReassemblyTimeout, ra_maxDatagram = udpMaxDatagramSize\<rparr>"

definition udpReassemblyKey :: "32 word \<Rightarrow> 16 word \<Rightarrow> 64 word" where
  "udpReassemblyKey flowID fragID = push_bit 16 (ucast flowID) OR ucast fragID"


section \<open>Operations\<close>

text \<open>Line 216: a new slot for \<open>fragCnt\<close> fragments.\<close>

definition fresh_slot :: "instant \<Rightarrow> nat \<Rightarrow> udpReassemblySlot" where
  "fresh_slot now fragCnt =
     \<lparr>sl_fragCnt = fragCnt, sl_frags = replicate fragCnt None, sl_count = 0, sl_bytes = 0,
      sl_lastSeen = now\<rparr>"

text \<open>Lines 205--218: the slot the fragment goes to, or \<open>None\<close> when there is no room for one.\<close>

definition reasm_open ::
  "instant \<Rightarrow> 64 word \<Rightarrow> nat \<Rightarrow> udpReassembler \<Rightarrow> udpReassemblySlot option \<times> udpReassembler" where
  "reasm_open now key fragCnt r =
     (let (r, slot) =
        (case map_of (ra_slots r) key of
           None \<Rightarrow> (r, None)
         | Some s \<Rightarrow>
             if sl_fragCnt s \<noteq> fragCnt \<or> now - sl_lastSeen s > ra_timeout r
             then (r\<lparr>ra_slots := AList.delete key (ra_slots r)\<rparr>, None)
             else (r, Some s))
      in case slot of
           Some s \<Rightarrow> (Some s, r)
         | None \<Rightarrow>
             if length (ra_slots r) \<ge> ra_maxConcurrent r then (None, r)
             else let s = fresh_slot now fragCnt
                  in (Some s, r\<lparr>ra_slots := AList.update key s (ra_slots r)\<rparr>))"

text \<open>Lines 219--240: the fragment is entered; the datagram is returned when it is complete.\<close>

definition reasm_enter ::
  "instant \<Rightarrow> 64 word \<Rightarrow> nat \<Rightarrow> bytes \<Rightarrow> udpReassemblySlot \<Rightarrow> udpReassembler \<Rightarrow>
   bytes option \<times> udpReassembler" where
  "reasm_enter now key fragIdx payload slot r =
     (if sl_frags slot ! fragIdx \<noteq> None
      then (None, r\<lparr>ra_slots := AList.delete key (ra_slots r)\<rparr>)
      else let slot = slot\<lparr>sl_frags := (sl_frags slot)[fragIdx := Some payload],
                           sl_count := sl_count slot + 1,
                           sl_bytes := sl_bytes slot + length payload,
                           sl_lastSeen := now\<rparr>
           in if sl_bytes slot > ra_maxDatagram r
              then (None, r\<lparr>ra_slots := AList.delete key (ra_slots r)\<rparr>)
              else if sl_count slot < sl_fragCnt slot
              then (None, r\<lparr>ra_slots := AList.update key slot (ra_slots r)\<rparr>)
              else (Some (concat (map (case_option [] id) (sl_frags slot))),
                    r\<lparr>ra_slots := AList.delete key (ra_slots r)\<rparr>))"

definition reasm_add ::
  "instant \<Rightarrow> 32 word \<Rightarrow> udpFrameMeta \<Rightarrow> bytes \<Rightarrow> udpReassembler \<Rightarrow> bytes option \<times> udpReassembler" where
  "reasm_add now flowID meta payload r =
     (let fragCnt = unat (meta_fragCnt meta); fragIdx = unat (meta_fragIdx meta)
      in if fragCnt < 1 \<or> fragCnt > 255 \<or> fragIdx \<ge> fragCnt then (None, r)
         else let key = udpReassemblyKey flowID (meta_fragID meta)
              in case reasm_open now key fragCnt r of
                   (None, r) \<Rightarrow> (None, r)
                 | (Some slot, r) \<Rightarrow> reasm_enter now key fragIdx payload slot r)"

definition reasm_sweep :: "instant \<Rightarrow> udpReassembler \<Rightarrow> udpReassembler" where
  "reasm_sweep now r =
     r\<lparr>ra_slots := filter (\<lambda>(k, slot). \<not> now - sl_lastSeen slot > ra_timeout r) (ra_slots r)\<rparr>"

text \<open>A run: fragments as they arrive, with what \<open>add\<close> returns for each.\<close>

type_synonym arrival = "instant \<times> udpFrameMeta \<times> bytes"

fun arrival_key :: "arrival \<Rightarrow> 64 word" where
  "arrival_key (t, meta, payload) = udpReassemblyKey (meta_flowID meta) (meta_fragID meta)"

fun reasm_run :: "arrival list \<Rightarrow> udpReassembler \<Rightarrow> (arrival \<times> bytes option) list \<times> udpReassembler" where
  "reasm_run [] r = ([], r)"
| "reasm_run ((t, meta, payload) # as) r =
     (let (d, r) = reasm_add t (meta_flowID meta) meta payload r;
          (outs, r) = reasm_run as r
      in (((t, meta, payload), d) # outs, r))"

definition outputs_for :: "64 word \<Rightarrow> arrival list \<Rightarrow> udpReassembler \<Rightarrow> bytes option list" where
  "outputs_for key as r = map snd (filter (\<lambda>(a, d). arrival_key a = key) (fst (reasm_run as r)))"


section \<open>Keys\<close>

lemma udpReassemblyKey_inj:
  "udpReassemblyKey f g = udpReassemblyKey f' g' \<longleftrightarrow> f = f' \<and> g = g'"
proof
  assume eq: "udpReassemblyKey f g = udpReassemblyKey f' g'"
  have bits: "bit (udpReassemblyKey f g) n = bit (udpReassemblyKey f' g') n" for n
    by (simp add: eq)
  have "f = f'"
  proof (rule bit_word_eqI)
    fix n assume "n < LENGTH(32)"
    with bits [of "n + 16"] show "bit f n = bit f' n"
      using bit_imp_le_length [of g "n + 16"] bit_imp_le_length [of g' "n + 16"]
      by (auto simp: udpReassemblyKey_def bit_simps)
  qed
  moreover have "g = g'"
  proof (rule bit_word_eqI)
    fix n assume "n < LENGTH(16)"
    with bits [of n] show "bit g n = bit g' n"
      by (auto simp: udpReassemblyKey_def bit_simps)
  qed
  ultimately show "f = f' \<and> g = g'" ..
qed simp


section \<open>The invariant and the memory bound\<close>

definition filled_count :: "bytes option list \<Rightarrow> nat" where
  "filled_count fs = length (filter (\<lambda>f. f \<noteq> None) fs)"

definition filled_bytes :: "bytes option list \<Rightarrow> nat" where
  "filled_bytes fs = sum_list (map (\<lambda>f. length (case_option [] id f)) fs)"

definition slot_inv :: "nat \<Rightarrow> udpReassemblySlot \<Rightarrow> bool" where
  "slot_inv limit s \<longleftrightarrow>
     1 \<le> sl_fragCnt s \<and> sl_fragCnt s \<le> 255 \<and> length (sl_frags s) = sl_fragCnt s \<and>
     sl_count s = filled_count (sl_frags s) \<and>
     sl_count s < sl_fragCnt s \<and>
     sl_bytes s = filled_bytes (sl_frags s) \<and>
     sl_bytes s \<le> limit"

definition reasm_inv :: "udpReassembler \<Rightarrow> bool" where
  "reasm_inv r \<longleftrightarrow>
     distinct_keys (ra_slots r) \<and> length (ra_slots r) \<le> ra_maxConcurrent r \<and>
     list_all (slot_inv (ra_maxDatagram r)) (map snd (ra_slots r))"

definition buffered_bytes :: "udpReassembler \<Rightarrow> nat" where
  "buffered_bytes r =
     sum_list (map (\<lambda>(k, s). filled_bytes (sl_frags s)) (ra_slots r))"


lemma reasm_inv_alt:
  "reasm_inv r \<longleftrightarrow>
     distinct_keys (ra_slots r) \<and> length (ra_slots r) \<le> ra_maxConcurrent r \<and>
     (\<forall>k s. map_of (ra_slots r) k = Some s \<longrightarrow> slot_inv (ra_maxDatagram r) s)"
  by (auto simp: reasm_inv_def list_all_values)

lemma reasm_inv_new: "reasm_inv newUDPReassembler"
  by (simp add: reasm_inv_def newUDPReassembler_def)

lemma reasm_inv_delete:
  "reasm_inv r \<Longrightarrow> reasm_inv (r\<lparr>ra_slots := AList.delete k (ra_slots r)\<rparr>)"
  using alist.len_del_le [of "ra_slots r" k]
  by (auto simp: reasm_inv_alt store_simps distinct_delete)

lemma reasm_inv_filter:
  "reasm_inv r \<Longrightarrow> reasm_inv (r\<lparr>ra_slots := filter P (ra_slots r)\<rparr>)"
  by (auto simp: reasm_inv_alt map_of_filter_distinct distinct_keys_filter
      intro: le_trans [OF length_filter_le] split: option.splits if_splits)

lemma reasm_inv_update:
  assumes "reasm_inv r" "slot_inv (ra_maxDatagram r) s"
    and "map_of (ra_slots r) k \<noteq> None \<or> length (ra_slots r) < ra_maxConcurrent r"
  shows "reasm_inv (r\<lparr>ra_slots := AList.update k s (ra_slots r)\<rparr>)"
  using assms by (auto simp: reasm_inv_alt store_simps distinct_update length_update_AList)

text \<open>A slot that was just opened holds no fragment yet; apart from that it is as the invariant says.\<close>

lemma slot_inv_fresh: "1 \<le> n \<Longrightarrow> n \<le> 255 \<Longrightarrow> slot_inv l (fresh_slot now n)"
  by (simp add: slot_inv_def fresh_slot_def filled_count_def filled_bytes_def sum_list_triv)

lemma fresh_slot_sel [simp]:
  "sl_fragCnt (fresh_slot now n) = n" "sl_frags (fresh_slot now n) = replicate n None"
  "sl_count (fresh_slot now n) = 0" "sl_bytes (fresh_slot now n) = 0"
  "sl_lastSeen (fresh_slot now n) = now"
  by (simp_all add: fresh_slot_def)

lemma reasm_open_cases:
  assumes "reasm_open now k n r = (so, r')"
  obtains (old) s where "so = Some s" "map_of (ra_slots r) k = Some s" "r' = r" "sl_fragCnt s = n"
      "now - sl_lastSeen s \<le> ra_timeout r"
    | (fresh) m where "so = Some (fresh_slot now n)" "m = ra_slots r \<or> m = AList.delete k (ra_slots r)"
      "map_of m k = None" "length m < ra_maxConcurrent r"
      "r' = r\<lparr>ra_slots := AList.update k (fresh_slot now n) m\<rparr>"
    | (full) m where "so = None" "m = ra_slots r \<or> m = AList.delete k (ra_slots r)"
      "length m \<ge> ra_maxConcurrent r" "r' = r\<lparr>ra_slots := m\<rparr>" "map_of m k = None"
proof (cases "map_of (ra_slots r) k")
  case None
  show thesis
  proof (cases "length (ra_slots r) \<ge> ra_maxConcurrent r")
    case True
    with None assms show thesis by (intro full [of "ra_slots r"]) (auto simp: reasm_open_def)
  next
    case False
    with None assms show thesis by (intro fresh [of "ra_slots r"]) (auto simp: reasm_open_def Let_def)
  qed
next
  case (Some s)
  let ?m = "AList.delete k (ra_slots r)"
  show thesis
  proof (cases "sl_fragCnt s \<noteq> n \<or> now - sl_lastSeen s > ra_timeout r")
    case False
    with Some assms show thesis by (intro old [of s]) (auto simp: reasm_open_def)
  next
    case stale: True
    have m: "map_of ?m k = None" by (simp add: store_simps)
    show thesis
    proof (cases "length ?m \<ge> ra_maxConcurrent r")
      case True
      with Some stale m assms show thesis by (intro full [of ?m]) (simp_all add: reasm_open_def Let_def)
    next
      case False
      with Some stale m assms show thesis by (intro fresh [of ?m]) (simp_all add: reasm_open_def Let_def)
    qed
  qed
qed

lemma reasm_open_inv:
  assumes "reasm_inv r" "reasm_open now k n r = (so, r')" "1 \<le> n" "n \<le> 255"
  shows "reasm_inv r'" "ra_maxDatagram r' = ra_maxDatagram r"
    "ra_maxConcurrent r' = ra_maxConcurrent r" "ra_timeout r' = ra_timeout r"
    "\<And>s. so = Some s \<Longrightarrow> map_of (ra_slots r') k = Some s \<and> sl_fragCnt s = n"
proof -
  have m: "reasm_inv (r\<lparr>ra_slots := m\<rparr>)"
    if "m = ra_slots r \<or> m = AList.delete k (ra_slots r)" for m
    using that assms(1) reasm_inv_delete [OF assms(1), of k] by auto
  from assms(2) have "reasm_inv r' \<and> ra_maxDatagram r' = ra_maxDatagram r \<and>
    ra_maxConcurrent r' = ra_maxConcurrent r \<and> ra_timeout r' = ra_timeout r \<and>
    (\<forall>s. so = Some s \<longrightarrow> map_of (ra_slots r') k = Some s \<and> sl_fragCnt s = n)"
  proof (cases rule: reasm_open_cases)
    case (fresh m)
    have "reasm_inv (r\<lparr>ra_slots := m, ra_slots := AList.update k (fresh_slot now n) m\<rparr>)"
      using reasm_inv_update [OF m [OF fresh(2)], of "fresh_slot now n" k] slot_inv_fresh assms(3,4) fresh(4)
      by simp
    with fresh show ?thesis by (simp add: store_simps)
  qed (use assms(1) m in auto)
  then show "reasm_inv r'" "ra_maxDatagram r' = ra_maxDatagram r"
    "ra_maxConcurrent r' = ra_maxConcurrent r" "ra_timeout r' = ra_timeout r"
    "\<And>s. so = Some s \<Longrightarrow> map_of (ra_slots r') k = Some s \<and> sl_fragCnt s = n"
    by blast+
qed

lemma filled_update:
  assumes "i < length fs" "fs ! i = None"
  shows "filled_count (fs[i := Some p]) = Suc (filled_count fs)"
    "filled_bytes (fs[i := Some p]) = filled_bytes fs + length p"
  using assms
  by (induction fs arbitrary: i) (auto simp: filled_count_def filled_bytes_def split: nat.splits)

lemma slot_inv_enter:
  assumes "slot_inv l s" "i < sl_fragCnt s" "sl_frags s ! i = None"
    and "sl_bytes s + length p \<le> l" "sl_count s + 1 < sl_fragCnt s"
  shows "slot_inv l (s\<lparr>sl_frags := (sl_frags s)[i := Some p], sl_count := sl_count s + 1,
    sl_bytes := sl_bytes s + length p, sl_lastSeen := now\<rparr>)"
  using assms by (simp add: slot_inv_def filled_update)

lemma reasm_enter_inv:
  assumes "reasm_inv r" "map_of (ra_slots r) k = Some s" "i < sl_fragCnt s"
    "reasm_enter now k i p s r = (d, r')"
  shows "reasm_inv r' \<and> ra_maxDatagram r' = ra_maxDatagram r \<and>
    ra_maxConcurrent r' = ra_maxConcurrent r \<and> ra_timeout r' = ra_timeout r"
proof -
  have s: "slot_inv (ra_maxDatagram r) s" using assms(1,2) by (auto simp: reasm_inv_alt)
  have upd: "reasm_inv (r\<lparr>ra_slots := AList.update k s' (ra_slots r)\<rparr>)"
    if "slot_inv (ra_maxDatagram r) s'" for s'
    using reasm_inv_update [OF assms(1) that, of k] assms(2) by simp
  show ?thesis
    using assms(4) reasm_inv_delete [OF assms(1), of k] upd slot_inv_enter [OF s assms(3), of p now]
    by (auto simp: reasm_enter_def Let_def split: if_splits)
qed

lemma reasm_add_inv:
  assumes "reasm_inv r" "reasm_add now f m p r = (d, r')"
  shows "reasm_inv r' \<and> ra_maxDatagram r' = ra_maxDatagram r \<and>
    ra_maxConcurrent r' = ra_maxConcurrent r \<and> ra_timeout r' = ra_timeout r"
proof -
  let ?n = "unat (meta_fragCnt m)" and ?i = "unat (meta_fragIdx m)"
  let ?k = "udpReassemblyKey f (meta_fragID m)"
  show ?thesis
  proof (cases "?n < 1 \<or> ?n > 255 \<or> ?i \<ge> ?n")
    case True
    then have "reasm_add now f m p r = (None, r)" unfolding reasm_add_def Let_def by simp
    with assms show ?thesis by simp
  next
    case False
    obtain so r1 where o: "reasm_open now ?k ?n r = (so, r1)" by fastforce
    from False have n: "1 \<le> ?n" "?n \<le> 255" by auto
    note os = reasm_open_inv [OF assms(1) o n]
    show ?thesis
    proof (cases so)
      case None
      with False o assms(2) have "r' = r1" unfolding reasm_add_def Let_def by simp
      with os show ?thesis by simp
    next
      case (Some s)
      with False o assms(2) have e: "reasm_enter now ?k ?i p s r1 = (d, r')"
        unfolding reasm_add_def Let_def by simp
      from reasm_enter_inv [OF os(1) _ _ e] os(5) [OF Some] False os(2-4) show ?thesis by simp
    qed
  qed
qed

lemma reasm_sweep_inv: "reasm_inv r \<Longrightarrow> reasm_inv (reasm_sweep now r)"
  by (simp add: reasm_sweep_def reasm_inv_filter)

lemma reasm_run_inv:
  "reasm_inv r \<Longrightarrow> reasm_inv (snd (reasm_run as r))"
proof (induction as r rule: reasm_run.induct)
  case (2 t m p as r)
  obtain d r' where a: "reasm_add t (meta_flowID m) m p r = (d, r')" by fastforce
  with 2 reasm_add_inv [OF _ a] show ?case by (simp add: split_beta Let_def)
qed simp

lemma buffered_bytes_le:
  assumes "reasm_inv r"
  shows "buffered_bytes r \<le> ra_maxConcurrent r * ra_maxDatagram r"
proof -
  let ?f = "\<lambda>(k, s). filled_bytes (sl_frags s)"
  have "?f ks \<le> ra_maxDatagram r" if "ks \<in> set (ra_slots r)" for ks
    using assms that by (fastforce simp: reasm_inv_def list_all_iff slot_inv_def split: prod.splits)
  then have "buffered_bytes r \<le> sum_list (map (\<lambda>_. ra_maxDatagram r) (ra_slots r))"
    unfolding buffered_bytes_def by (intro sum_list_mono) blast
  also have "\<dots> = length (ra_slots r) * ra_maxDatagram r"
    by (simp add: sum_list_triv)
  also have "\<dots> \<le> ra_maxConcurrent r * ra_maxDatagram r"
    using assms by (intro mult_le_mono1) (simp add: reasm_inv_def)
  finally show ?thesis .
qed


section \<open>Operations on one datagram leave the slots of the others alone\<close>

lemma reasm_open_other:
  assumes "reasm_open now k n r = (so, r')" "k' \<noteq> k"
  shows "map_of (ra_slots r') k' = map_of (ra_slots r) k'"
  using assms(1) by (cases rule: reasm_open_cases) (use assms(2) in \<open>auto simp: store_simps\<close>)

lemma reasm_enter_other:
  assumes "reasm_enter now k i p s r = (d, r')" "k' \<noteq> k"
  shows "map_of (ra_slots r') k' = map_of (ra_slots r) k'"
  using assms by (auto simp: reasm_enter_def Let_def store_simps split: if_splits)

lemma byte_le_255: "unat (b :: byte) \<le> 255"
proof -
  have "unat b < 256" using unsigned_less [of b] by simp
  then show ?thesis by simp
qed

lemma reasm_add_split:
  assumes "reasm_add now f m p r = (d, r')"
  obtains (bad) "d = None" "r' = r"
      "unat (meta_fragCnt m) < 1 \<or> unat (meta_fragIdx m) \<ge> unat (meta_fragCnt m)"
    | (full) "d = None" "reasm_open now (udpReassemblyKey f (meta_fragID m)) (unat (meta_fragCnt m)) r = (None, r')"
    | (entered) s r1 where
      "1 \<le> unat (meta_fragCnt m)" "unat (meta_fragCnt m) \<le> 255" "unat (meta_fragIdx m) < unat (meta_fragCnt m)"
      "reasm_open now (udpReassemblyKey f (meta_fragID m)) (unat (meta_fragCnt m)) r = (Some s, r1)"
      "reasm_enter now (udpReassemblyKey f (meta_fragID m)) (unat (meta_fragIdx m)) p s r1 = (d, r')"
proof -
  let ?n = "unat (meta_fragCnt m)" and ?i = "unat (meta_fragIdx m)"
  let ?k = "udpReassemblyKey f (meta_fragID m)"
  have le: "?n \<le> 255" by (rule byte_le_255)
  obtain so r1 where o: "reasm_open now ?k ?n r = (so, r1)" by fastforce
  show thesis
  proof (cases "?n < 1 \<or> ?i \<ge> ?n")
    case True
    with assms show thesis by (intro bad) (auto simp: reasm_add_def Let_def)
  next
    case ok: False
    show thesis
    proof (cases so)
      case None
      with ok le o assms show thesis by (intro full) (auto simp: reasm_add_def Let_def)
    next
      case (Some s)
      with ok le o assms show thesis by (intro entered [of s r1]) (auto simp: reasm_add_def Let_def)
    qed
  qed
qed

lemma reasm_add_other:
  assumes "reasm_add now f m p r = (d, r')" "k' \<noteq> udpReassemblyKey f (meta_fragID m)"
  shows "map_of (ra_slots r') k' = map_of (ra_slots r) k'"
  using assms(1)
proof (cases rule: reasm_add_split)
  case full
  then show ?thesis using reasm_open_other assms(2) by blast
next
  case (entered s r1)
  then show ?thesis using reasm_open_other reasm_enter_other assms(2) by metis
qed simp


section \<open>A datagram that comes out is made of fragments that came in\<close>

definition received :: "arrival list \<Rightarrow> 64 word \<Rightarrow> nat \<Rightarrow> nat \<Rightarrow> bytes \<Rightarrow> bool" where
  "received as key n i p \<longleftrightarrow>
     (\<exists>t m. (t, m, p) \<in> set as \<and> arrival_key (t, m, p) = key \<and>
            unat (meta_fragCnt m) = n \<and> unat (meta_fragIdx m) = i)"

definition sourced :: "arrival list \<Rightarrow> udpReassembler \<Rightarrow> bool" where
  "sourced as r \<longleftrightarrow>
     (\<forall>key s i p. map_of (ra_slots r) key = Some s \<longrightarrow> i < length (sl_frags s) \<longrightarrow>
        sl_frags s ! i = Some p \<longrightarrow> received as key (sl_fragCnt s) i p)"

lemma received_mono: "received as k n i p \<Longrightarrow> set as \<subseteq> set bs \<Longrightarrow> received bs k n i p"
  by (auto simp: received_def)

lemma sourced_mono: "sourced as r \<Longrightarrow> set as \<subseteq> set bs \<Longrightarrow> sourced bs r"
  unfolding sourced_def by (blast intro: received_mono)

lemma sourced_new: "sourced as newUDPReassembler"
  by (simp add: sourced_def newUDPReassembler_def)

lemma filled_count_le: "filled_count fs \<le> length fs"
  by (simp add: filled_count_def)

lemma filled_count_full:
  "length fs \<le> filled_count fs \<Longrightarrow> i < length fs \<Longrightarrow> fs ! i \<noteq> None"
proof (induction fs arbitrary: i)
  case (Cons f fs)
  have "f \<noteq> None"
  proof
    assume "f = None"
    then have "filled_count (f # fs) = filled_count fs" by (simp add: filled_count_def)
    with Cons.prems(1) filled_count_le [of fs] show False by simp
  qed
  with Cons show ?case by (cases i) (auto simp: filled_count_def)
qed simp

text \<open>What a finished slot yields: the payloads in the order of their indices.\<close>

lemma concat_filled:
  assumes "\<And>i. i < length fs \<Longrightarrow> fs ! i \<noteq> None"
  shows "map (case_option [] id) fs = map the fs"
proof (intro map_cong refl)
  fix f assume "f \<in> set fs"
  with assms show "case_option [] id f = the f" by (force simp: in_set_conv_nth split: option.splits)
qed

lemma filled_bytes_concat: "filled_bytes fs = length (concat (map (case_option [] id) fs))"
  by (simp add: filled_bytes_def length_concat o_def)

definition made_of :: "arrival list \<Rightarrow> 64 word \<Rightarrow> nat \<Rightarrow> bytes \<Rightarrow> bool" where
  "made_of as key n d \<longleftrightarrow>
     (\<exists>ps. length ps = n \<and> d = concat ps \<and> (\<forall>i<n. received as key n i (ps ! i)))"

lemma made_of_mono: "made_of as key n d \<Longrightarrow> set as \<subseteq> set bs \<Longrightarrow> made_of bs key n d"
  unfolding made_of_def by (elim exE conjE, intro exI conjI) (auto elim: received_mono)

lemma sourced_open:
  assumes "sourced as r" "reasm_open now k n r = (so, r')"
  shows "sourced as r'"
  using assms(2)
proof (cases rule: reasm_open_cases)
  case (fresh m)
  with assms(1) show ?thesis
    by (auto simp: sourced_def store_simps)
next
  case (full m)
  with assms(1) show ?thesis by (auto simp: sourced_def store_simps split: if_splits)
qed (use assms(1) in simp)

lemma sourced_delete:
  "sourced as r \<Longrightarrow> sourced as (r\<lparr>ra_slots := AList.delete k (ra_slots r)\<rparr>)"
  by (simp add: sourced_def store_simps)

lemma sourced_enter:
  assumes r: "sourced as r" and inv: "reasm_inv r" and s: "map_of (ra_slots r) k = Some s"
    and i: "i < sl_fragCnt s" and e: "reasm_enter now k i p s r = (d, r')"
    and p: "received as k (sl_fragCnt s) i p"
  shows "sourced as r' \<and> (\<forall>b. d = Some b \<longrightarrow> made_of as k (sl_fragCnt s) b \<and> length b \<le> ra_maxDatagram r)"
proof -
  let ?fs = "(sl_frags s)[i := Some p]"
  have si: "slot_inv (ra_maxDatagram r) s" using inv s by (auto simp: reasm_inv_alt)
  then have len: "length (sl_frags s) = sl_fragCnt s" by (simp add: slot_inv_def)
  have src: "received as k (sl_fragCnt s) j q" if "j < sl_fragCnt s" "?fs ! j = Some q" for j q
    using that r s p len by (cases "j = i") (auto simp: sourced_def)
  show ?thesis
  proof (cases "sl_frags s ! i = None \<and> sl_bytes s + length p \<le> ra_maxDatagram r")
    case False
    with e sourced_delete [OF r] show ?thesis by (auto simp: reasm_enter_def Let_def split: if_splits)
  next
    case new: True
    show ?thesis
    proof (cases "sl_count s + 1 < sl_fragCnt s")
      case True
      have "sourced as r'"
        using e new True r src len
        by (auto simp: reasm_enter_def Let_def sourced_def store_simps split: if_splits)
      with e new True show ?thesis by (simp add: reasm_enter_def Let_def)
    next
      case False
      have "sl_fragCnt s \<le> filled_count ?fs"
        using False si new i len filled_update(1) [of i "sl_frags s" p] by (simp add: slot_inv_def)
      then have all: "?fs ! j \<noteq> None" if "j < sl_fragCnt s" for j
        using filled_count_full [of ?fs j] that len by simp
      have m: "map (case_option [] id) ?fs = map the ?fs"
        using all len by (intro concat_filled) simp
      have b: "d = Some (concat (map the ?fs))" "r' = r\<lparr>ra_slots := AList.delete k (ra_slots r)\<rparr>"
        using e new False m
        by (simp_all del: map_eq_conv add: reasm_enter_def Let_def)
      have "made_of as k (sl_fragCnt s) (concat (map the ?fs))"
        unfolding made_of_def using all src len by (intro exI [of _ "map the ?fs"]) auto
      moreover have "length (concat (map the ?fs)) = sl_bytes s + length p"
        using si new i len filled_update(2) [of i "sl_frags s" p] m
        by (simp del: map_eq_conv add: slot_inv_def filled_bytes_concat)
      ultimately show ?thesis using b new sourced_delete [OF r] by simp
    qed
  qed
qed


lemma sourced_add:
  assumes "sourced hist r" "reasm_inv r" "reasm_add t (meta_flowID m) m p r = (d, r')"
    and "(t, m, p) \<in> set hist"
  shows "sourced hist r' \<and> (\<forall>b. d = Some b \<longrightarrow>
    made_of hist (arrival_key (t, m, p)) (unat (meta_fragCnt m)) b \<and> length b \<le> ra_maxDatagram r)"
  using assms(3)
proof (cases rule: reasm_add_split)
  case full
  then show ?thesis using sourced_open [OF assms(1)] by blast
next
  case (entered s r1)
  let ?k = "udpReassemblyKey (meta_flowID m) (meta_fragID m)"
  note inv = reasm_open_inv [OF assms(2) entered(4) entered(1,2)]
  have s: "map_of (ra_slots r1) ?k = Some s" "sl_fragCnt s = unat (meta_fragCnt m)"
    using inv(5) by auto
  have "received hist ?k (sl_fragCnt s) (unat (meta_fragIdx m)) p"
    using assms(4) s(2) by (auto simp: received_def)
  with sourced_enter [OF sourced_open [OF assms(1) entered(4)] inv(1) s(1) _ entered(5)] entered(3) s(2) inv(2)
  show ?thesis by simp
qed (use assms(1) in simp)

lemma sourced_run:
  assumes "sourced hist r" "reasm_inv r" "set as \<subseteq> set hist"
    and "((t, m, p), Some b) \<in> set (fst (reasm_run as r))"
  shows "made_of hist (arrival_key (t, m, p)) (unat (meta_fragCnt m)) b \<and> length b \<le> ra_maxDatagram r"
  using assms
proof (induction as arbitrary: r)
  case (Cons a as)
  obtain t' m' p' where a: "a = (t', m', p')" by (cases a)
  obtain d r' where step: "reasm_add t' (meta_flowID m') m' p' r = (d, r')" by fastforce
  have "(t', m', p') \<in> set hist" using Cons.prems(3) a by simp
  note src = sourced_add [OF Cons.prems(1,2) step this]
  note inv = reasm_add_inv [OF Cons.prems(2) step]
  from Cons.prems(4) a step
  consider "(t, m, p) = (t', m', p')" "d = Some b" | "((t, m, p), Some b) \<in> set (fst (reasm_run as r'))"
    by (auto simp: Let_def split_beta)
  then show ?case
  proof cases
    case 1
    with src show ?thesis by simp
  next
    case 2
    with Cons.IH [of r'] src inv Cons.prems(3) show ?thesis by simp
  qed
qed simp


section \<open>The fragments of a datagram give it back\<close>

text \<open>
  The slot that holds the fragments \<open>seen\<close> of a datagram cut into the payloads \<open>ps\<close>.
\<close>

definition partial :: "bytes list \<Rightarrow> nat set \<Rightarrow> instant \<Rightarrow> udpReassemblySlot" where
  "partial ps seen t =
     \<lparr>sl_fragCnt = length ps,
      sl_frags = map (\<lambda>i. if i \<in> seen then Some (ps ! i) else None) [0..<length ps],
      sl_count = card seen, sl_bytes = (\<Sum>i\<in>seen. length (ps ! i)), sl_lastSeen = t\<rparr>"

definition fragment_of :: "32 word \<Rightarrow> 16 word \<Rightarrow> bytes list \<Rightarrow> nat \<Rightarrow> arrival \<Rightarrow> bool" where
  "fragment_of f g ps i a \<longleftrightarrow>
     (case a of (t, m, p) \<Rightarrow> meta_flowID m = f \<and> meta_fragID m = g \<and>
        unat (meta_fragCnt m) = length ps \<and> unat (meta_fragIdx m) = i \<and> p = ps ! i)"

fun timely :: "duration \<Rightarrow> instant list \<Rightarrow> bool" where
  "timely d (t # u # ts) \<longleftrightarrow> u - t \<le> d \<and> timely d (u # ts)"
| "timely d ts \<longleftrightarrow> True"

text \<open>
  The arrivals \<open>as\<close> carry each fragment of the datagram once, in some order, none later than
  the timeout after the one before it; between them come any fragments of other datagrams.
\<close>

definition carries :: "32 word \<Rightarrow> 16 word \<Rightarrow> bytes list \<Rightarrow> duration \<Rightarrow> arrival list \<Rightarrow> bool" where
  "carries f g ps d as \<longleftrightarrow>
     (let own = filter (\<lambda>a. arrival_key a = udpReassemblyKey f g) as in
      \<exists>order. distinct order \<and> set order = {..<length ps} \<and>
        list_all2 (fragment_of f g ps) order own \<and> timely d (map fst own))"

definition keys_of :: "arrival list \<Rightarrow> udpReassembler \<Rightarrow> 64 word set" where
  "keys_of as r = set (map arrival_key as) \<union> set (map fst (ra_slots r))"

lemma partial_sel [simp]:
  "sl_fragCnt (partial ps A t) = length ps" "sl_count (partial ps A t) = card A"
  "sl_bytes (partial ps A t) = (\<Sum>i\<in>A. length (ps ! i))" "sl_lastSeen (partial ps A t) = t"
  "i < length ps \<Longrightarrow> sl_frags (partial ps A t) ! i = (if i \<in> A then Some (ps ! i) else None)"
  by (simp_all add: partial_def)

lemma partial_fresh: "fresh_slot t (length ps) = partial ps {} t"
  by (simp add: partial_def fresh_slot_def map_replicate_const)

lemma sum_lengths_le:
  "A \<subseteq> {..<length ps} \<Longrightarrow> (\<Sum>i\<in>A. length (ps ! i)) \<le> length (concat ps)"
proof -
  have "length (concat ps) = (\<Sum>i<length ps. length (ps ! i))"
    by (simp add: length_concat sum_list_sum_nth lessThan_atLeast0)
  then show "A \<subseteq> {..<length ps} \<Longrightarrow> ?thesis" by (simp add: sum_mono2)
qed

lemma enter_partial:
  assumes "A \<subseteq> {..<length ps}" "i < length ps" "i \<notin> A" "length (concat ps) \<le> ra_maxDatagram r"
  shows "reasm_enter now k i (ps ! i) (partial ps A t) r =
     (if insert i A = {..<length ps}
      then (Some (concat ps), r\<lparr>ra_slots := AList.delete k (ra_slots r)\<rparr>)
      else (None, r\<lparr>ra_slots := AList.update k (partial ps (insert i A) now) (ra_slots r)\<rparr>))"
proof -
  have fin: "finite A" using assms(1) finite_subset by blast
  have sub: "insert i A \<subseteq> {..<length ps}" using assms by auto
  have upd: "(sl_frags (partial ps A t))[i := Some (ps ! i)] = sl_frags (partial ps (insert i A) t)"
    using assms by (intro nth_equalityI) (auto simp: partial_def nth_list_update)
  have slot: "partial ps A t \<lparr>sl_frags := (sl_frags (partial ps A t))[i := Some (ps ! i)],
      sl_count := card A + 1, sl_bytes := (\<Sum>i\<in>A. length (ps ! i)) + length (ps ! i),
      sl_lastSeen := now\<rparr> = partial ps (insert i A) now"
    unfolding upd using fin assms(3) by (simp add: partial_def)
  have full: "insert i A = {..<length ps} \<longleftrightarrow> \<not> card (insert i A) < length ps"
    using sub card_subset_eq [OF _ sub] card_mono [OF _ sub] by auto
  have "map (case_option [] id) (sl_frags (partial ps {..<length ps} now)) = ps"
    by (intro nth_equalityI) (simp_all add: partial_def)
  then have cat: "concat (map (case_option [] id) (sl_frags (partial ps {..<length ps} now))) = concat ps"
    by simp
  have le: "(\<Sum>i\<in>insert i A. length (ps ! i)) \<le> ra_maxDatagram r"
    using sum_lengths_le [OF sub] assms(4) by linarith
  show ?thesis
    unfolding reasm_enter_def Let_def using slot full le assms(2,3) cat
    by (cases "insert i A = {..<length ps}") simp_all
qed


text \<open>The slots before and after some of the fragments have come.\<close>

definition holds :: "udpReassembler \<Rightarrow> 64 word \<Rightarrow> bytes list \<Rightarrow> nat set \<Rightarrow> instant \<Rightarrow> bool" where
  "holds r k ps A t \<longleftrightarrow>
     map_of (ra_slots r) k = (if A = {} then None else Some (partial ps A t))"

lemma open_partial:
  assumes r: "reasm_inv r" "holds r k ps A t" and t: "A \<noteq> {} \<Longrightarrow> now - t \<le> ra_timeout r"
    and room: "insert k (set (map fst (ra_slots r))) \<subseteq> K" "finite K" "card K \<le> ra_maxConcurrent r"
  obtains r' t' where "reasm_open now k (length ps) r = (Some (partial ps A t'), r')"
    "set (map fst (ra_slots r')) \<subseteq> K"
proof (cases "A = {}")
  case True
  with r have none: "map_of (ra_slots r) k = None" by (simp add: holds_def)
  then have "k \<notin> set (map fst (ra_slots r))" by (simp add: map_of_eq_None_iff)
  moreover have "distinct_keys (ra_slots r)" using r by (simp add: reasm_inv_def)
  ultimately have "length (ra_slots r) + 1 = card (insert k (set (map fst (ra_slots r))))"
    by (metis List.finite_set card_insert_disjoint distinct_card length_map Suc_eq_plus1)
  also have "\<dots> \<le> ra_maxConcurrent r" using card_mono [OF room(2,1)] room(3) by linarith
  finally have "length (ra_slots r) < ra_maxConcurrent r" by simp
  with none True room(1) show thesis
    by (intro that [of now "r\<lparr>ra_slots := AList.update k (fresh_slot now (length ps)) (ra_slots r)\<rparr>"])
      (auto simp: reasm_open_def Let_def partial_fresh dom_update)
next
  case False
  with r t room(1) show thesis
    by (intro that [of t r]) (auto simp: reasm_open_def holds_def)
qed

lemma keys_after_add:
  assumes "reasm_add now f m p r = (d, r')"
  shows "set (map fst (ra_slots r')) \<subseteq> insert (udpReassemblyKey f (meta_fragID m)) (set (map fst (ra_slots r)))"
proof -
  have "map_of (ra_slots r') k \<noteq> None \<Longrightarrow>
      k = udpReassemblyKey f (meta_fragID m) \<or> map_of (ra_slots r) k \<noteq> None" for k
    using reasm_add_other [OF assms, of k] by (cases "k = udpReassemblyKey f (meta_fragID m)") auto
  moreover have "set (map fst xs) = dom (map_of xs)" for xs :: "(64 word \<times> udpReassemblySlot) list"
    by (simp add: dom_map_of_conv_image_fst)
  ultimately show ?thesis by blast
qed

lemma own_step:
  assumes r: "reasm_inv r" "holds r (udpReassemblyKey f g) ps A t"
    and a: "fragment_of f g ps i (now, m, p)" "A \<subseteq> {..<length ps}" "i < length ps" "i \<notin> A"
    and t: "A \<noteq> {} \<Longrightarrow> now - t \<le> ra_timeout r"
    and len: "length ps \<le> 255" "length (concat ps) \<le> ra_maxDatagram r"
    and room: "insert (udpReassemblyKey f g) (set (map fst (ra_slots r))) \<subseteq> K" "finite K"
      "card K \<le> ra_maxConcurrent r"
    and step: "reasm_add now f m p r = (d, r')"
  shows "if insert i A = {..<length ps} then d = Some (concat ps) \<and> map_of (ra_slots r') (udpReassemblyKey f g) = None
    else d = None \<and> holds r' (udpReassemblyKey f g) ps (insert i A) now"
proof -
  let ?k = "udpReassemblyKey f g"
  obtain r1 t' where o: "reasm_open now ?k (length ps) r = (Some (partial ps A t'), r1)"
    using open_partial [OF r t room] by blast
  have n: "1 \<le> length ps" using a(3) by simp
  have m: "meta_fragID m = g" "unat (meta_fragCnt m) = length ps" "unat (meta_fragIdx m) = i" "p = ps ! i"
    using a(1) by (simp_all add: fragment_of_def)
  have "ra_maxDatagram r1 = ra_maxDatagram r" using reasm_open_inv [OF r(1) o n len(1)] by simp
  with len(2) have lim: "length (concat ps) \<le> ra_maxDatagram r1" by simp
  have "\<not> (unat (meta_fragCnt m) < 1 \<or> unat (meta_fragCnt m) > 255 \<or>
      unat (meta_fragIdx m) \<ge> unat (meta_fragCnt m))"
    using m n len(1) a(3) by auto
  then have "reasm_add now f m p r = reasm_enter now ?k i (ps ! i) (partial ps A t') r1"
    unfolding reasm_add_def Let_def using o by (simp only: m if_False prod.case option.case)
  with step have "(d, r') = reasm_enter now ?k i (ps ! i) (partial ps A t') r1" by simp
  then show ?thesis
    unfolding enter_partial [OF a(2-4) lim] by (auto simp: holds_def store_simps split: if_splits)
qed


lemma outputs_Nil [simp]: "outputs_for k [] r = []"
  by (simp add: outputs_for_def)

lemma outputs_Cons:
  assumes "reasm_add t (meta_flowID m) m p r = (d, r')"
  shows "outputs_for k ((t, m, p) # as) r =
      (if arrival_key (t, m, p) = k then d # outputs_for k as r' else outputs_for k as r')"
    "snd (reasm_run ((t, m, p) # as) r) = snd (reasm_run as r')"
  using assms by (simp_all add: outputs_for_def split_beta Let_def)

lemma run_other:
  assumes "filter (\<lambda>a. arrival_key a = k) as = []"
  shows "outputs_for k as r = [] \<and> map_of (ra_slots (snd (reasm_run as r))) k = map_of (ra_slots r) k"
  using assms
proof (induction as arbitrary: r)
  case (Cons a as)
  obtain t m p where a: "a = (t, m, p)" by (cases a)
  obtain d r' where step: "reasm_add t (meta_flowID m) m p r = (d, r')" by fastforce
  from Cons.prems a have k: "k \<noteq> udpReassemblyKey (meta_flowID m) (meta_fragID m)"
    by (auto split: if_splits)
  with reasm_add_other [OF step k] Cons.IH [of r'] Cons.prems show ?case
    unfolding a outputs_Cons [OF step] by (auto simp: a split: if_splits)
qed simp

lemma run_carries:
  fixes f g defines "k \<equiv> udpReassemblyKey f g"
  assumes "reasm_inv r" "holds r k ps A t" "A \<subset> {..<length ps}"
    and "length ps \<le> 255" "length (concat ps) \<le> ra_maxDatagram r"
    and "set (map arrival_key as) \<union> set (map fst (ra_slots r)) \<subseteq> K" "finite K" "card K \<le> ra_maxConcurrent r"
    and "distinct order" "set order = {..<length ps} - A"
    and "list_all2 (fragment_of f g ps) order (filter (\<lambda>a. arrival_key a = k) as)"
    and "timely (ra_timeout r) ((if A = {} then [] else [t]) @ map fst (filter (\<lambda>a. arrival_key a = k) as))"
  shows "outputs_for k as r = replicate (length order - 1) None @ [Some (concat ps)] \<and>
    map_of (ra_slots (snd (reasm_run as r))) k = None"
  using assms(2-)
proof (induction as arbitrary: r A t order)
  case Nil
  then have "order = []" by simp
  with Nil.prems(3,10) have False by auto
  then show ?case ..
next
  case (Cons a as)
  obtain now m p where a: "a = (now, m, p)" by (cases a)
  let ?km = "udpReassemblyKey (meta_flowID m) (meta_fragID m)"
  obtain d r' where step: "reasm_add now (meta_flowID m) m p r = (d, r')" by fastforce
  note inv = reasm_add_inv [OF Cons.prems(1) step]
  have keys: "set (map arrival_key as) \<union> set (map fst (ra_slots r')) \<subseteq> K"
  proof -
    have "set (map fst (ra_slots r')) \<subseteq> K"
      using Cons.prems(6) a by (intro order_trans [OF keys_after_add [OF step]]) auto
    then show ?thesis using Cons.prems(6) by auto
  qed
  show ?case
  proof (cases "?km = k")
    case False
    then have "holds r' k ps A t"
      using reasm_add_other [OF step, of k] Cons.prems(2) by (simp add: holds_def)
    with Cons.IH [of r' A t order] Cons.prems(3-) inv keys False a
    show ?thesis unfolding a outputs_Cons [OF step] by simp
  next
    case True
    then have own: "filter (\<lambda>a. arrival_key a = k) (a # as) = a # filter (\<lambda>a. arrival_key a = k) as"
      by (simp add: a)
    from Cons.prems(11) own obtain i order' where
      order: "order = i # order'" "fragment_of f g ps i a"
        "list_all2 (fragment_of f g ps) order' (filter (\<lambda>a. arrival_key a = k) as)"
      by (auto simp: list_all2_Cons2)
    have i: "i < length ps" "i \<notin> A" "set order' = {..<length ps} - insert i A" "distinct order'"
      using Cons.prems(9,10) order(1) by auto
    have f: "meta_flowID m = f" using order(2) a by (simp add: fragment_of_def)
    have t: "now - t \<le> ra_timeout r" if "A \<noteq> {}" using Cons.prems(12) that own a by simp
    have "insert k (set (map fst (ra_slots r))) \<subseteq> K" using Cons.prems(6) True a by auto
    note st = own_step [OF Cons.prems(1) Cons.prems(2) [unfolded k_def] order(2) [unfolded a] _ i(1,2) t
        Cons.prems(4,5) this [unfolded k_def] Cons.prems(7,8) step [unfolded f], folded k_def]
    show ?thesis
    proof (cases "insert i A = {..<length ps}")
      case all: True
      then have "order' = []" using i(3) by simp
      with order(3) have none: "filter (\<lambda>a. arrival_key a = k) as = []" by simp
      from st all Cons.prems(3) run_other [OF none, of r'] \<open>order' = []\<close> order(1) True
      show ?thesis unfolding a outputs_Cons [OF step] by auto
    next
      case more: False
      have ps: "insert i A \<subset> {..<length ps}" using more Cons.prems(3) i(1) by auto
      have "order' \<noteq> []" using i(3) ps by auto
      have "timely (ra_timeout r') ((if insert i A = {} then [] else [now]) @
          map fst (filter (\<lambda>a. arrival_key a = k) as))"
        using Cons.prems(12) inv own a by (cases "A = {}") simp_all
      with Cons.IH [OF _ _ ps Cons.prems(4) _ keys Cons.prems(7) _ i(4,3) order(3), of now] st more inv
        Cons.prems(3,5,8)
      have "outputs_for k as r' = replicate (length order' - 1) None @ [Some (concat ps)] \<and>
          map_of (ra_slots (snd (reasm_run as r'))) k = None" "d = None" by auto
      with \<open>order' \<noteq> []\<close> order(1) True show ?thesis unfolding a outputs_Cons [OF step]
        by (cases order') simp_all
    qed
  qed
qed


lemma reassembly_completes:
  assumes "reasm_inv r" "map_of (ra_slots r) (udpReassemblyKey f g) = None"
    and "carries f g ps (ra_timeout r) as"
    and "ps \<noteq> []" "length ps \<le> 255" "length (concat ps) \<le> ra_maxDatagram r"
    and "card (keys_of as r) \<le> ra_maxConcurrent r"
  shows "outputs_for (udpReassemblyKey f g) as r = replicate (length ps - 1) None @ [Some (concat ps)] \<and>
    map_of (ra_slots (snd (reasm_run as r))) (udpReassemblyKey f g) = None"
proof -
  let ?k = "udpReassemblyKey f g"
  from assms(3) obtain order where order: "distinct order" "set order = {..<length ps}"
      "list_all2 (fragment_of f g ps) order (filter (\<lambda>a. arrival_key a = ?k) as)"
      "timely (ra_timeout r) (map fst (filter (\<lambda>a. arrival_key a = ?k) as))"
    by (auto simp: carries_def Let_def)
  have len: "length order = length ps" using distinct_card [OF order(1)] order(2) by simp
  from run_carries [of r f g ps "{}" 0 as "keys_of as r" order] order assms len
  show ?thesis
    by (auto simp: holds_def keys_of_def lessThan_empty_iff)
qed


section \<open>Properties\<close>

inductive reasm_reach :: "udpReassembler \<Rightarrow> bool" where
  new: "reasm_reach newUDPReassembler"
| add: "reasm_reach r \<Longrightarrow> reasm_add now f m p r = (d, r') \<Longrightarrow> reasm_reach r'"
| sweep: "reasm_reach r \<Longrightarrow> reasm_reach (reasm_sweep now r)"

lemma reasm_reach_inv:
  "reasm_reach r \<Longrightarrow> reasm_inv r \<and> ra_maxConcurrent r = 16 \<and> ra_maxDatagram r = 65507"
proof (induction rule: reasm_reach.induct)
  case new
  then show ?case
    by (simp add: reasm_inv_new) (simp add: newUDPReassembler_def udpMaxReassembliesPerFlow_def udpMaxDatagramSize_def)
next
  case (add r now f m p d r')
  then show ?case using reasm_add_inv by metis
next
  case (sweep r now)
  then show ?case using reasm_sweep_inv by (simp add: reasm_sweep_def)
qed

text \<open>
  C34. Memory bound: in every state that a client's reassembler reaches by fragments and
  sweeps, in any order, it holds at most 16 datagrams under distinct keys, no finished slot is
  left in it, and the payload it buffers is at most 16 times the largest UDP datagram.
\<close>

theorem reassembler_bounded:
  assumes "reasm_reach r"
  shows "reasm_inv r \<and> length (ra_slots r) \<le> 16 \<and> buffered_bytes r \<le> 16 * udpMaxDatagramSize"
proof -
  have r: "reasm_inv r" "ra_maxConcurrent r = 16" "ra_maxDatagram r = 65507"
    using reasm_reach_inv [OF assms] by blast+
  moreover have "length (ra_slots r) \<le> 16" using r(1,2) by (simp add: reasm_inv_def)
  moreover have "buffered_bytes r \<le> 16 * 65507" using buffered_bytes_le [OF r(1)] r(2,3) by simp
  ultimately show ?thesis by (simp add: udpMaxDatagramSize_def)
qed

theorem reassembler_bounded_witness:
  "length (ra_slots newUDPReassembler) \<le> 16"
  using reassembler_bounded [OF reasm_reach.new] by blast

text \<open>
  C2. Reassembly is complete: the fragments of a datagram, each once, in any order, with any
  fragments of other datagrams between them, give back exactly that datagram with the last of
  them and nothing before, and its slot is released; as long as no fragment comes later than
  the timeout after the one before it and the datagrams under way fit the slot table.
\<close>

theorem reassembly_complete:
  assumes "reasm_inv r" "map_of (ra_slots r) (udpReassemblyKey f g) = None"
    and "carries f g ps (ra_timeout r) as"
    and "ps \<noteq> []" "length ps \<le> 255" "length (concat ps) \<le> ra_maxDatagram r"
    and "card (keys_of as r) \<le> ra_maxConcurrent r"
  shows "outputs_for (udpReassemblyKey f g) as r = replicate (length ps - 1) None @ [Some (concat ps)] \<and>
    map_of (ra_slots (snd (reasm_run as r))) (udpReassemblyKey f g) = None"
  using assms by (rule reassembly_completes)


definition frag_meta :: "32 word \<Rightarrow> 16 word \<Rightarrow> byte \<Rightarrow> byte \<Rightarrow> udpFrameMeta" where
  "frag_meta f g i n =
     \<lparr>meta_flowID = f, meta_flags = udpFrameFlagFragment, meta_fragID = g, meta_fragIdx = i, meta_fragCnt = n\<rparr>"

abbreviation sample_arrivals :: "arrival list" where
  "sample_arrivals \<equiv>
     [(0, frag_meta 7 3 1 2, [0x62]), (5, frag_meta 8 3 0 2, [0x7a]), (9, frag_meta 7 3 0 2, [0x61])]"

lemma replicate_2: "replicate 2 x = [x, x]"
  by (simp add: numeral_2_eq_2)

lemma sample_keys:
  "udpReassemblyKey 7 3 = 458755" "udpReassemblyKey 8 3 = 524291"
  by (simp_all add: udpReassemblyKey_def push_bit_eq_mult)

lemma sample_carries: "carries 7 3 [[0x61], [0x62]] (300 * 1000000) sample_arrivals"
proof -
  have own: "filter (\<lambda>a. arrival_key a = udpReassemblyKey 7 3) sample_arrivals =
      [(0, frag_meta 7 3 1 2, [0x62]), (9, frag_meta 7 3 0 2, [0x61])]"
    by (simp add: frag_meta_def sample_keys)
  have "set [Suc 0, 0] = {..<length [[0x61], [0x62 :: byte]]}" by (simp add: lessThan_Suc insert_commute)
  moreover have "list_all2 (fragment_of 7 3 [[0x61], [0x62]]) [Suc 0, 0]
      [(0, frag_meta 7 3 1 2, [0x62]), (9, frag_meta 7 3 0 2, [0x61])]"
    by (simp add: fragment_of_def frag_meta_def)
  ultimately show ?thesis
    unfolding carries_def Let_def own by (intro exI [of _ "[Suc 0, 0]"] conjI) simp_all
qed

theorem reassembly_complete_witness:
  "outputs_for (udpReassemblyKey 7 3) sample_arrivals newUDPReassembler = [None, Some [0x61, 0x62]]"
proof -
  have "keys_of sample_arrivals newUDPReassembler = {458755, 524291}"
    by (auto simp: keys_of_def newUDPReassembler_def frag_meta_def sample_keys)
  then have room: "card (keys_of sample_arrivals newUDPReassembler) \<le> ra_maxConcurrent newUDPReassembler"
    by (simp add: newUDPReassembler_def udpMaxReassembliesPerFlow_def)
  show ?thesis
    using reassembly_complete [OF reasm_inv_new _ _ _ _ _ room, of 7 3 "[[0x61], [0x62]]"] sample_carries
    by (simp add: newUDPReassembler_def udpReassemblyTimeout_def millisecond_def udpMaxDatagramSize_def)
qed

text \<open>
  C15. Provenance: whatever fragments a fresh reassembler receives, a datagram that it returns
  is the concatenation of payloads that were all received for that flow and fragment number
  with the same fragment count, one for each index and in the order of the indices, and it is
  no longer than the largest UDP datagram: no bytes of another flow or datagram are mixed in.
\<close>

theorem reassembly_provenance:
  assumes "((t, m, p), Some d) \<in> set (fst (reasm_run as newUDPReassembler))"
  shows "made_of as (udpReassemblyKey (meta_flowID m) (meta_fragID m)) (unat (meta_fragCnt m)) d \<and>
    length d \<le> udpMaxDatagramSize"
  using sourced_run [OF sourced_new reasm_inv_new order.refl assms]
  by (simp add: newUDPReassembler_def)

theorem reassembly_provenance_witness:
  "made_of sample_arrivals (udpReassemblyKey 7 3) 2 [0x61, 0x62]"
proof -
  have "((9, frag_meta 7 3 0 2, [0x61]), Some [0x61, 0x62]) \<in>
      set (fst (reasm_run sample_arrivals newUDPReassembler))"
    by (simp add: reasm_add_def Let_def reasm_open_def reasm_enter_def newUDPReassembler_def frag_meta_def
        sample_keys fresh_slot_def replicate_2 udpMaxReassembliesPerFlow_def udpMaxDatagramSize_def
        udpReassemblyTimeout_def millisecond_def)
  from reassembly_provenance [OF this] show ?thesis by (simp add: frag_meta_def)
qed

text \<open>
  A fragment affects no other datagram: whatever \<open>add\<close> does with a fragment (enter it,
  drop it, drop its slot), the slot of every other flow and fragment number stays as it was.
\<close>

theorem reasm_add_isolated:
  assumes "reasm_add now f m p r = (d, r')" "(f', g') \<noteq> (f, meta_fragID m)"
  shows "map_of (ra_slots r') (udpReassemblyKey f' g') = map_of (ra_slots r) (udpReassemblyKey f' g')"
  using assms by (auto intro!: reasm_add_other simp: udpReassemblyKey_inj)

theorem reasm_add_isolated_witness:
  "map_of (ra_slots (snd (reasm_add 0 7 (frag_meta 7 3 0 2) [] newUDPReassembler))) (udpReassemblyKey 7 4) = None"
  using reasm_add_isolated [OF surjective_pairing, of 7 4 7 "frag_meta 7 3 0 2" 0 "[]" newUDPReassembler]
  by (simp add: frag_meta_def) (simp add: newUDPReassembler_def)

text \<open>
  The limit of open datagrams counts the ones that timed out: once the table holds its
  limit of slots, the first fragment of any other datagram is dropped whatever the time, even
  when every slot of the table has timed out and the next sweep would free all of them.
\<close>

theorem reasm_full_until_sweep:
  assumes "length (ra_slots r) = ra_maxConcurrent r" "map_of (ra_slots r) (udpReassemblyKey f (meta_fragID m)) = None"
    and "\<And>k s. (k, s) \<in> set (ra_slots r) \<Longrightarrow> now - sl_lastSeen s > ra_timeout r"
  shows "reasm_add now f m p r = (None, r) \<and> ra_slots (reasm_sweep now r) = []"
proof
  show "reasm_add now f m p r = (None, r)"
    using assms(1,2) by (simp add: reasm_add_def Let_def reasm_open_def)
  show "ra_slots (reasm_sweep now r) = []"
    using assms(3) by (fastforce simp: reasm_sweep_def filter_empty_conv)
qed

abbreviation stuck_reassembler :: udpReassembler where
  "stuck_reassembler \<equiv> newUDPReassembler
     \<lparr>ra_slots := map (\<lambda>i. (word_of_nat i, fresh_slot 0 2)) [0..<16]\<rparr>"

theorem reasm_full_until_sweep_witness:
  "reasm_add second 7 (frag_meta 7 3 0 2) [] stuck_reassembler = (None, stuck_reassembler)"
proof -
  have "length (ra_slots stuck_reassembler) = ra_maxConcurrent stuck_reassembler"
    by (simp add: newUDPReassembler_def udpMaxReassembliesPerFlow_def)
  moreover have "map_of (ra_slots stuck_reassembler) (udpReassemblyKey 7 (meta_fragID (frag_meta 7 3 0 2))) = None"
    by (simp add: frag_meta_def sample_keys upt_rec)
  moreover have "second - sl_lastSeen s > ra_timeout stuck_reassembler"
    if "(k, s) \<in> set (ra_slots stuck_reassembler)" for k s
    using that by (auto simp: newUDPReassembler_def udpReassemblyTimeout_def duration_defs)
  ultimately show ?thesis by (rule reasm_full_until_sweep [THEN conjunct1])
qed

end
