(* ===== verification/Udp_Proxy.thy ===== *)
theory Udp_Proxy
  imports Udp_Reassembly
begin

text \<open>
  The UDP proxy of the client (\<open>udpProxy\<close> and \<open>udpClientFlow\<close> in \<open>base_tunnel/udp_proxy.go\<close>,
  with the datagram mode of \<open>base_tunnel/udp_datagram.go\<close>): choice of the data channel,
  writing a datagram in frames or fragments, reading frames into datagrams, the flow table with
  its objects, idle sweep, keepalives and shutdown. A data channel is its log of successful
  writes with the number of writes it will take before the connection breaks, so that a write
  can fail between any two fragments. Times are arguments of the steps that read the clock.
\<close>

section \<open>State\<close>

record datachan =
  dc_sent :: "bytes list"
  dc_limit :: "nat option"
  dc_closed :: bool

record udpClientFlow =
  fl_flowID :: "32 word"
  fl_lastSeen :: instant
  fl_keepalives :: nat
  fl_removed :: bool
  fl_open :: bool
  fl_uplink :: "bytes list"

text \<open>
  \<open>px_chs\<close> are the channel objects: \<open>px_nchs\<close> is \<open>len(p.chs)\<close>, and \<open>p.ch\<close> is object 0.
  \<open>px_flows\<close> is the \<open>sync.Map\<close> from flow numbers to flow objects, which live in \<open>px_heap\<close>.
\<close>

record udpProxy =
  px_chs :: "datachan list"
  px_nchs :: nat
  px_idleTimeout :: duration
  px_datagram :: "datachan option"
  px_port :: int
  px_maxPacketSize :: int
  px_fragEnabled :: bool
  px_fragPayloadMax :: int
  px_nextFragID :: "32 word"
  px_reasm :: udpReassembler
  px_closeOnce :: bool
  px_flows :: "(32 word \<times> nat) list"
  px_heap :: "udpClientFlow list"

definition udpFlowIdleTimeout :: duration where "udpFlowIdleTimeout = 330 * second"
definition udpFlowKeepaliveIdle :: duration where "udpFlowKeepaliveIdle = 90 * second"
definition udpFlowKeepaliveMax :: nat where "udpFlowKeepaliveMax = 30"
definition udpDatagramPortHeaderLen :: nat where "udpDatagramPortHeaderLen = 2"
definition udpDatagramFramePayloadMax :: nat where "udpDatagramFramePayloadMax = 1136"


section \<open>Choice of the channel, limits\<close>

definition udpShardIndex :: "32 word \<Rightarrow> int \<Rightarrow> nat" where
  "udpShardIndex flowID n = (if n \<le> 1 then 0 else unat (flowID mod word_of_int n))"

definition effectiveMaxPacketSize :: "udpProxy \<Rightarrow> int" where
  "effectiveMaxPacketSize p = (if px_maxPacketSize p > 0 then px_maxPacketSize p else int udpMaxPacketSize)"

definition udpEffectiveFlowIdleTimeout :: "int \<Rightarrow> duration" where
  "udpEffectiveFlowIdleTimeout seconds = (if seconds > 0 then to_int 64 (seconds * second) else udpFlowIdleTimeout)"

definition channelFor :: "32 word \<Rightarrow> udpProxy \<Rightarrow> nat" where
  "channelFor flowID p = (if px_nchs p = 0 then 0 else udpShardIndex flowID (int (px_nchs p)))"

definition getReadBuf :: "udpProxy \<Rightarrow> int" where
  "getReadBuf p = (if px_fragEnabled p then int udpMaxDatagramSize + 1 else effectiveMaxPacketSize p + 1)"


section \<open>Writing\<close>

definition dc_write :: "bytes \<Rightarrow> datachan \<Rightarrow> bool \<times> datachan" where
  "dc_write b c =
     (if dc_closed c \<or> (case dc_limit c of None \<Rightarrow> False | Some n \<Rightarrow> n \<le> length (dc_sent c))
      then (False, c)
      else (True, c\<lparr>dc_sent := dc_sent c @ [b]\<rparr>))"

definition chan_write :: "32 word \<Rightarrow> bytes \<Rightarrow> udpProxy \<Rightarrow> bool \<times> udpProxy" where
  "chan_write flowID frame p =
     (let i = channelFor flowID p; (ok, c) = dc_write frame (px_chs p ! i)
      in (ok, p\<lparr>px_chs := (px_chs p)[i := c]\<rparr>))"

definition writeFrame :: "32 word \<Rightarrow> bytes \<Rightarrow> udpProxy \<Rightarrow> bool \<times> udpProxy" where
  "writeFrame flowID payload p = chan_write flowID (encodeUDPFrame flowID payload) p"

definition sendDatagramFrame :: "udpFrameMeta \<Rightarrow> bytes \<Rightarrow> udpProxy \<Rightarrow> bool \<times> udpProxy" where
  "sendDatagramFrame meta payload p =
     (case px_datagram p of
        None \<Rightarrow> (False, p)
      | Some dc \<Rightarrow>
          let frame = encodeUDPFrameV2 meta payload;
              (ok, dc) = dc_write (be16 (word_of_int (px_port p)) @ frame) dc
          in (ok, p\<lparr>px_datagram := Some dc\<rparr>))"

definition writeFrameV2 :: "udpFrameMeta \<Rightarrow> bytes \<Rightarrow> udpProxy \<Rightarrow> bool \<times> udpProxy" where
  "writeFrameV2 meta payload p =
     (if px_datagram p \<noteq> None then sendDatagramFrame meta payload p
      else chan_write (meta_flowID meta) (encodeUDPFrameV2 meta payload) p)"

text \<open>Fragment \<open>i\<close> of a datagram, and the loop over the fragments that stops when a write fails.\<close>

definition fragment_meta :: "32 word \<Rightarrow> 16 word \<Rightarrow> nat \<Rightarrow> nat \<Rightarrow> udpFrameMeta" where
  "fragment_meta flowID fragID i fragCnt =
     \<lparr>meta_flowID = flowID, meta_flags = udpFrameFlagFragment, meta_fragID = fragID,
      meta_fragIdx = of_nat i, meta_fragCnt = of_nat fragCnt\<rparr>"

definition fragment_payload :: "nat \<Rightarrow> bytes \<Rightarrow> nat \<Rightarrow> bytes" where
  "fragment_payload m payload i =
     (let start = i * m; end = start + m;
          end = (if end > length payload then length payload else end)
      in slice_of payload start end)"

fun write_fragments ::
  "32 word \<Rightarrow> 16 word \<Rightarrow> nat \<Rightarrow> bytes \<Rightarrow> nat list \<Rightarrow> udpProxy \<Rightarrow> bool \<times> udpProxy" where
  "write_fragments flowID fragID fragCnt payload [] p = (True, p)"
| "write_fragments flowID fragID fragCnt payload (i # is) p =
     (let (ok, p) = writeFrameV2 (fragment_meta flowID fragID i fragCnt)
                      (fragment_payload (nat (px_fragPayloadMax p)) payload i) p
      in if \<not> ok then (False, p) else write_fragments flowID fragID fragCnt payload is p)"

definition whole_meta :: "32 word \<Rightarrow> udpFrameMeta" where
  "whole_meta flowID =
     \<lparr>meta_flowID = flowID, meta_flags = 0, meta_fragID = 0, meta_fragIdx = 0, meta_fragCnt = 1\<rparr>"

definition writeDatagram :: "32 word \<Rightarrow> bytes \<Rightarrow> udpProxy \<Rightarrow> bool \<times> udpProxy" where
  "writeDatagram flowID payload p =
     (if \<not> px_fragEnabled p
      then if int (length payload) > effectiveMaxPacketSize p then (True, p)
           else writeFrame flowID payload p
      else if length payload > udpMaxDatagramSize \<or> px_fragPayloadMax p \<le> 0 then (True, p)
      else if int (length payload) \<le> px_fragPayloadMax p then writeFrameV2 (whole_meta flowID) payload p
      else let m = px_fragPayloadMax p;
               fragCnt = nat ((int (length payload) + m - 1) div m)
           in if fragCnt > 255 then (True, p)
              else let next = px_nextFragID p + 1; fragID = ucast next
                   in write_fragments flowID fragID fragCnt payload [0..<fragCnt] (p\<lparr>px_nextFragID := next\<rparr>))"


section \<open>What a write leaves in the logs\<close>

text \<open>The frames of a datagram, as the wire should show them.\<close>

definition fragment_count :: "nat \<Rightarrow> bytes \<Rightarrow> nat" where
  "fragment_count m payload = (length payload + m - 1) div m"

definition datagram_frames :: "nat \<Rightarrow> 32 word \<Rightarrow> 16 word \<Rightarrow> bytes \<Rightarrow> (udpFrameMeta \<times> bytes) list" where
  "datagram_frames m flowID fragID payload =
     (if length payload \<le> m then [(whole_meta flowID, payload)]
      else map (\<lambda>i. (fragment_meta flowID fragID i (fragment_count m payload), fragment_payload m payload i))
             [0..<fragment_count m payload])"

definition log_append :: "32 word \<Rightarrow> bytes list \<Rightarrow> udpProxy \<Rightarrow> udpProxy" where
  "log_append f bs p =
     (case px_datagram p of
        Some dc \<Rightarrow> p\<lparr>px_datagram := Some (dc\<lparr>dc_sent := dc_sent dc @ map ((@) (be16 (word_of_int (px_port p)))) bs\<rparr>)\<rparr>
      | None \<Rightarrow> p\<lparr>px_chs := (px_chs p)[channelFor f p := (px_chs p ! channelFor f p)
                   \<lparr>dc_sent := dc_sent (px_chs p ! channelFor f p) @ bs\<rparr>]\<rparr>)"

fun write_frames :: "(udpFrameMeta \<times> bytes) list \<Rightarrow> udpProxy \<Rightarrow> bool \<times> udpProxy" where
  "write_frames [] p = (True, p)"
| "write_frames ((m, b) # fs) p =
     (let (ok, p) = writeFrameV2 m b p in if \<not> ok then (False, p) else write_frames fs p)"

lemma log_append_Nil [simp]: "log_append f [] p = p"
  by (cases "px_datagram p") (simp_all add: log_append_def)

lemma log_append_sel [simp]:
  "channelFor g (log_append f bs p) = channelFor g p" "px_fragPayloadMax (log_append f bs p) = px_fragPayloadMax p"
  "px_nextFragID (log_append f bs p) = px_nextFragID p" "px_fragEnabled (log_append f bs p) = px_fragEnabled p"
  "px_flows (log_append f bs p) = px_flows p" "px_heap (log_append f bs p) = px_heap p"
  "px_reasm (log_append f bs p) = px_reasm p" "px_port (log_append f bs p) = px_port p"
  "length (px_chs (log_append f bs p)) = length (px_chs p)" "px_nchs (log_append f bs p) = px_nchs p"
  "px_datagram (log_append f bs p) = None \<longleftrightarrow> px_datagram p = None"
  "px_maxPacketSize (log_append f bs p) = px_maxPacketSize p"
  by (simp_all add: log_append_def channelFor_def split: option.splits)

lemma channelFor_update [simp]:
  "channelFor f (p\<lparr>px_chs := cs\<rparr>) = channelFor f p" "channelFor f (p\<lparr>px_datagram := d\<rparr>) = channelFor f p"
  "channelFor f (p\<lparr>px_nextFragID := w\<rparr>) = channelFor f p"
  by (simp_all add: channelFor_def)

lemma log_append_twice: "log_append f cs (log_append f bs p) = log_append f (bs @ cs) p"
proof (cases "px_datagram p")
  case None
  then show ?thesis
    by (cases "channelFor f p < length (px_chs p)") (simp_all add: log_append_def list_update_beyond)
qed (simp add: log_append_def)

text \<open>A channel that is not the flow's keeps its log.\<close>

lemma log_append_other: "j \<noteq> channelFor f p \<Longrightarrow> px_chs (log_append f bs p) ! j = px_chs p ! j"
  by (simp add: log_append_def split: option.splits)

lemma chan_write_log:
  "chan_write f b p = (ok, p') \<Longrightarrow> px_datagram p = None \<Longrightarrow> p' = log_append f (if ok then [b] else []) p"
  by (auto simp: chan_write_def dc_write_def log_append_def Let_def split: if_splits option.splits)

lemma writeFrameV2_log:
  "writeFrameV2 m b p = (ok, p') \<Longrightarrow> p' = log_append (meta_flowID m) (if ok then [encodeUDPFrameV2 m b] else []) p"
  by (auto simp: writeFrameV2_def sendDatagramFrame_def dc_write_def log_append_def Let_def
      dest: chan_write_log split: if_splits option.splits)

lemma write_frames_log:
  assumes "write_frames fs p = (ok, p')" "\<forall>(m, b) \<in> set fs. meta_flowID m = f"
  shows "\<exists>k\<le>length fs. (ok \<longleftrightarrow> k = length fs) \<and> p' = log_append f (map enc_v2 (take k fs)) p"
  using assms
proof (induction fs arbitrary: p)
  case (Cons fr fs)
  obtain m b where fr: "fr = (m, b)" by (cases fr)
  obtain ok1 p1 where w: "writeFrameV2 m b p = (ok1, p1)" by fastforce
  have p1: "p1 = log_append f (if ok1 then [encodeUDPFrameV2 m b] else []) p"
    using writeFrameV2_log [OF w] Cons.prems(2) fr by simp
  show ?case
  proof (cases ok1)
    case False
    with Cons.prems fr w p1 show ?thesis by (intro exI [of _ 0]) simp
  next
    case True
    with Cons.prems(1) fr w have "write_frames fs p1 = (ok, p')" by simp
    moreover have "\<forall>(m, b) \<in> set fs. meta_flowID m = f" using Cons.prems(2) by simp
    ultimately obtain k where "k \<le> length fs" "ok \<longleftrightarrow> k = length fs"
        "p' = log_append f (map enc_v2 (take k fs)) p1"
      using Cons.IH by blast
    with p1 True fr show ?thesis
      by (intro exI [of _ "Suc k"]) (simp add: log_append_twice)
  qed
qed simp

lemma writeFrameV2_sel:
  "writeFrameV2 m b p = (ok, p') \<Longrightarrow> px_fragPayloadMax p' = px_fragPayloadMax p"
  by (auto dest!: writeFrameV2_log)

lemma write_fragments_frames:
  "write_fragments f g n payload is p =
   write_frames (map (\<lambda>i. (fragment_meta f g i n, fragment_payload (nat (px_fragPayloadMax p)) payload i)) is) p"
proof (induction "is" arbitrary: p)
  case (Cons i "is")
  obtain ok p' where w: "writeFrameV2 (fragment_meta f g i n)
      (fragment_payload (nat (px_fragPayloadMax p)) payload i) p = (ok, p')" by fastforce
  from Cons [of p'] writeFrameV2_sel [OF w] w show ?case by simp
qed simp

lemma frames_flow: "\<forall>(m, b) \<in> set (datagram_frames k f g payload). meta_flowID m = f"
  by (auto simp: datagram_frames_def whole_meta_def fragment_meta_def)

text \<open>
  When writing is negotiated with fragments, \<open>writeDatagram\<close> is: drop, or write the frames of
  the datagram until a write fails.
\<close>

definition sendable :: "bytes \<Rightarrow> udpProxy \<Rightarrow> bool" where
  "sendable payload p \<longleftrightarrow>
     length payload \<le> udpMaxDatagramSize \<and> px_fragPayloadMax p > 0 \<and>
     fragment_count (nat (px_fragPayloadMax p)) payload \<le> 255"

definition uses_fragment :: "bytes \<Rightarrow> udpProxy \<Rightarrow> bool" where
  "uses_fragment payload p \<longleftrightarrow> int (length payload) > px_fragPayloadMax p"

definition next_id :: "bytes \<Rightarrow> udpProxy \<Rightarrow> 32 word" where
  "next_id payload p = (if uses_fragment payload p then px_nextFragID p + 1 else px_nextFragID p)"

lemma fragment_count_int:
  "0 < m \<Longrightarrow> nat ((int (length payload) + m - 1) div m) = fragment_count (nat m) payload"
  by (simp add: fragment_count_def nat_div_distrib nat_diff_distrib nat_add_distrib)

lemma fragment_count_small: "length payload \<le> m \<Longrightarrow> 0 < m \<Longrightarrow> fragment_count m payload \<le> 1"
  unfolding fragment_count_def by (rule less_Suc_eq_le [THEN iffD1]) (simp add: div_less_iff_less_mult)

lemma writeDatagram_frag:
  assumes "px_fragEnabled p"
  shows "writeDatagram f payload p =
     (if sendable payload p
      then write_frames (datagram_frames (nat (px_fragPayloadMax p)) f (ucast (next_id payload p)) payload)
             (p\<lparr>px_nextFragID := next_id payload p\<rparr>)
      else (True, p))"
proof (cases "length payload > udpMaxDatagramSize \<or> px_fragPayloadMax p \<le> 0")
  case True
  with assms show ?thesis by (auto simp: writeDatagram_def sendable_def)
next
  case ok: False
  let ?m = "nat (px_fragPayloadMax p)"
  show ?thesis
  proof (cases "uses_fragment payload p")
    case False
    with ok have "sendable payload p"
      using fragment_count_small [of payload ?m] by (fastforce simp: sendable_def uses_fragment_def)
    with ok assms False show ?thesis
      by (cases "writeFrameV2 (whole_meta f) payload p")
        (auto simp: writeDatagram_def uses_fragment_def next_id_def datagram_frames_def)
  next
    case True
    then have "\<not> length payload \<le> ?m" using ok unfolding uses_fragment_def by arith
    with ok assms True show ?thesis
      by (simp add: writeDatagram_def sendable_def uses_fragment_def next_id_def datagram_frames_def Let_def
          fragment_count_int write_fragments_frames)
  qed
qed


lemma fragment_payload_eq:
  "fragment_payload m payload i = take m (drop (i * m) payload)"
  by (auto simp: fragment_payload_def slice_of_def Let_def)

lemma concat_fragments_take:
  "concat (map (fragment_payload m payload) [0..<k]) = take (k * m) payload"
proof (induction k)
  case (Suc k)
  then show ?case by (simp add: fragment_payload_eq take_add add.commute [of m])
qed simp

lemma fragment_count_cover: "0 < m \<Longrightarrow> length payload \<le> fragment_count m payload * m"
proof -
  assume m: "0 < m"
  have "length payload + m - 1 < Suc ((length payload + m - 1) div m) * m"
    using m dividend_less_div_times [of m "length payload + m - 1"] by simp
  then show ?thesis using m unfolding fragment_count_def mult_Suc by linarith
qed

lemma concat_fragments:
  "0 < m \<Longrightarrow> concat (map (fragment_payload m payload) [0..<fragment_count m payload]) = payload"
  by (simp add: concat_fragments_take fragment_count_cover)

lemma datagram_frames_concat:
  "0 < m \<Longrightarrow> concat (map snd (datagram_frames m f g payload)) = payload"
  by (simp add: datagram_frames_def o_def concat_fragments)

lemma datagram_frames_limit:
  "(mt, b) \<in> set (datagram_frames m f g payload) \<Longrightarrow> length b \<le> m"
  by (auto simp: datagram_frames_def fragment_payload_eq split: if_splits)


lemma sendable_frames:
  fixes p f b defines "fs \<equiv> datagram_frames (nat (px_fragPayloadMax p)) f (ucast (next_id b p)) b"
  assumes s: "sendable b p" and w: "write_frames fs (p\<lparr>px_nextFragID := next_id b p\<rparr>) = (ok, p')"
  shows "\<exists>k\<le>length fs. (ok \<longleftrightarrow> k = length fs) \<and>
      p' = log_append f (map enc_v2 (take k fs)) (p\<lparr>px_nextFragID := next_id b p\<rparr>) \<and>
      concat (map snd fs) = b \<and> length fs \<le> 255 \<and> list_all (\<lambda>(m, x). int (length x) \<le> px_fragPayloadMax p) fs"
proof -
  let ?m = "nat (px_fragPayloadMax p)"
  have m: "0 < ?m" "fragment_count ?m b \<le> 255" using s by (simp_all add: sendable_def)
  from write_frames_log [OF w frames_flow [of ?m f "ucast (next_id b p)" b, folded fs_def]] obtain k where
    "k \<le> length fs" "ok \<longleftrightarrow> k = length fs"
    "p' = log_append f (map enc_v2 (take k fs)) (p\<lparr>px_nextFragID := next_id b p\<rparr>)" by blast
  moreover have "length fs \<le> 255" using m by (simp add: fs_def datagram_frames_def)
  moreover have "list_all (\<lambda>(mt, x). int (length x) \<le> px_fragPayloadMax p) fs"
    using datagram_frames_limit [of _ _ ?m f "ucast (next_id b p)" b] m by (fastforce simp: fs_def list_all_iff)
  moreover have "concat (map snd fs) = b" using datagram_frames_concat [OF m(1)] by (simp add: fs_def)
  ultimately show ?thesis by blast
qed


section \<open>Reading\<close>

text \<open>
  \<open>p.flows.Load\<close> and the refresh of \<open>lastSeen\<close> of the object that is found.
\<close>

definition touch_flow :: "instant \<Rightarrow> 32 word \<Rightarrow> udpProxy \<Rightarrow> udpProxy" where
  "touch_flow now flowID p =
     (case map_of (px_flows p) flowID of
        None \<Rightarrow> p
      | Some a \<Rightarrow> p\<lparr>px_heap := (px_heap p)[a := (px_heap p ! a)\<lparr>fl_lastSeen := now\<rparr>]\<rparr>)"

text \<open>What is done with a v2 frame once it is read, the same in both modes.\<close>

definition accept_frame ::
  "instant \<Rightarrow> udpFrameMeta \<Rightarrow> bytes \<Rightarrow> udpProxy \<Rightarrow> (32 word \<times> bytes) option \<times> udpProxy" where
  "accept_frame now meta payload p =
     (if meta_flags meta AND udpFrameFlagKeepalive \<noteq> 0 then (None, touch_flow now (meta_flowID meta) p)
      else if meta_flags meta AND udpFrameFlagFragment = 0 then (Some (meta_flowID meta, payload), p)
      else case reasm_add now (meta_flowID meta) meta payload (px_reasm p) of
             (None, r) \<Rightarrow> (None, p\<lparr>px_reasm := r\<rparr>)
           | (Some datagram, r) \<Rightarrow> (Some (meta_flowID meta, datagram), p\<lparr>px_reasm := r\<rparr>))"

text \<open>
  \<open>Inr None\<close> stands for \<open>ok = false\<close> without an error: the frame is dropped, the loop goes on.
\<close>

definition readDatagramFrom ::
  "instant \<Rightarrow> udpProxy \<Rightarrow> stream \<Rightarrow> ((io_error + (32 word \<times> bytes) option) \<times> udpProxy) \<times> stream" where
  "readDatagramFrom now p s =
     (if \<not> px_fragEnabled p
      then case readUDPFrame s of
             (Inl e, s) \<Rightarrow> ((Inl e, p), s)
           | (Inr (flowID, payload), s) \<Rightarrow> ((Inr (Some (flowID, payload)), p), s)
      else case readUDPFrameV2 s of
             (Inl e, s) \<Rightarrow> ((Inl e, p), s)
           | (Inr (meta, payload), s) \<Rightarrow>
               (let (d, p) = accept_frame now meta payload p in ((Inr d, p), s)))"

definition decodeDatagramBytes ::
  "instant \<Rightarrow> bytes \<Rightarrow> udpProxy \<Rightarrow> (32 word \<times> bytes) option \<times> udpProxy" where
  "decodeDatagramBytes now b p =
     (case parseUDPFrameV2Bytes b of
        None \<Rightarrow> (None, p)
      | Some (meta, frag) \<Rightarrow> accept_frame now meta frag p)"

text \<open>
  Both modes decode alike: a v2 frame that came as one QUIC datagram has the effect of the
  same frame read from a channel.
\<close>

lemma decode_as_read:
  assumes "px_fragEnabled p" "length b < 65536"
  shows "decodeDatagramBytes now (encodeUDPFrameV2 m b) p =
      (case readDatagramFrom now p (on_wire (encodeUDPFrameV2 m b @ rest) e) of ((r, p'), s) \<Rightarrow> (case_sum (\<lambda>_. None) id r, p'))"
  using assms readUDPFrameV2_encoded [of m b rest e]
  by (cases "accept_frame now m b p") (simp add: decodeDatagramBytes_def readDatagramFrom_def parse_encoded)


section \<open>One write, one frame\<close>

lemma channel_log_append:
  assumes "px_datagram p = None" "c < length (px_chs p)"
  shows "dc_sent (px_chs (log_append f bs p) ! c) =
    dc_sent (px_chs p ! c) @ (if channelFor f p = c then bs else [])"
  using assms by (auto simp: log_append_def)

lemma accept_fragment:
  "meta_flags m = udpFrameFlagFragment \<Longrightarrow> accept_frame t m b q =
     (case reasm_add t (meta_flowID m) m b (px_reasm q) of (d, r) \<Rightarrow>
       (map_option (\<lambda>x. (meta_flowID m, x)) d, q\<lparr>px_reasm := r\<rparr>))"
  by (simp add: accept_frame_def udpFrameFlagFragment_def udpFrameFlagKeepalive_def split: prod.splits option.splits)

lemma accept_whole: "accept_frame t (whole_meta f) b q = (Some (f, b), q)"
  by (simp add: accept_frame_def whole_meta_def)

lemma meta_flow [simp]:
  "meta_flowID (fragment_meta f g i n) = f" "meta_flowID (whole_meta f) = f"
  by (simp_all add: fragment_meta_def whole_meta_def)

text \<open>A v1 frame goes to the channel of the flow, in datagram mode as well.\<close>

lemma writeFrame_log:
  "writeFrame f b p = (ok, p') \<Longrightarrow>
   p' = p\<lparr>px_chs := (px_chs p)[channelFor f p := (px_chs p ! channelFor f p)
     \<lparr>dc_sent := dc_sent (px_chs p ! channelFor f p) @ (if ok then [encodeUDPFrame f b] else [])\<rparr>]\<rparr>"
  by (auto simp: writeFrame_def chan_write_def dc_write_def Let_def split: if_splits option.splits)


section \<open>Properties\<close>

abbreviation sample_proxy :: udpProxy where
  "sample_proxy \<equiv>
     \<lparr>px_chs = [\<lparr>dc_sent = [], dc_limit = None, dc_closed = False\<rparr>, \<lparr>dc_sent = [], dc_limit = None, dc_closed = False\<rparr>],
      px_nchs = 2, px_idleTimeout = udpFlowIdleTimeout, px_datagram = None, px_port = 7000,
      px_maxPacketSize = 1400, px_fragEnabled = True, px_fragPayloadMax = 2, px_nextFragID = 0,
      px_reasm = newUDPReassembler, px_closeOnce = False, px_flows = [], px_heap = []\<rparr>"

text \<open>
  C17. What a write of one datagram does, on every branch. Without fragments (v1): a datagram
  over the packet limit is dropped and the write reports success; any other goes as one frame to
  the channel of its flow, and the frame is there exactly when the write reports success. With
  fragments: a datagram is dropped, with success, when it is over 65507 bytes, when the
  negotiated payload is not positive, or when it would need more than 255 fragments; otherwise
  an initial part of its frames is written on the channel of its flow, all of them exactly when
  the write reports success; the frames have at most the negotiated payload each, there are at
  most 255, and their payloads in order are the datagram.
\<close>

theorem writeDatagram_frames:
  assumes "writeDatagram f b p = (ok, p')"
  shows "(\<not> px_fragEnabled p \<and> int (length b) > effectiveMaxPacketSize p \<longrightarrow> ok \<and> p' = p) \<and>
    (\<not> px_fragEnabled p \<and> int (length b) \<le> effectiveMaxPacketSize p \<longrightarrow>
       p' = p\<lparr>px_chs := (px_chs p)[channelFor f p := (px_chs p ! channelFor f p)
         \<lparr>dc_sent := dc_sent (px_chs p ! channelFor f p) @ (if ok then [encodeUDPFrame f b] else [])\<rparr>]\<rparr>) \<and>
    (px_fragEnabled p \<and> (length b > udpMaxDatagramSize \<or> px_fragPayloadMax p \<le> 0 \<or>
         fragment_count (nat (px_fragPayloadMax p)) b > 255) \<longrightarrow> ok \<and> p' = p) \<and>
    (px_fragEnabled p \<and> length b \<le> udpMaxDatagramSize \<and> 0 < px_fragPayloadMax p \<and>
         fragment_count (nat (px_fragPayloadMax p)) b \<le> 255 \<longrightarrow>
       (\<exists>k fs. fs = datagram_frames (nat (px_fragPayloadMax p)) f (ucast (next_id b p)) b \<and>
          k \<le> length fs \<and> (ok \<longleftrightarrow> k = length fs) \<and>
          p' = log_append f (map enc_v2 (take k fs)) (p\<lparr>px_nextFragID := next_id b p\<rparr>) \<and>
          concat (map snd fs) = b \<and> length fs \<le> 255 \<and> list_all (\<lambda>(m, x). int (length x) \<le> px_fragPayloadMax p) fs))"
proof (cases "px_fragEnabled p")
  case False
  then show ?thesis using assms by (auto simp: writeDatagram_def dest: writeFrame_log split: if_splits)
next
  case True
  show ?thesis
  proof (cases "sendable b p")
    case False
    with True assms show ?thesis by (auto simp: writeDatagram_frag sendable_def)
  next
    case s: True
    with True assms have "write_frames (datagram_frames (nat (px_fragPayloadMax p)) f (ucast (next_id b p)) b)
        (p\<lparr>px_nextFragID := next_id b p\<rparr>) = (ok, p')"
      by (simp add: writeDatagram_frag)
    from sendable_frames [OF s this] True s show ?thesis by (simp add: sendable_def)
  qed
qed

theorem writeDatagram_frames_witness:
  "(\<exists>k fs. fs = datagram_frames 2 2 1 [1, 2, 3] \<and> k = length fs \<and> concat (map snd fs) = [1, 2, 3]) \<and>
   dc_sent (px_chs (snd (writeDatagram 3 [7] (sample_proxy\<lparr>px_fragEnabled := False\<rparr>))) ! 1) = [encodeUDPFrame 3 [7]]"
proof -
  let ?v1 = "sample_proxy\<lparr>px_fragEnabled := False\<rparr>"
  have "fst (writeDatagram 2 [1, 2, 3] sample_proxy)"
    by (simp add: fragment_count_def udpMaxDatagramSize_def writeDatagram_def upt_rec writeFrameV2_def
        chan_write_def dc_write_def Let_def channelFor_def udpShardIndex_def)
  moreover have "fst (writeDatagram 3 [7] ?v1)" "channelFor 3 ?v1 = 1"
    by (simp_all add: writeDatagram_def effectiveMaxPacketSize_def writeFrame_def chan_write_def dc_write_def Let_def
        channelFor_def udpShardIndex_def)
  ultimately show ?thesis
    using writeDatagram_frames [where f = 2 and b = "[1, 2, 3]" and p = sample_proxy, OF surjective_pairing]
      writeDatagram_frames [where f = 3 and b = "[7]" and p = ?v1, OF surjective_pairing]
    by (simp add: next_id_def uses_fragment_def effectiveMaxPacketSize_def fragment_count_def udpMaxDatagramSize_def)
qed

text \<open>
  A datagram may be lost without notice: with a negotiated fragment payload below 257 bytes
  there are datagrams within the UDP limit that would need more than 255 fragments;
  \<open>writeDatagram\<close> reports success for them and writes nothing.
\<close>

theorem small_fragments_drop_silently:
  assumes "px_fragEnabled p" "0 < px_fragPayloadMax p" "px_fragPayloadMax p \<le> 256"
  shows "writeDatagram f (replicate udpMaxDatagramSize 0) p = (True, p)"
proof -
  let ?m = "nat (px_fragPayloadMax p)" and ?b = "replicate udpMaxDatagramSize 0"
  have "65507 \<le> fragment_count ?m ?b * ?m"
    using fragment_count_cover [of ?m ?b] assms by (simp add: udpMaxDatagramSize_def)
  also have "\<dots> \<le> fragment_count ?m ?b * 256" using assms by (intro mult_le_mono2) simp
  finally have "\<not> sendable ?b p" by (simp add: sendable_def)
  then show ?thesis by (simp add: writeDatagram_frag [OF assms(1)])
qed

theorem small_fragments_drop_silently_witness:
  "writeDatagram 2 (replicate udpMaxDatagramSize 0) sample_proxy = (True, sample_proxy)"
  by (rule small_fragments_drop_silently) simp_all

end
