(* ===== verification/Udp_Pumps.thy ===== *)
theory Udp_Pumps
  imports Udp_Proxy
begin

text \<open>
  The pumps of all flows at once, and the readers of all channels at once: every flow has a
  goroutine that reads datagrams of the local service and writes their frames
  (\<open>udpClientFlow.pump\<close> with \<open>writeDatagram\<close>), one write after the other, and a schedule says
  whose turn it is; every channel has a reader, and a second schedule says which reader gets its
  next frame when. The readers share one reassembler. What the pumps sent comes out.
  (\<open>Udp_Flows\<close>, which follows the flow table and not the frames, takes the write of one datagram as one step.)
\<close>

section \<open>Pumps, one write at a time\<close>

text \<open>
  Where a pump is: at the read of the next datagram, in the loop over the fragments of one (its
  number, the next fragment, the number of fragments), or gone after a write that failed.
\<close>

datatype pump_pc = AtRead | AtFragment bytes "16 word" nat nat | Gone

record pump =
  pu_todo :: "bytes list"
  pu_pc :: pump_pc

text \<open>
  One turn. A datagram that needs more than one frame takes its number from the shared counter
  and is written by the turns that follow; every other datagram is written or dropped at once.
\<close>

definition pump_move :: "32 word \<Rightarrow> pump \<Rightarrow> udpProxy \<Rightarrow> pump \<times> udpProxy" where
  "pump_move f u p =
     (case pu_pc u of
        Gone \<Rightarrow> (u, p)
      | AtRead \<Rightarrow>
          (case pu_todo u of
             [] \<Rightarrow> (u, p)
           | b # bs \<Rightarrow>
               let m = px_fragPayloadMax p;
                   fragCnt = nat ((int (length b) + m - 1) div m)
               in if px_fragEnabled p \<and> length b \<le> udpMaxDatagramSize \<and> 0 < m \<and> m < int (length b) \<and> fragCnt \<le> 255
                  then let next = px_nextFragID p + 1
                       in (\<lparr>pu_todo = bs, pu_pc = AtFragment b (ucast next) 0 fragCnt\<rparr>, p\<lparr>px_nextFragID := next\<rparr>)
                  else case writeDatagram f b p of
                         (ok, p) \<Rightarrow> (\<lparr>pu_todo = bs, pu_pc = (if ok then AtRead else Gone)\<rparr>, p))
      | AtFragment b fragID i fragCnt \<Rightarrow>
          (case writeFrameV2 (fragment_meta f fragID i fragCnt) (fragment_payload (nat (px_fragPayloadMax p)) b i) p of
             (ok, p) \<Rightarrow>
               (u\<lparr>pu_pc := (if \<not> ok then Gone
                           else if Suc i < fragCnt then AtFragment b fragID (Suc i) fragCnt else AtRead)\<rparr>, p)))"




text \<open>A pump that is not interrupted does what \<open>writeDatagram\<close> does.\<close>

definition turns :: "nat \<Rightarrow> 32 word \<Rightarrow> pump \<times> udpProxy \<Rightarrow> pump \<times> udpProxy" where
  "turns k f = (\<lambda>(u, p). pump_move f u p) ^^ k"

lemma turns_0 [simp]: "turns 0 f up = up"
  by (simp add: turns_def)

lemma turns_Suc: "turns (Suc k) f (u, p) = turns k f (pump_move f u p)"
  by (simp add: turns_def funpow_swap1)

lemma fragments_alone:
  assumes "write_fragments f g n b [i..<n] p = (ok, p')" "i < n" "pu_pc u = AtFragment b g i n"
  shows "\<exists>k. turns k f (u, p) = (u\<lparr>pu_pc := (if ok then AtRead else Gone)\<rparr>, p')"
  using assms
proof (induction "n - i" arbitrary: i p u)
  case (Suc d)
  obtain ok1 p1 where w: "writeFrameV2 (fragment_meta f g i n) (fragment_payload (nat (px_fragPayloadMax p)) b i) p = (ok1, p1)"
    by fastforce
  have split: "[i..<n] = i # [Suc i..<n]" using Suc.prems(2) by (rule upt_conv_Cons)
  let ?u = "u\<lparr>pu_pc := (if \<not> ok1 then Gone else if Suc i < n then AtFragment b g (Suc i) n else AtRead)\<rparr>"
  have t: "turns (Suc k) f (u, p) = turns k f (?u, p1)" for k
    using Suc.prems(3) w by (simp add: turns_Suc pump_move_def)
  show ?case
  proof (cases "ok1 \<and> Suc i < n")
    case False
    with Suc.prems w show ?thesis by (intro exI [of _ 1]) (auto simp: t [of 0, simplified] split)
  next
    case True
    with Suc.prems(1) w have "write_fragments f g n b [Suc i..<n] p1 = (ok, p')" by (simp add: split)
    moreover have "d = n - Suc i" using Suc.hyps(2) by simp
    ultimately obtain k where "turns k f (?u, p1) = (?u\<lparr>pu_pc := (if ok then AtRead else Gone)\<rparr>, p')"
      using Suc.hyps(1) [of "Suc i" p1 ?u] True by auto
    then show ?thesis by (intro exI [of _ "Suc k"]) (simp add: t)
  qed
qed simp

lemma pump_alone:
  assumes "writeDatagram f b p = (ok, p')" "pu_pc u = AtRead" "pu_todo u = b # bs"
  shows "\<exists>k. turns k f (u, p) = (\<lparr>pu_todo = bs, pu_pc = (if ok then AtRead else Gone)\<rparr>, p')"
proof -
  let ?m = "px_fragPayloadMax p" and ?next = "px_nextFragID p + 1"
  let ?n = "nat ((int (length b) + ?m - 1) div ?m)"
  show ?thesis
  proof (cases "px_fragEnabled p \<and> length b \<le> udpMaxDatagramSize \<and> 0 < ?m \<and> ?m < int (length b) \<and> ?n \<le> 255")
    case False
    with assms show ?thesis
      by (intro exI [of _ 1]) (simp add: turns_Suc [of 0, simplified] pump_move_def Let_def split: prod.splits)
  next
    case True
    have "0 < ?n"
      using True by (auto simp: pos_imp_zdiv_pos_iff)
    from True assms(1) have "write_fragments f (ucast ?next) ?n b [0..<?n] (p\<lparr>px_nextFragID := ?next\<rparr>) = (ok, p')"
      by (simp add: writeDatagram_def Let_def)
    from fragments_alone [OF this \<open>0 < ?n\<close>, of "\<lparr>pu_todo = bs, pu_pc = AtFragment b (ucast ?next) 0 ?n\<rparr>"]
    obtain k where "turns k f (\<lparr>pu_todo = bs, pu_pc = AtFragment b (ucast ?next) 0 ?n\<rparr>, p\<lparr>px_nextFragID := ?next\<rparr>) =
        (\<lparr>pu_todo = bs, pu_pc = (if ok then AtRead else Gone)\<rparr>, p')" by auto
    with True assms(2,3) show ?thesis
      by (intro exI [of _ "Suc k"]) (simp add: turns_Suc pump_move_def Let_def)
  qed
qed


section \<open>What the pumps have written\<close>




definition same_setup :: "udpProxy \<Rightarrow> udpProxy \<Rightarrow> bool" where
  "same_setup p0 p \<longleftrightarrow> px_fragEnabled p = px_fragEnabled p0 \<and> px_fragPayloadMax p = px_fragPayloadMax p0 \<and>
     px_nchs p = px_nchs p0 \<and> length (px_chs p) = length (px_chs p0) \<and> px_datagram p = None"


text \<open>
  The logs hold the frames \<open>L\<close>, in which the frames of a flow, with those its pump still has to
  write, are the frames of the datagrams \<open>sent\<close> that it has taken from its \<open>todo\<close>.
\<close>

definition logged :: "udpProxy \<Rightarrow> udpProxy \<Rightarrow> (nat \<Rightarrow> (udpFrameMeta \<times> bytes) list) \<Rightarrow> bool" where
  "logged p0 p L \<longleftrightarrow> same_setup p0 p \<and> (\<forall>c < length (px_chs p0). dc_sent (px_chs p ! c) = map enc_v2 (L c)) \<and>
     (\<forall>c. \<forall>fr \<in> set (L c). channelFor (meta_flowID (fst fr)) p0 = c)"





lemma logged_next_id [simp]: "logged p0 (p\<lparr>px_nextFragID := g\<rparr>) L = logged p0 p L"
  by (simp add: logged_def same_setup_def)




section \<open>Readers of all channels\<close>





section \<open>What the readers make of it\<close>




















section \<open>All reads\<close>

lemma map_upt_update: "c < n \<Longrightarrow> (map F [0..<n])[c := F' c] = map (F(c := F' c)) [0..<n]"
  by (rule nth_equalityI) (simp_all add: nth_list_update)




section \<open>Properties\<close>








end
