(* ===== verification/Udp_Flows.thy ===== *)
theory Udp_Flows
  imports Udp_Proxy
begin

text \<open>
  The flows of the UDP proxy (\<open>udpClientFlow\<close>, \<open>getOrCreateFlow\<close>, \<open>remove\<close>, \<open>pump\<close>,
  \<open>sweepIdleFlows\<close>, \<open>sendKeepalives\<close>, \<open>closeAll\<close>, \<open>closeChannels\<close>, \<open>readChannel\<close>,
  \<open>readDatagrams\<close>, \<open>runUDPProxy\<close>): first the operations as functions on the proxy, made of
  the atomic accesses to the \<open>sync.Map\<close> and to the flow objects, then the goroutines that run
  them as a step relation that interleaves those accesses. The lemmas show what every reachable
  state keeps and what is left when the proxy stops.
\<close>

section \<open>Atomic accesses\<close>

abbreviation flow_at :: "udpProxy \<Rightarrow> nat \<Rightarrow> udpClientFlow" where
  "flow_at p a \<equiv> px_heap p ! a"

definition upd_flow :: "nat \<Rightarrow> (udpClientFlow \<Rightarrow> udpClientFlow) \<Rightarrow> udpProxy \<Rightarrow> udpProxy" where
  "upd_flow a g p = p\<lparr>px_heap := (px_heap p)[a := g (flow_at p a)]\<rparr>"

text \<open>
  \<open>remove\<close>: the once-guard with the deletion from the table, and the close of the socket. A
  second caller finds the guard taken and does nothing.
\<close>

definition remove_delete :: "nat \<Rightarrow> udpProxy \<Rightarrow> bool \<times> udpProxy" where
  "remove_delete a p =
     (if fl_removed (flow_at p a) then (False, p)
      else (True, (upd_flow a (\<lambda>f. f\<lparr>fl_removed := True\<rparr>) p)
                    \<lparr>px_flows := AList.delete (fl_flowID (flow_at p a)) (px_flows p)\<rparr>))"

definition socket_close :: "nat \<Rightarrow> udpProxy \<Rightarrow> udpProxy" where
  "socket_close a = upd_flow a (\<lambda>f. f\<lparr>fl_open := False\<rparr>)"

definition flow_remove :: "nat \<Rightarrow> udpProxy \<Rightarrow> udpProxy" where
  "flow_remove a p = (case remove_delete a p of (did, p) \<Rightarrow> if did then socket_close a p else p)"

text \<open>\<open>getOrCreateFlow\<close>: the lookup, the new object after a dial that succeeded, the publication.\<close>

definition flow_load :: "instant \<Rightarrow> 32 word \<Rightarrow> udpProxy \<Rightarrow> nat option \<times> udpProxy" where
  "flow_load now flowID p =
     (case map_of (px_flows p) flowID of
        None \<Rightarrow> (None, p)
      | Some a \<Rightarrow> (Some a, upd_flow a (\<lambda>f. f\<lparr>fl_lastSeen := now\<rparr>) p))"

definition new_flow :: "instant \<Rightarrow> 32 word \<Rightarrow> udpClientFlow" where
  "new_flow now flowID =
     \<lparr>fl_flowID = flowID, fl_lastSeen = now, fl_keepalives = 0, fl_removed = False, fl_open = True, fl_uplink = []\<rparr>"

definition flow_alloc :: "instant \<Rightarrow> 32 word \<Rightarrow> udpProxy \<Rightarrow> nat \<times> udpProxy" where
  "flow_alloc now flowID p = (length (px_heap p), p\<lparr>px_heap := px_heap p @ [new_flow now flowID]\<rparr>)"

definition flow_publish :: "32 word \<Rightarrow> nat \<Rightarrow> udpProxy \<Rightarrow> (nat \<times> bool) \<times> udpProxy" where
  "flow_publish flowID a p =
     (case map_of (px_flows p) flowID of
        Some actual \<Rightarrow> ((actual, False), socket_close a p)
      | None \<Rightarrow> ((a, True), p\<lparr>px_flows := AList.update flowID a (px_flows p)\<rparr>))"


section \<open>Operations\<close>

text \<open>
  \<open>dial\<close> is whether \<open>net.DialUDP\<close> succeeds. The result is the flow, with whether this call
  started its pump.
\<close>

definition getOrCreateFlow ::
  "instant \<Rightarrow> bool \<Rightarrow> 32 word \<Rightarrow> udpProxy \<Rightarrow> (nat \<times> bool) option \<times> udpProxy" where
  "getOrCreateFlow now dial flowID p =
     (case flow_load now flowID p of
        (Some a, p) \<Rightarrow> (Some (a, False), p)
      | (None, p) \<Rightarrow>
          if \<not> dial then (None, p)
          else let (a, p) = flow_alloc now flowID p;
                   (r, p) = flow_publish flowID a p
               in (Some r, p))"

text \<open>
  \<open>pump\<close>, one turn: the datagram the socket has (\<open>None\<close> for a read error), of which \<open>Read\<close> gives
  what fits the buffer; \<open>False\<close> when the goroutine returns.
\<close>

definition pump_turn :: "nat \<Rightarrow> bytes option \<Rightarrow> udpProxy \<Rightarrow> bool \<times> udpProxy" where
  "pump_turn a input p =
     (case input of
        None \<Rightarrow> (False, flow_remove a p)
      | Some data \<Rightarrow>
          (case writeDatagram (fl_flowID (flow_at p a)) (take (nat (getReadBuf p)) data) p of
             (True, p) \<Rightarrow> (True, p)
           | (False, p) \<Rightarrow> (False, flow_remove a p)))"

definition sweep_flow :: "instant \<Rightarrow> nat \<Rightarrow> udpProxy \<Rightarrow> udpProxy" where
  "sweep_flow deadline a p = (if fl_lastSeen (flow_at p a) < deadline then flow_remove a p else p)"

definition sweepIdleFlows :: "instant \<Rightarrow> udpProxy \<Rightarrow> udpProxy" where
  "sweepIdleFlows now p =
     (let deadline = now - px_idleTimeout p
      in fold (\<lambda>(k, a). sweep_flow deadline a) (px_flows p) p)"

definition closeAll :: "udpProxy \<Rightarrow> udpProxy" where
  "closeAll p = fold (\<lambda>(k, a). flow_remove a) (px_flows p) p"

definition closeChannels :: "udpProxy \<Rightarrow> udpProxy" where
  "closeChannels p =
     (if px_closeOnce p then p
      else if px_nchs p = 0
      then p\<lparr>px_closeOnce := True,
             px_chs := (case px_chs p of [] \<Rightarrow> [] | c # cs \<Rightarrow> c\<lparr>dc_closed := True\<rparr> # cs)\<rparr>
      else p\<lparr>px_closeOnce := True,
             px_chs := map (\<lambda>c. c\<lparr>dc_closed := True\<rparr>) (take (px_nchs p) (px_chs p)) @ drop (px_nchs p) (px_chs p)\<rparr>)"

definition keepalive_flow :: "instant \<Rightarrow> nat \<Rightarrow> udpProxy \<Rightarrow> udpProxy" where
  "keepalive_flow now a p =
     (let flow = flow_at p a
      in if now - fl_lastSeen flow < udpFlowKeepaliveIdle then p
         else if fl_keepalives flow \<ge> udpFlowKeepaliveMax then p
         else let meta = \<lparr>meta_flowID = fl_flowID flow, meta_flags = udpFrameFlagKeepalive, meta_fragID = 0,
                          meta_fragIdx = 0, meta_fragCnt = 1\<rparr>
              in case writeFrameV2 meta [] p of
                   (False, p) \<Rightarrow> flow_remove a p
                 | (True, p) \<Rightarrow> upd_flow a (\<lambda>f. f\<lparr>fl_keepalives := fl_keepalives f + 1, fl_lastSeen := now\<rparr>) p)"

definition sendKeepalives :: "instant \<Rightarrow> udpProxy \<Rightarrow> udpProxy" where
  "sendKeepalives now p =
     (if \<not> px_fragEnabled p then p
      else fold (\<lambda>(k, a). keepalive_flow now a) (px_flows p) p)"

text \<open>
  The end of a turn of \<open>readChannel\<close> and of \<open>readDatagrams\<close>: a datagram goes to its flow; \<open>wr\<close>
  is whether the write to the local socket succeeds.
\<close>

definition uplink_write :: "nat \<Rightarrow> bool \<Rightarrow> bytes \<Rightarrow> udpProxy \<Rightarrow> bool \<times> udpProxy" where
  "uplink_write a wr payload p =
     (if fl_open (flow_at p a) \<and> wr
      then (True, upd_flow a (\<lambda>f. f\<lparr>fl_uplink := fl_uplink f @ [payload]\<rparr>) p)
      else (False, p))"

definition deliver :: "instant \<Rightarrow> bool \<Rightarrow> bool \<Rightarrow> 32 word \<Rightarrow> bytes \<Rightarrow> udpProxy \<Rightarrow> udpProxy" where
  "deliver now dial wr flowID payload p =
     (case getOrCreateFlow now dial flowID p of
        (None, p) \<Rightarrow> p
      | (Some (a, _), p) \<Rightarrow>
          if payload = [] then p
          else case uplink_write a wr payload p of
                 (True, p) \<Rightarrow> p
               | (False, p) \<Rightarrow> flow_remove a p)"

text \<open>A turn of the two read loops; \<open>False\<close> when the loop returns.\<close>

definition readChannel_turn ::
  "instant \<Rightarrow> bool \<Rightarrow> bool \<Rightarrow> udpProxy \<Rightarrow> stream \<Rightarrow> (bool \<times> udpProxy) \<times> stream" where
  "readChannel_turn now dial wr p s =
     (case readDatagramFrom now p s of
        ((Inl e, p), s) \<Rightarrow> ((False, p), s)
      | ((Inr None, p), s) \<Rightarrow> ((True, p), s)
      | ((Inr (Some (flowID, payload)), p), s) \<Rightarrow> ((True, deliver now dial wr flowID payload p), s))"

definition readDatagrams_turn ::
  "instant \<Rightarrow> bool \<Rightarrow> bool \<Rightarrow> bytes option \<Rightarrow> udpProxy \<Rightarrow> bool \<times> udpProxy" where
  "readDatagrams_turn now dial wr inbound p =
     (case inbound of
        None \<Rightarrow> (False, p)
      | Some buf \<Rightarrow>
          if length buf \<le> udpDatagramPortHeaderLen then (True, p)
          else case decodeDatagramBytes now (drop udpDatagramPortHeaderLen buf) p of
                 (None, p) \<Rightarrow> (True, p)
               | (Some (flowID, payload), p) \<Rightarrow> (True, deliver now dial wr flowID payload p))"


section \<open>The goroutines\<close>

text \<open>
  A reader goroutine between its accesses to shared state (a channel's read loop, or the one
  loop of datagram mode), and the goroutine of \<open>runUDPProxy\<close>: waiting, in \<open>closeAll\<close> with the
  flows that its \<open>Range\<close> still has to visit and the one it is at, returned.
\<close>

datatype reader =
    RRead
  | RLoad "32 word" bytes
  | RDial "32 word" bytes
  | RPublish "32 word" bytes nat
  | RWrite nat bytes
  | RDone

datatype main_state = MRunning | MClosing "32 word list" | MVisit "32 word list" nat | MStopped

text \<open>
  \<open>sy_pumps\<close>: the flows whose pump runs; \<open>sy_closing\<close>: the flows taken from the table by a
  \<open>remove\<close> that has not closed the socket yet; \<open>sy_seen\<close> (a ghost): the flows that were in the
  table at some time, which a \<open>Range\<close> in progress may still hand to its callback.
\<close>

record udpSys =
  sy_px :: udpProxy
  sy_readers :: "reader list"
  sy_pumps :: "nat list"
  sy_closing :: "nat list"
  sy_seen :: "nat set"
  sy_main :: main_state

definition sys_remove :: "nat \<Rightarrow> udpSys \<Rightarrow> udpSys" where
  "sys_remove a s =
     (case remove_delete a (sy_px s) of
        (False, p) \<Rightarrow> s
      | (True, p) \<Rightarrow> s\<lparr>sy_px := p, sy_closing := a # sy_closing s\<rparr>)"

definition set_reader :: "nat \<Rightarrow> reader \<Rightarrow> udpSys \<Rightarrow> udpSys" where
  "set_reader i r s = s\<lparr>sy_readers := (sy_readers s)[i := r]\<rparr>"

abbreviation set_px :: "udpProxy \<Rightarrow> udpSys \<Rightarrow> udpSys" where
  "set_px p s \<equiv> s\<lparr>sy_px := p\<rparr>"

abbreviation reader_at :: "udpSys \<Rightarrow> nat \<Rightarrow> reader \<Rightarrow> bool" where
  "reader_at s i r \<equiv> i < length (sy_readers s) \<and> sy_readers s ! i = r"

definition count_keepalive :: "instant \<Rightarrow> nat \<Rightarrow> udpProxy \<Rightarrow> udpProxy" where
  "count_keepalive now a =
     upd_flow a (\<lambda>f. f\<lparr>fl_keepalives := fl_keepalives f + 1, fl_lastSeen := now\<rparr>)"

text \<open>
  Every step is one access of one goroutine; a call of \<open>remove\<close> takes the flow from the table,
  and closes its socket in a later step \<open>close\<close>. A channel can end at any time (\<open>read_end\<close>), the
  context can be cancelled at any time (\<open>shutdown\<close>), and the cleanup goroutine may be in a tick
  when that happens, so its steps are always possible. Only that goroutine counts keepalives.
\<close>

inductive px_step :: "udpSys \<Rightarrow> udpSys \<Rightarrow> bool" where
  read_end: "reader_at s i RRead \<Longrightarrow> px_step s (set_reader i RDone s)"
| read_frame: "reader_at s i RRead \<Longrightarrow> accept_frame now m b (sy_px s) = (None, p) \<Longrightarrow> px_step s (set_px p s)"
| read_data: "reader_at s i RRead \<Longrightarrow> accept_frame now m b (sy_px s) = (Some (f, d), p) \<Longrightarrow>
    px_step s (set_reader i (RLoad f d) (set_px p s))"
| read_v1: "reader_at s i RRead \<Longrightarrow> \<not> px_fragEnabled (sy_px s) \<Longrightarrow> px_step s (set_reader i (RLoad f d) s)"
| load_hit: "reader_at s i (RLoad f d) \<Longrightarrow> flow_load now f (sy_px s) = (Some a, p) \<Longrightarrow>
    px_step s (set_reader i (RWrite a d) (set_px p s))"
| load_miss: "reader_at s i (RLoad f d) \<Longrightarrow> flow_load now f (sy_px s) = (None, p) \<Longrightarrow>
    px_step s (set_reader i (RDial f d) s)"
| dial_fail: "reader_at s i (RDial f d) \<Longrightarrow> px_step s (set_reader i RRead s)"
| dial_ok: "reader_at s i (RDial f d) \<Longrightarrow> flow_alloc now f (sy_px s) = (a, p) \<Longrightarrow>
    px_step s (set_reader i (RPublish f d a) (set_px p s))"
| publish_new: "reader_at s i (RPublish f d a) \<Longrightarrow> flow_publish f a (sy_px s) = ((a', True), p) \<Longrightarrow>
    px_step s (set_reader i (RWrite a' d)
      (s\<lparr>sy_px := p, sy_pumps := a' # sy_pumps s, sy_seen := insert a' (sy_seen s)\<rparr>))"
| publish_lost: "reader_at s i (RPublish f d a) \<Longrightarrow> flow_publish f a (sy_px s) = ((a', False), p) \<Longrightarrow>
    px_step s (set_reader i (RWrite a' d) (set_px p s))"
| write_empty: "reader_at s i (RWrite a []) \<Longrightarrow> px_step s (set_reader i RRead s)"
| write_ok: "reader_at s i (RWrite a d) \<Longrightarrow> d \<noteq> [] \<Longrightarrow> uplink_write a wr d (sy_px s) = (True, p) \<Longrightarrow>
    px_step s (set_reader i RRead (set_px p s))"
| write_fail: "reader_at s i (RWrite a d) \<Longrightarrow> d \<noteq> [] \<Longrightarrow> uplink_write a wr d (sy_px s) = (False, p) \<Longrightarrow>
    px_step s (set_reader i RRead (sys_remove a s))"
| pump_data: "a \<in> set (sy_pumps s) \<Longrightarrow>
    writeDatagram (fl_flowID (flow_at (sy_px s) a)) d (sy_px s) = (True, p) \<Longrightarrow> px_step s (set_px p s)"
| pump_broken: "a \<in> set (sy_pumps s) \<Longrightarrow>
    writeDatagram (fl_flowID (flow_at (sy_px s) a)) d (sy_px s) = (False, p) \<Longrightarrow>
    px_step s (sys_remove a (s\<lparr>sy_px := p, sy_pumps := remove1 a (sy_pumps s)\<rparr>))"
| pump_error: "a \<in> set (sy_pumps s) \<Longrightarrow> px_step s (sys_remove a (s\<lparr>sy_pumps := remove1 a (sy_pumps s)\<rparr>))"
| close: "a \<in> set (sy_closing s) \<Longrightarrow>
    px_step s (s\<lparr>sy_px := socket_close a (sy_px s), sy_closing := remove1 a (sy_closing s)\<rparr>)"
| sweep: "a \<in> sy_seen s \<Longrightarrow> fl_lastSeen (flow_at (sy_px s) a) < deadline \<Longrightarrow> px_step s (sys_remove a s)"
| reasm_sweep: "px_step s (set_px ((sy_px s)\<lparr>px_reasm := reasm_sweep now (px_reasm (sy_px s))\<rparr>) s)"
| keepalive: "a \<in> sy_seen s \<Longrightarrow> px_fragEnabled (sy_px s) \<Longrightarrow>
    fl_keepalives (flow_at (sy_px s) a) < udpFlowKeepaliveMax \<Longrightarrow>
    writeFrameV2 m [] (sy_px s) = (True, p) \<Longrightarrow> px_step s (set_px (count_keepalive now a p) s)"
| keepalive_broken: "a \<in> sy_seen s \<Longrightarrow> px_fragEnabled (sy_px s) \<Longrightarrow>
    writeFrameV2 m [] (sy_px s) = (False, p) \<Longrightarrow> px_step s (sys_remove a (set_px p s))"
| shutdown: "sy_main s = MRunning \<Longrightarrow>
    px_step s (s\<lparr>sy_px := closeChannels (sy_px s), sy_main := MClosing (map fst (px_flows (sy_px s)))\<rparr>)"
| range_next: "sy_main s = MClosing ks \<Longrightarrow> map_of (px_flows (sy_px s)) f = Some a \<Longrightarrow>
    px_step s (s\<lparr>sy_main := MVisit (removeAll f ks) a\<rparr>)"
| range_visit: "sy_main s = MVisit ks a \<Longrightarrow> a \<in> sy_seen s \<Longrightarrow> px_step s (sys_remove a (s\<lparr>sy_main := MClosing ks\<rparr>))"
| range_gone: "sy_main s = MClosing ks \<Longrightarrow> map_of (px_flows (sy_px s)) f = None \<Longrightarrow>
    px_step s (s\<lparr>sy_main := MClosing (removeAll f ks)\<rparr>)"
| stop: "sy_main s = MClosing [] \<Longrightarrow> px_step s (s\<lparr>sy_main := MStopped\<rparr>)"

text \<open>\<open>runUDPProxy\<close> starts with no flow and one reader per channel, or one in datagram mode.\<close>

definition sys_init :: "udpProxy \<Rightarrow> udpSys" where
  "sys_init p =
     \<lparr>sy_px = p, sy_readers = replicate (if px_datagram p = None then px_nchs p else 1) RRead,
      sy_pumps = [], sy_closing = [], sy_seen = {}, sy_main = MRunning\<rparr>"

inductive px_reach :: "udpProxy \<Rightarrow> udpSys \<Rightarrow> bool" for p0 where
  init: "px_flows p0 = [] \<Longrightarrow> px_heap p0 = [] \<Longrightarrow> px_reach p0 (sys_init p0)"
| step: "px_reach p0 s \<Longrightarrow> px_step s s' \<Longrightarrow> px_reach p0 s'"


section \<open>What every reachable state keeps\<close>

abbreviation publishing :: "udpSys \<Rightarrow> nat \<Rightarrow> 32 word \<Rightarrow> nat \<Rightarrow> bool" where
  "publishing s i f a \<equiv> i < length (sy_readers s) \<and> (\<exists>d. sy_readers s ! i = RPublish f d a)"

definition table :: "udpSys \<Rightarrow> 32 word \<Rightarrow> nat option" where
  "table s = map_of (px_flows (sy_px s))"

abbreviation obj :: "udpSys \<Rightarrow> nat \<Rightarrow> udpClientFlow" where
  "obj s a \<equiv> px_heap (sy_px s) ! a"

abbreviation objs :: "udpSys \<Rightarrow> nat" where
  "objs s \<equiv> length (px_heap (sy_px s))"

definition flow_inv :: "udpSys \<Rightarrow> bool" where
  "flow_inv s \<longleftrightarrow>
     distinct_keys (px_flows (sy_px s)) \<and>
     (\<forall>f a. table s f = Some a \<longrightarrow> a < objs s \<and> fl_flowID (obj s a) = f \<and> \<not> fl_removed (obj s a) \<and>
        fl_open (obj s a) \<and> a \<in> sy_seen s \<and> a \<in> set (sy_pumps s)) \<and>
     (\<forall>a. a < objs s \<longrightarrow> fl_open (obj s a) \<longrightarrow>
        table s (fl_flowID (obj s a)) = Some a \<or> (\<exists>i f. publishing s i f a) \<or> a \<in> set (sy_closing s)) \<and>
     (\<forall>i f a. publishing s i f a \<longrightarrow> a < objs s \<and> fl_flowID (obj s a) = f \<and> \<not> fl_removed (obj s a) \<and>
        fl_open (obj s a) \<and> a \<notin> sy_seen s) \<and>
     (\<forall>i j f f' a. publishing s i f a \<longrightarrow> publishing s j f' a \<longrightarrow> i = j) \<and>
     (\<forall>a. a \<in> sy_seen s \<longrightarrow> a < objs s \<and> (fl_removed (obj s a) \<or> table s (fl_flowID (obj s a)) = Some a)) \<and>
     (\<forall>a. a \<in> set (sy_closing s) \<longrightarrow> a \<in> sy_seen s \<and> fl_removed (obj s a)) \<and>
     set (sy_pumps s) \<subseteq> sy_seen s \<and> distinct (sy_pumps s) \<and>
     (\<forall>i a d. reader_at s i (RWrite a d) \<longrightarrow> a \<in> sy_seen s)"

text \<open>Steps that leave the table and what the invariant sees of the flow objects.\<close>

definition core :: "udpClientFlow \<Rightarrow> 32 word \<times> bool \<times> bool" where
  "core f = (fl_flowID f, fl_removed f, fl_open f)"

definition same_table :: "udpProxy \<Rightarrow> udpProxy \<Rightarrow> bool" where
  "same_table p p' \<longleftrightarrow> px_flows p' = px_flows p \<and> map core (px_heap p') = map core (px_heap p)"

lemma same_table_refl [simp]: "same_table p p"
  by (simp add: same_table_def)

lemma same_table_trans: "same_table p q \<Longrightarrow> same_table q r \<Longrightarrow> same_table p r"
  by (simp add: same_table_def)

lemma same_table_nth:
  "same_table p p' \<Longrightarrow> length (px_heap p') = length (px_heap p) \<and>
     (\<forall>a < length (px_heap p). fl_flowID (flow_at p' a) = fl_flowID (flow_at p a) \<and>
        fl_removed (flow_at p' a) = fl_removed (flow_at p a) \<and> fl_open (flow_at p' a) = fl_open (flow_at p a))"
  by (auto simp: same_table_def list_eq_iff_nth_eq core_def dest: map_eq_imp_length_eq)

lemma same_table_upd [simp]: "\<forall>f. core (g f) = core f \<Longrightarrow> same_table p (upd_flow a g p)"
  by (auto simp: same_table_def upd_flow_def map_update list_update_id intro: list_update_same_conv [THEN iffD2]
      simp flip: map_update) (metis list_update_id map_update list_update_beyond not_le length_map nth_map)

lemma same_table_log: "same_table p (log_append f bs p)"
  by (simp add: same_table_def)

lemma same_table_more [simp]:
  "same_table p (p\<lparr>px_reasm := r\<rparr>)" "same_table p (p\<lparr>px_nextFragID := w\<rparr>)" "same_table p (closeChannels p)"
  by (simp_all add: same_table_def closeChannels_def)

lemma same_table_writeFrameV2: "writeFrameV2 m b p = (ok, p') \<Longrightarrow> same_table p p'"
  using writeFrameV2_log same_table_log by blast

lemma same_table_frames: "write_frames fs p = (ok, p') \<Longrightarrow> same_table p p'"
proof (induction fs arbitrary: p)
  case (Cons fr fs)
  obtain m b ok1 p1 where "fr = (m, b)" "writeFrameV2 m b p = (ok1, p1)" by (metis surj_pair)
  with Cons same_table_writeFrameV2 [of m b p] show ?case
    by (auto split: if_splits intro: same_table_trans)
qed simp

lemma same_table_writeDatagram:
  assumes "writeDatagram f b p = (ok, p')"
  shows "same_table p p'"
proof (cases "px_fragEnabled p")
  case True
  with assms show ?thesis
    by (auto simp: writeDatagram_frag split: if_splits dest!: same_table_frames
        intro: same_table_trans [OF same_table_more(2)])
next
  case False
  with assms show ?thesis
    by (auto simp: writeDatagram_def writeFrame_def chan_write_def same_table_def Let_def split_beta split: if_splits)
qed

lemma same_table_accept: "accept_frame now m b p = (d, p') \<Longrightarrow> same_table p p'"
  by (auto simp: accept_frame_def touch_flow_def core_def simp flip: upd_flow_def
      split: if_splits option.splits prod.splits)

lemma same_table_load: "flow_load now f p = (a, p') \<Longrightarrow> same_table p p'"
  by (auto simp: flow_load_def core_def split: option.splits)

lemma same_table_uplink: "uplink_write a wr d p = (ok, p') \<Longrightarrow> same_table p p'"
  by (auto simp: uplink_write_def core_def split: if_splits)

lemma same_table_count: "same_table p (count_keepalive now a p)"
  by (simp add: count_keepalive_def core_def)


lemma flow_invI:
  assumes "distinct_keys (px_flows (sy_px s))"
    and "\<And>f a. table s f = Some a \<Longrightarrow> a < objs s \<and> fl_flowID (obj s a) = f \<and> \<not> fl_removed (obj s a) \<and>
      fl_open (obj s a) \<and> a \<in> sy_seen s \<and> a \<in> set (sy_pumps s)"
    and "\<And>a. a < objs s \<Longrightarrow> fl_open (obj s a) \<Longrightarrow>
      table s (fl_flowID (obj s a)) = Some a \<or> (\<exists>i f. publishing s i f a) \<or> a \<in> set (sy_closing s)"
    and "\<And>i f a. publishing s i f a \<Longrightarrow> a < objs s \<and> fl_flowID (obj s a) = f \<and> \<not> fl_removed (obj s a) \<and>
      fl_open (obj s a) \<and> a \<notin> sy_seen s"
    and "\<And>i j f f' a. publishing s i f a \<Longrightarrow> publishing s j f' a \<Longrightarrow> i = j"
    and "\<And>a. a \<in> sy_seen s \<Longrightarrow> a < objs s \<and> (fl_removed (obj s a) \<or> table s (fl_flowID (obj s a)) = Some a)"
    and "\<And>a. a \<in> set (sy_closing s) \<Longrightarrow> a \<in> sy_seen s \<and> fl_removed (obj s a)"
    and "set (sy_pumps s) \<subseteq> sy_seen s" "distinct (sy_pumps s)"
    and "\<And>i a d. reader_at s i (RWrite a d) \<Longrightarrow> a \<in> sy_seen s"
  shows "flow_inv s"
  unfolding flow_inv_def
  by (intro conjI; (((rule allI)+, (rule impI)+, rule assms, assumption+) | rule assms))

lemma flow_invD:
  assumes "flow_inv s"
  shows inv_keys: "distinct_keys (px_flows (sy_px s))"
    and inv_table: "\<And>f a. table s f = Some a \<Longrightarrow> a < objs s \<and> fl_flowID (obj s a) = f \<and> \<not> fl_removed (obj s a) \<and>
      fl_open (obj s a) \<and> a \<in> sy_seen s \<and> a \<in> set (sy_pumps s)"
    and inv_open: "\<And>a. a < objs s \<Longrightarrow> fl_open (obj s a) \<Longrightarrow>
      table s (fl_flowID (obj s a)) = Some a \<or> (\<exists>i f. publishing s i f a) \<or> a \<in> set (sy_closing s)"
    and inv_pub: "\<And>i f a. publishing s i f a \<Longrightarrow> a < objs s \<and> fl_flowID (obj s a) = f \<and> \<not> fl_removed (obj s a) \<and>
      fl_open (obj s a) \<and> a \<notin> sy_seen s"
    and inv_pub_unique: "\<And>i j f f' a. publishing s i f a \<Longrightarrow> publishing s j f' a \<Longrightarrow> i = j"
    and inv_seen: "\<And>a. a \<in> sy_seen s \<Longrightarrow> a < objs s \<and> (fl_removed (obj s a) \<or> table s (fl_flowID (obj s a)) = Some a)"
    and inv_closing: "\<And>a. a \<in> set (sy_closing s) \<Longrightarrow> a \<in> sy_seen s \<and> fl_removed (obj s a)"
    and inv_pumps: "set (sy_pumps s) \<subseteq> sy_seen s" "distinct (sy_pumps s)"
    and inv_writing: "\<And>i a d. reader_at s i (RWrite a d) \<Longrightarrow> a \<in> sy_seen s"
  using assms unfolding flow_inv_def by blast+

lemma flow_inv_same:
  assumes "flow_inv s" "same_table (sy_px s) p"
  shows "flow_inv (set_px p s)"
proof -
  have t: "table (set_px p s) = table s" using assms(2) by (simp add: table_def same_table_def)
  note n = same_table_nth [OF assms(2)]
  note D = flow_invD [OF assms(1)]
  show ?thesis
  proof (rule flow_invI, goal_cases)
    case 1
    then show ?case using D(1) assms(2) by (simp add: same_table_def)
  next
    case (2 f a)
    then show ?case using D(2) [of f a] n unfolding t by simp
  next
    case (3 a)
    then show ?case using D(3) [of a] n unfolding t by simp
  next
    case (4 i f a)
    then show ?case using D(4) [of i f a] n by simp
  next
    case (5 i j f f' a)
    then show ?case using D(5) [of i f a j f'] by simp
  next
    case (6 a)
    then show ?case using D(6) [of a] n unfolding t by simp
  next
    case (7 a)
    then show ?case using D(6,7) [of a] n by simp
  next
    case (10 i a d)
    then show ?case using D(10) [of i a d] by simp
  qed (use D in simp_all)
qed


lemma flow_inv_reader:
  assumes "flow_inv s" "i < length (sy_readers s)"
    and "\<And>f d a. sy_readers s ! i \<noteq> RPublish f d a" "\<And>f d a. r \<noteq> RPublish f d a"
    and "\<And>a d. r = RWrite a d \<Longrightarrow> a \<in> sy_seen s"
  shows "flow_inv (set_reader i r s)"
proof -
  let ?s = "set_reader i r s"
  have pub: "publishing ?s j f a \<longleftrightarrow> publishing s j f a" for j f a
    using assms(2-4) by (cases "j = i") (auto simp: set_reader_def)
  have wr: "reader_at ?s j (RWrite a d) \<Longrightarrow> a \<in> sy_seen s" for j a d
    using assms(2,5) inv_writing [OF assms(1), of j a d] by (cases "j = i") (auto simp: set_reader_def)
  have rest: "sy_px ?s = sy_px s" "sy_seen ?s = sy_seen s"
    "sy_pumps ?s = sy_pumps s" "sy_closing ?s = sy_closing s"
    by (simp_all add: set_reader_def)
  have t: "table ?s = table s" by (simp add: table_def rest)
  note D = flow_invD [OF assms(1)]
  show ?thesis
    by (rule flow_invI; (unfold rest pub t); (fact D | (drule wr, assumption) | (erule wr)))
qed

lemma table_upd [simp]:
  "table (s\<lparr>sy_main := m\<rparr>) = table s" "table (s\<lparr>sy_pumps := ps\<rparr>) = table s"
  "table (s\<lparr>sy_px := p\<rparr>) = map_of (px_flows p)" "table (set_reader i r s) = table s"
  "table (s\<lparr>sy_seen := x\<rparr>) = table s" "table (s\<lparr>sy_closing := c\<rparr>) = table s"
  by (simp_all add: table_def set_reader_def)

lemma flow_inv_cong:
  assumes "sy_px s' = sy_px s" "sy_readers s' = sy_readers s" "sy_pumps s' = sy_pumps s"
    "sy_closing s' = sy_closing s" "sy_seen s' = sy_seen s"
  shows "flow_inv s' = flow_inv s"
  unfolding flow_inv_def table_def assms by (rule refl)

lemma flow_inv_main: "flow_inv s \<Longrightarrow> flow_inv (s\<lparr>sy_main := m\<rparr>)"
  using flow_inv_cong [of "s\<lparr>sy_main := m\<rparr>" s] by simp

lemma upd_flow_sel [simp]:
  "length (px_heap (upd_flow a g p)) = length (px_heap p)" "px_flows (upd_flow a g p) = px_flows p"
  "a < length (px_heap p) \<Longrightarrow> px_heap (upd_flow a g p) ! b = (if b = a then g (flow_at p a) else flow_at p b)"
  by (simp_all add: upd_flow_def)

lemma not_removed_in_table:
  "flow_inv s \<Longrightarrow> fl_removed (obj s a) \<Longrightarrow> table s f \<noteq> Some a"
  using inv_table by blast

lemma socket_close_sel [simp]:
  "length (px_heap (socket_close a p)) = length (px_heap p)" "px_flows (socket_close a p) = px_flows p"
  "a < length (px_heap p) \<Longrightarrow> px_heap (socket_close a p) ! b =
     (if b = a then (flow_at p a)\<lparr>fl_open := False\<rparr> else flow_at p b)"
  by (simp_all add: socket_close_def)

text \<open>Removing a flow, with its pump ending at the same time or not.\<close>

lemma flow_inv_remove:
  assumes inv: "flow_inv s" and a: "a \<in> sy_seen s"
    and ps: "ps = sy_pumps s \<or> ps = remove1 a (sy_pumps s)"
  shows "flow_inv (sys_remove a (s\<lparr>sy_pumps := ps\<rparr>))"
proof -
  note D = flow_invD [OF inv]
  have an [simp]: "a < objs s" using D(6) [OF a] by simp
  have pumps: "set ps \<subseteq> sy_seen s" "distinct ps" and keep: "\<And>b. b \<in> set (sy_pumps s) \<Longrightarrow> b \<noteq> a \<Longrightarrow> b \<in> set ps"
    using D(8,9) ps by auto
  show ?thesis
  proof (cases "fl_removed (obj s a)")
    case True
    then have s': "sys_remove a (s\<lparr>sy_pumps := ps\<rparr>) = s\<lparr>sy_pumps := ps\<rparr>"
      by (simp add: sys_remove_def remove_delete_def)
    have "table s f = Some b \<Longrightarrow> b \<in> set ps" for f b
      using keep D(2) [of f b] not_removed_in_table [OF inv True, of f] by blast
    with D pumps show ?thesis unfolding s' by (intro flow_invI) (simp_all, blast+)
  next
    case False
    let ?f = "fl_flowID (obj s a)"
    let ?q = "(upd_flow a (\<lambda>f. f\<lparr>fl_removed := True\<rparr>) (sy_px s))\<lparr>px_flows := AList.delete ?f (px_flows (sy_px s))\<rparr>"
    let ?s = "s\<lparr>sy_px := ?q, sy_pumps := ps, sy_closing := a # sy_closing s\<rparr>"
    have s': "sys_remove a (s\<lparr>sy_pumps := ps\<rparr>) = ?s"
      using False by (simp add: sys_remove_def remove_delete_def)
    have obj: "obj ?s b = (if b = a then (obj s a)\<lparr>fl_removed := True\<rparr> else obj s b)" "objs ?s = objs s" for b
      using an by simp_all
    have t: "table ?s g = (if g = ?f then None else table s g)" for g
      by (simp add: table_def store_simps)
    have own: "table s ?f = Some a" using D(6) [OF a] False by simp
    show ?thesis unfolding s'
    proof (rule flow_invI, goal_cases)
      case 1
      then show ?case using D(1) by (simp add: distinct_delete)
    next
      case (2 g b)
      then have gb: "table s g = Some b" "g \<noteq> ?f" unfolding t by (auto split: if_splits)
      with D(2) [OF gb(1)] have "b \<noteq> a" by auto
      with D(2) [OF gb(1)] keep [of b] show ?case by (simp add: obj)
    next
      case (3 b)
      then have "b < objs s" "fl_open (obj s b)" by (auto simp: obj split: if_splits)
      from D(3) [OF this] own show ?case by (auto simp: obj table_def store_simps split: if_splits)
    next
      case (4 i g b)
      then have "publishing s i g b" by simp
      from D(4) [OF this] a show ?case by (auto simp: obj)
    next
      case (5 i j g g' b)
      then show ?case using D(5) [of i g b j g'] by simp
    next
      case (6 b)
      then show ?case using D(6) [of b] own by (auto simp: obj table_def store_simps)
    next
      case (7 b)
      then show ?case using D(7) [of b] a by (auto simp: obj)
    next
      case (10 i b d)
      then show ?case using D(10) [of i b d] by simp
    qed (use pumps in simp_all)
  qed
qed

lemma flow_inv_close:
  assumes inv: "flow_inv s" and a: "a \<in> set (sy_closing s)"
  shows "flow_inv (s\<lparr>sy_px := socket_close a (sy_px s), sy_closing := remove1 a (sy_closing s)\<rparr>)"
proof -
  note D = flow_invD [OF inv]
  let ?s = "s\<lparr>sy_px := socket_close a (sy_px s), sy_closing := remove1 a (sy_closing s)\<rparr>"
  have an: "a < objs s" "fl_removed (obj s a)" "a \<in> sy_seen s" using D(7) [OF a] D(6) by auto
  note [simp] = an(1)
  have obj: "obj ?s b = (if b = a then (obj s a)\<lparr>fl_open := False\<rparr> else obj s b)" "objs ?s = objs s" for b
    using an by (simp_all add: socket_close_def)
  have t: "table ?s = table s" by (simp add: table_def socket_close_def)
  have clos: "b \<in> set (remove1 a (sy_closing s)) \<Longrightarrow> b \<in> set (sy_closing s)" for b
    using notin_set_remove1 by metis
  show ?thesis
  proof (rule flow_invI, goal_cases)
    case 1
    then show ?case using D(1) by (simp add: socket_close_def)
  next
    case (2 g b)
    then have gb: "table s g = Some b" unfolding t .
    then have "b \<noteq> a" using not_removed_in_table [OF inv an(2)] by blast
    with D(2) [OF gb] show ?case by (simp add: obj)
  next
    case (3 b)
    then have b: "b \<noteq> a" "b < objs s" "fl_open (obj s b)" by (auto simp: obj split: if_splits)
    from D(3) [OF b(2,3)] b(1) show ?case by (auto simp: obj table_def)
  next
    case (4 i g b)
    then have "publishing s i g b" by simp
    from D(4) [OF this] an show ?case by (auto simp: obj)
  next
    case (5 i j g g' b)
    then show ?case using D(5) [of i g b j g'] by simp
  next
    case (6 b)
    then show ?case using D(6) [of b] by (auto simp: obj table_def)
  next
    case (7 b)
    then show ?case using D(7) [of b] clos [of b] by (auto simp: obj)
  next
    case (10 i b d)
    then show ?case using D(10) [of i b d] by simp
  qed (use D(8,9) in simp_all)
qed


lemma set_reader_sel [simp]:
  "sy_px (set_reader i r s) = sy_px s" "sy_seen (set_reader i r s) = sy_seen s"
  "sy_pumps (set_reader i r s) = sy_pumps s" "sy_closing (set_reader i r s) = sy_closing s"
  "sy_readers (set_reader i r s) = (sy_readers s)[i := r]" "sy_main (set_reader i r s) = sy_main s"
  by (simp_all add: set_reader_def)

text \<open>A new flow object that a reader holds and has not published.\<close>

lemma flow_inv_alloc:
  assumes inv: "flow_inv s" and i: "reader_at s i (RDial f d)" and al: "flow_alloc now f (sy_px s) = (a, p)"
  shows "flow_inv (set_reader i (RPublish f d a) (set_px p s))"
proof -
  note D = flow_invD [OF inv]
  let ?s = "set_reader i (RPublish f d a) (set_px p s)"
  have a: "a = objs s" and p: "p = (sy_px s)\<lparr>px_heap := px_heap (sy_px s) @ [new_flow now f]\<rparr>"
    using al by (simp_all add: flow_alloc_def)
  have obj: "obj ?s b = (if b = a then new_flow now f else obj s b)" if "b < objs ?s" for b
    using that by (auto simp: p a nth_append)
  have len: "length (px_heap p) = Suc (objs s)" by (simp add: p)
  then have objs: "objs ?s = Suc (objs s)" by simp
  have t: "table ?s = table s" by (simp add: table_def p)
  have pub: "publishing ?s j g b \<longleftrightarrow> (if j = i then g = f \<and> b = a else publishing s j g b)" for j g b
    using i by auto
  have new: "fl_flowID (new_flow now f) = f" "\<not> fl_removed (new_flow now f)" "fl_open (new_flow now f)"
    by (simp_all add: new_flow_def)
  have fresh: "a \<notin> sy_seen s" using D(6) [of a] a by auto
  have old: "publishing s j g b \<Longrightarrow> b \<noteq> a" for j g b using D(4) [of j g b] a by auto
  show ?thesis
  proof (rule flow_invI, goal_cases)
    case 1
    then show ?case using D(1) by (simp add: p)
  next
    case (2 g b)
    then have b: "table s g = Some b" unfolding t .
    from D(2) [OF this] have "b < objs ?s" "b \<noteq> a" by (simp_all add: len a)
    with D(2) [OF b] obj [of b] objs show ?case by simp
  next
    case (3 b)
    show ?case
    proof (cases "b = a")
      case True
      have "publishing ?s i f a" unfolding pub by simp
      with True show ?thesis by blast
    next
      case False
      then have "b < objs s" "fl_open (obj s b)" using 3 obj [of b] by (simp_all add: len a)
      from D(3) [OF this] have "table s (fl_flowID (obj s b)) = Some b \<or> (\<exists>j g. publishing ?s j g b) \<or> b \<in> set (sy_closing s)"
        using i unfolding pub by (metis reader.distinct(19))
      then show ?thesis using False obj [of b] 3(1) unfolding t by simp
    qed
  next
    case (4 j g b)
    show ?case
    proof (cases "j = i")
      case True
      with 4 have "g = f" "b = a" unfolding pub by simp_all
      then show ?thesis using obj [of a] new fresh objs a by simp
    next
      case False
      with 4 have "publishing s j g b" unfolding pub by simp
      with D(4) [OF this] obj [of b] old [OF this] show ?thesis unfolding objs by simp
    qed
  next
    case (5 j k g g' b)
    then show ?case using D(5) [of j g b k g'] old [of j g b] old [of k g' b] unfolding pub
      by (metis (full_types))
  next
    case (6 b)
    then have "b \<in> sy_seen s" by simp
    with D(6) [OF this] fresh obj [of b] show ?case unfolding objs t by auto
  next
    case (7 b)
    then have "b \<in> set (sy_closing s)" by simp
    with D(7) [OF this] D(6) [of b] fresh obj [of b] show ?case unfolding objs by auto
  next
    case (10 j b e)
    then show ?case using D(10) [of j b e] by (cases "j = i") auto
  qed (use D(8,9) in simp_all)
qed


text \<open>A publication that wins: the flow is in the table and its pump starts.\<close>

lemma flow_inv_publish_new:
  assumes inv: "flow_inv s" and i: "reader_at s i (RPublish f d a)"
    and pb: "flow_publish f a (sy_px s) = ((a', True), p)"
  shows "flow_inv (set_reader i (RWrite a' d)
    (s\<lparr>sy_px := p, sy_pumps := a' # sy_pumps s, sy_seen := insert a' (sy_seen s)\<rparr>))"
proof -
  note D = flow_invD [OF inv]
  have a: "a' = a" and none: "table s f = None"
    and p: "p = (sy_px s)\<lparr>px_flows := AList.update f a (px_flows (sy_px s))\<rparr>"
    using pb by (auto simp: flow_publish_def table_def split: option.splits)
  let ?s = "set_reader i (RWrite a' d) (s\<lparr>sy_px := p, sy_pumps := a' # sy_pumps s, sy_seen := insert a' (sy_seen s)\<rparr>)"
  have own: "publishing s i f a" using i by simp
  note A = D(4) [OF own]
  have t: "table ?s g = (if g = f then Some a else table s g)" for g
    by (simp add: table_def p store_simps)
  have obj: "px_heap p = px_heap (sy_px s)" by (simp add: p)
  have pub: "publishing ?s j g b \<longleftrightarrow> j \<noteq> i \<and> publishing s j g b" for j g b
    using i by (cases "j = i") auto
  have other: "publishing s j g b \<Longrightarrow> j \<noteq> i \<Longrightarrow> b \<noteq> a" for j g b
    using D(5) [of j g b i f] own by blast
  have nopump: "a \<notin> set (sy_pumps s)" using A D(8) by auto
  show ?thesis
  proof (rule flow_invI, goal_cases)
    case 1
    then show ?case using D(1) by (simp add: p distinct_update)
  next
    case (2 g b)
    show ?case
    proof (cases "g = f")
      case True
      with 2 have "b = a" unfolding t by simp
      with True A show ?thesis by (simp add: obj a)
    next
      case False
      with 2 have "table s g = Some b" unfolding t by simp
      from D(2) [OF this] show ?thesis by (simp add: obj)
    qed
  next
    case (3 b)
    then have b: "b < objs s" "fl_open (obj s b)" by (simp_all add: obj)
    from D(3) [OF this] consider "table s (fl_flowID (obj s b)) = Some b" | j g where "publishing s j g b" "j \<noteq> i"
      | "b = a" | "b \<in> set (sy_closing s)"
      using own D(4) by (metis i reader.inject(3))
    then show ?case
    proof cases
      case 1
      then have "fl_flowID (obj s b) \<noteq> f" using none by auto
      with 1 show ?thesis unfolding t by (simp add: obj)
    next
      case 2
      then have "publishing ?s j g b" unfolding pub by simp
      then show ?thesis by blast
    next
      case 3
      with A show ?thesis unfolding t by (simp add: obj)
    qed simp
  next
    case (4 j g b)
    then have jb: "publishing s j g b" "j \<noteq> i" unfolding pub by simp_all
    from D(4) [OF jb(1)] other [OF jb] show ?case by (simp add: obj a)
  next
    case (5 j k g g' b)
    then show ?case using D(5) [of j g b k g'] unfolding pub by blast
  next
    case (6 b)
    show ?case
    proof (cases "b = a")
      case True
      with A show ?thesis unfolding t by (simp add: obj)
    next
      case False
      with 6 have "b \<in> sy_seen s" by (simp add: a)
      from D(6) [OF this] none show ?thesis unfolding t by (auto simp: obj)
    qed
  next
    case (7 b)
    then have "b \<in> set (sy_closing s)" by simp
    from D(7) [OF this] show ?case by (simp add: obj)
  next
    case 8
    then show ?case using D(8) by auto
  next
    case 9
    then show ?case using D(9) nopump by (simp add: a)
  next
    case (10 j b e)
    then show ?case using D(10) [of j b e] by (cases "j = i") auto
  qed
qed

text \<open>A publication that loses: the new socket is closed at once.\<close>

lemma flow_inv_publish_lost:
  assumes inv: "flow_inv s" and i: "reader_at s i (RPublish f d a)"
    and pb: "flow_publish f a (sy_px s) = ((a', False), p)"
  shows "flow_inv (set_reader i (RWrite a' d) (set_px p s))"
proof -
  note D = flow_invD [OF inv]
  have p: "p = socket_close a (sy_px s)" and a': "table s f = Some a'"
    using pb by (auto simp: flow_publish_def table_def split: option.splits)
  let ?s = "set_reader i (RWrite a' d) (set_px p s)"
  have own: "publishing s i f a" using i by simp
  note A = D(4) [OF own]
  have [simp]: "a < objs s" using A by simp
  have t: "table ?s = table s" by (simp add: table_def p)
  have objs: "length (px_heap p) = objs s" by (simp add: p)
  have obj: "px_heap p ! b = (if b = a then (obj s a)\<lparr>fl_open := False\<rparr> else obj s b)" for b by (simp add: p)
  have pub: "publishing ?s j g b \<longleftrightarrow> j \<noteq> i \<and> publishing s j g b" for j g b
    using i by (cases "j = i") auto
  have other: "publishing s j g b \<Longrightarrow> j \<noteq> i \<Longrightarrow> b \<noteq> a" for j g b
    using D(5) [of j g b i f] own by blast
  have seen: "b \<in> sy_seen s \<Longrightarrow> b \<noteq> a" for b using A by auto
  show ?thesis
  proof (rule flow_invI, goal_cases)
    case 1
    then show ?case using D(1) by (simp add: p)
  next
    case (2 g b)
    then have "table s g = Some b" unfolding t .
    from D(2) [OF this] seen show ?case by (auto simp: obj objs)
  next
    case (3 b)
    then have b: "b \<noteq> a" "b < objs s" "fl_open (obj s b)" by (auto simp: obj objs split: if_splits)
    from D(3) [OF b(2,3)] consider "table s (fl_flowID (obj s b)) = Some b" | j g where "publishing s j g b" "j \<noteq> i"
      | "b \<in> set (sy_closing s)"
      using b(1) by (metis i reader.inject(3))
    then show ?case
    proof cases
      case 1
      with b(1) show ?thesis unfolding t by (simp add: obj)
    next
      case 2
      then have "publishing ?s j g b" unfolding pub by simp
      then show ?thesis by blast
    qed simp
  next
    case (4 j g b)
    then have jb: "publishing s j g b" "j \<noteq> i" unfolding pub by simp_all
    from D(4) [OF jb(1)] other [OF jb] show ?case by (simp add: obj objs)
  next
    case (5 j k g g' b)
    then show ?case using D(5) [of j g b k g'] unfolding pub by blast
  next
    case (6 b)
    then have "b \<in> sy_seen s" by simp
    from D(6) [OF this] seen [OF this] show ?case unfolding t by (simp add: obj objs)
  next
    case (7 b)
    then have "b \<in> set (sy_closing s)" by simp
    from D(7) [OF this] show ?case by (auto simp: obj)
  next
    case (10 j b e)
    then show ?case using D(10) [of j b e] D(2) [OF a'] by (cases "j = i") auto
  qed (use D(8,9) in simp_all)
qed


theorem px_step_inv: "px_step s s' \<Longrightarrow> flow_inv s \<Longrightarrow> flow_inv s'"
proof (induction rule: px_step.induct)
  case (load_hit s i f d now a p)
  then have "table s f = Some a" by (auto simp: flow_load_def table_def split: option.splits)
  with load_hit show ?case
    by (intro flow_inv_reader flow_inv_same same_table_load [of now f "sy_px s" "Some a"]) (auto dest: inv_table)
next
  case (write_fail s i a d wr p)
  then have a: "a \<in> sy_seen s" using inv_writing by blast
  have "flow_inv (sys_remove a (s\<lparr>sy_pumps := sy_pumps s\<rparr>))"
    by (rule flow_inv_remove [OF write_fail(4) a]) simp
  moreover have "sy_readers (sys_remove a s) = sy_readers s"
    by (simp add: sys_remove_def split: prod.splits bool.splits)
  ultimately show ?case using write_fail(1) by (intro flow_inv_reader) auto
next
  case (pump_broken a s d p)
  then have "flow_inv (set_px p s)" using flow_inv_same same_table_writeDatagram by blast
  moreover have "a \<in> sy_seen s" using pump_broken inv_pumps by blast
  ultimately show ?case using flow_inv_remove [of "set_px p s" a "remove1 a (sy_pumps s)"] by simp
next
  case (pump_error a s)
  then have "a \<in> sy_seen s" using inv_pumps by blast
  with pump_error show ?case by (intro flow_inv_remove) auto
next
  case (close a s)
  then show ?case by (intro flow_inv_close)
next
  case (sweep a s deadline)
  then show ?case using flow_inv_remove [of s a "sy_pumps s"] by simp
next
  case (keepalive a s m p now)
  then show ?case
    using flow_inv_same same_table_trans [OF same_table_writeFrameV2 same_table_count] by blast
next
  case (keepalive_broken a s m p)
  then have "flow_inv (set_px p s)" using flow_inv_same same_table_writeFrameV2 by blast
  with keepalive_broken show ?case using flow_inv_remove [of "set_px p s" a "sy_pumps s"] by simp
next
  case (shutdown s)
  then show ?case using flow_inv_main flow_inv_same same_table_more(3) by blast
next
  case (range_visit s ks a)
  then show ?case
    using flow_inv_remove [OF flow_inv_main, of s a _ "sy_pumps s"] by simp
next
  case (publish_new s i f d a a' p)
  then show ?case by (intro flow_inv_publish_new)
next
  case (publish_lost s i f d a a' p)
  then show ?case by (intro flow_inv_publish_lost)
next
  case (dial_ok s i f d now a p)
  then show ?case by (intro flow_inv_alloc)
qed (auto intro!: flow_inv_reader flow_inv_same flow_inv_main dest: same_table_accept same_table_load
    same_table_uplink same_table_writeDatagram)

lemma px_reach_inv: "px_reach p0 s \<Longrightarrow> flow_inv s"
proof (induction rule: px_reach.induct)
  case init
  then show ?case by (intro flow_invI) (auto simp: sys_init_def table_def)
next
  case (step s s')
  then show ?case using px_step_inv by blast
qed


section \<open>Shutdown\<close>

text \<open>
  When the read loops have all ended, what is in the table is on the list that \<open>closeAll\<close> has
  still to visit, until nothing is left.
\<close>

definition drains :: "udpSys \<Rightarrow> bool" where
  "drains s \<longleftrightarrow> (\<forall>r\<in>set (sy_readers s). r = RDone) \<and>
     (case sy_main s of
        MRunning \<Rightarrow> True
      | MClosing ks \<Rightarrow> \<forall>f a. table s f = Some a \<longrightarrow> f \<in> set ks
      | MVisit ks b \<Rightarrow> \<forall>f a. table s f = Some a \<longrightarrow> f \<in> set ks \<or> a = b
      | MStopped \<Rightarrow> \<forall>f. table s f = None)"

lemma sys_remove_sel [simp]:
  "sy_readers (sys_remove a s) = sy_readers s" "sy_main (sys_remove a s) = sy_main s"
  "sy_pumps (sys_remove a s) = sy_pumps s" "sy_seen (sys_remove a s) = sy_seen s"
  by (simp_all add: sys_remove_def split: prod.splits bool.splits)

lemma sys_remove_table:
  "table (sys_remove a s) f = Some b \<Longrightarrow> table s f = Some b"
  by (auto simp: sys_remove_def remove_delete_def table_def store_simps split: if_splits)

lemma sys_remove_gone:
  assumes "flow_inv s" "a \<in> sy_seen s"
  shows "table (sys_remove a s) f \<noteq> Some a"
  using flow_inv_remove [OF assms, of "sy_pumps s"] inv_table [of "sys_remove a s" f a] assms
    inv_seen [OF assms]
  by (auto simp: sys_remove_def remove_delete_def table_def store_simps split: if_splits)

lemma drains_mono:
  assumes "drains s" "sy_readers s' = sy_readers s" "sy_main s' = sy_main s"
    "\<And>f b. table s' f = Some b \<Longrightarrow> table s f = Some b"
  shows "drains s'"
  using assms unfolding drains_def by (auto split: main_state.splits) (metis not_None_eq)

lemma done_reader: "\<forall>r\<in>set (sy_readers s). r = RDone \<Longrightarrow> reader_at s i r \<Longrightarrow> r = RDone"
  by (metis nth_mem)

lemma drains_step:
  assumes "px_step s s'" "drains s" "flow_inv s"
  shows "drains s'"
  using assms
proof (induction rule: px_step.induct)
  case (shutdown s)
  then show ?case by (auto simp: drains_def table_def closeChannels_def dest: map_of_SomeD intro: rev_image_eqI)
next
  case (range_next s ks f a)
  then show ?case by (auto simp: drains_def table_def)
next
  case (range_visit s ks a)
  let ?s = "s\<lparr>sy_main := MClosing ks\<rparr>"
  have "flow_inv ?s" "a \<in> sy_seen ?s" using range_visit flow_inv_main by auto
  note gone = sys_remove_gone [OF this]
  have "f \<in> set ks" if t: "table (sys_remove a ?s) f = Some b" for f b
  proof -
    have "table s f = Some b" "b \<noteq> a" using sys_remove_table [OF t] gone [of f] t by auto
    with range_visit show ?thesis by (auto simp: drains_def)
  qed
  with range_visit show ?case by (auto simp: drains_def)
next
  case (range_gone s ks f)
  then show ?case by (auto simp: drains_def table_def)
next
  case (stop s)
  then show ?case by (auto simp: drains_def)
next
  case (pump_data a s d p)
  have "px_flows p = px_flows (sy_px s)"
    using same_table_writeDatagram [OF pump_data(2)] by (simp add: same_table_def)
  with pump_data(3) show ?case by - (erule drains_mono, simp_all add: table_def)
next
  case (pump_broken a s d p)
  have p: "px_flows p = px_flows (sy_px s)"
    using same_table_writeDatagram [OF pump_broken(2)] by (simp add: same_table_def)
  from pump_broken(3) show ?case
    by - (erule drains_mono, simp, simp, drule sys_remove_table, simp add: table_def p)
next
  case (pump_error a s)
  then show ?case by - (erule drains_mono, auto dest: sys_remove_table)
next
  case (close a s)
  then show ?case by - (erule drains_mono, auto simp: table_def)
next
  case (sweep a s deadline)
  then show ?case by - (erule drains_mono, auto dest: sys_remove_table)
next
  case (reasm_sweep s now)
  then show ?case by - (erule drains_mono, auto simp: table_def)
next
  case (keepalive a s m p now)
  have "px_flows p = px_flows (sy_px s)"
    using same_table_writeFrameV2 [OF keepalive(4)] by (simp add: same_table_def)
  with keepalive(5) show ?case by - (erule drains_mono, simp_all add: table_def count_keepalive_def)
next
  case (keepalive_broken a s m p)
  have p: "px_flows p = px_flows (sy_px s)"
    using same_table_writeFrameV2 [OF keepalive_broken(3)] by (simp add: same_table_def)
  from keepalive_broken(4) show ?case
    by - (erule drains_mono, simp, simp, drule sys_remove_table, simp add: table_def p)
qed (auto simp: drains_def dest: done_reader)


lemma drains_steps:
  assumes "px_step\<^sup>*\<^sup>* s s'" "drains s" "flow_inv s"
  shows "drains s' \<and> flow_inv s'"
  using assms(1)
proof (induction rule: rtranclp_induct)
  case (step t u)
  then show ?case using drains_step px_step_inv by blast
qed (simp add: assms)


section \<open>Keepalives\<close>

definition keepalives_ok :: "udpProxy \<Rightarrow> bool" where
  "keepalives_ok p \<longleftrightarrow> list_all (\<lambda>f. fl_keepalives f \<le> udpFlowKeepaliveMax) (px_heap p)"

lemma keepalives_upd:
  assumes "keepalives_ok p" "a < length (px_heap p) \<Longrightarrow> fl_keepalives (g (flow_at p a)) \<le> udpFlowKeepaliveMax"
  shows "keepalives_ok (upd_flow a g p)"
  using assms by (cases "a < length (px_heap p)")
    (auto simp: keepalives_ok_def list_all_length upd_flow_def nth_list_update list_update_beyond)

lemma keepalives_heap: "keepalives_ok p \<Longrightarrow> px_heap p' = px_heap p \<Longrightarrow> keepalives_ok p'"
  by (simp add: keepalives_ok_def)

lemma keepalives_nth: "keepalives_ok p \<Longrightarrow> a < length (px_heap p) \<Longrightarrow> fl_keepalives (flow_at p a) \<le> udpFlowKeepaliveMax"
  by (simp add: keepalives_ok_def list_all_length)

lemma heap_writeFrameV2: "writeFrameV2 m b p = (ok, p') \<Longrightarrow> px_heap p' = px_heap p"
  using writeFrameV2_log by fastforce

lemma heap_write_frames: "write_frames fs p = (ok, p') \<Longrightarrow> px_heap p' = px_heap p"
  by (induction fs arbitrary: p) (auto split: if_splits prod.splits dest: heap_writeFrameV2)

lemma heap_writeDatagram: "writeDatagram f b p = (ok, p') \<Longrightarrow> px_heap p' = px_heap p"
proof (cases "px_fragEnabled p")
  case True
  then show "writeDatagram f b p = (ok, p') \<Longrightarrow> ?thesis"
    by (auto simp: writeDatagram_frag dest!: heap_write_frames split: if_splits)
next
  case False
  then show "writeDatagram f b p = (ok, p') \<Longrightarrow> ?thesis"
    by (auto simp: writeDatagram_def writeFrame_def chan_write_def Let_def split_beta split: if_splits)
qed

lemma idle_write_frames: "write_frames fs p = (ok, p') \<Longrightarrow> px_idleTimeout p' = px_idleTimeout p"
  by (induction fs arbitrary: p)
    (auto simp: log_append_def split: if_splits prod.splits option.splits dest!: writeFrameV2_log)

lemma idle_writeDatagram: "writeDatagram f b p = (ok, p') \<Longrightarrow> px_idleTimeout p' = px_idleTimeout p"
proof (cases "px_fragEnabled p")
  case True
  then show "writeDatagram f b p = (ok, p') \<Longrightarrow> ?thesis"
    by (auto simp: writeDatagram_frag dest!: idle_write_frames split: if_splits)
next
  case False
  then show "writeDatagram f b p = (ok, p') \<Longrightarrow> ?thesis"
    by (auto simp: writeDatagram_def writeFrame_def chan_write_def Let_def split_beta split: if_splits)
qed

lemma keepalives_accept: "keepalives_ok p \<Longrightarrow> accept_frame now m b p = (d, p') \<Longrightarrow> keepalives_ok p'"
  by (auto simp: accept_frame_def touch_flow_def simp flip: upd_flow_def split: if_splits option.splits prod.splits
      intro!: keepalives_upd keepalives_nth elim: keepalives_heap)

lemma keepalives_remove: "keepalives_ok (sy_px s) \<Longrightarrow> keepalives_ok (sy_px (sys_remove a s))"
proof -
  assume k: "keepalives_ok (sy_px s)"
  have "keepalives_ok (upd_flow a (\<lambda>f. f\<lparr>fl_removed := True\<rparr>) (sy_px s))"
    using k by (intro keepalives_upd) (auto intro: keepalives_nth)
  with k show ?thesis
    by (auto simp: sys_remove_def remove_delete_def intro: keepalives_heap)
qed

lemma keepalives_step: "px_step s s' \<Longrightarrow> keepalives_ok (sy_px s) \<Longrightarrow> keepalives_ok (sy_px s')"
proof (induction rule: px_step.induct)
  case (load_hit s i f d now a p)
  then show ?case
    by (auto simp: flow_load_def split: option.splits intro!: keepalives_upd keepalives_nth)
next
  case (dial_ok s i f d now a p)
  then show ?case
    by (auto simp: flow_alloc_def new_flow_def keepalives_ok_def)
next
  case (publish_new s i f d a a' p)
  then show ?case by (auto simp: flow_publish_def keepalives_ok_def split: option.splits)
next
  case (publish_lost s i f d a a' p)
  then show ?case
    by (auto simp: flow_publish_def socket_close_def split: option.splits intro!: keepalives_upd keepalives_nth)
next
  case (write_ok s i a d wr p)
  then show ?case by (auto simp: uplink_write_def split: if_splits intro!: keepalives_upd keepalives_nth)
next
  case (pump_data a s d p)
  then show ?case using heap_writeDatagram keepalives_heap by fastforce
next
  case (pump_broken a s d p)
  then have "keepalives_ok p" using heap_writeDatagram keepalives_heap by blast
  then show ?case by (intro keepalives_remove) simp
next
  case (close a s)
  then show ?case by (auto simp: socket_close_def intro!: keepalives_upd keepalives_nth)
next
  case (keepalive a s m p now)
  then have p: "px_heap p = px_heap (sy_px s)" using heap_writeFrameV2 by blast
  then have "keepalives_ok p" using keepalive keepalives_heap by blast
  with keepalive p show ?case by (auto simp: count_keepalive_def intro!: keepalives_upd)
next
  case (keepalive_broken a s m p)
  then have "keepalives_ok p" using heap_writeFrameV2 keepalives_heap by blast
  then show ?case by (intro keepalives_remove) simp
next
  case (shutdown s)
  then show ?case by (auto simp: closeChannels_def keepalives_ok_def)
qed (auto intro: keepalives_accept keepalives_remove simp: keepalives_heap)


section \<open>The sweep as a function\<close>

definition flows_wf :: "udpProxy \<Rightarrow> bool" where
  "flows_wf p \<longleftrightarrow> distinct_keys (px_flows p) \<and>
     (\<forall>f a. map_of (px_flows p) f = Some a \<longrightarrow>
        a < length (px_heap p) \<and> fl_flowID (flow_at p a) = f \<and> \<not> fl_removed (flow_at p a))"

lemma flow_remove_table:
  assumes "flows_wf p" "map_of (px_flows p) f = Some a"
  shows "map_of (px_flows (flow_remove a p)) g = (if g = f then None else map_of (px_flows p) g)"
    "fl_lastSeen (flow_at (flow_remove a p) b) = fl_lastSeen (flow_at p b)"
    "flows_wf (flow_remove a p)" "fl_open (flow_at (flow_remove a p) a) = False"
proof -
  have a [simp]: "a < length (px_heap p)" "fl_flowID (flow_at p a) = f" "\<not> fl_removed (flow_at p a)"
    using assms by (auto simp: flows_wf_def)
  show t: "map_of (px_flows (flow_remove a p)) g = (if g = f then None else map_of (px_flows p) g)" for g
    by (simp add: flow_remove_def remove_delete_def store_simps)
  show "fl_lastSeen (flow_at (flow_remove a p) b) = fl_lastSeen (flow_at p b)"
    "fl_open (flow_at (flow_remove a p) a) = False"
    by (simp_all add: flow_remove_def remove_delete_def)
  have "distinct_keys (px_flows (flow_remove a p))"
    using assms(1) by (simp add: flow_remove_def remove_delete_def flows_wf_def distinct_delete)
  moreover have "c < length (px_heap (flow_remove a p)) \<and> fl_flowID (flow_at (flow_remove a p) c) = h \<and>
      \<not> fl_removed (flow_at (flow_remove a p) c)" if "map_of (px_flows (flow_remove a p)) h = Some c" for h c
  proof -
    from that have h: "map_of (px_flows p) h = Some c" "h \<noteq> f" unfolding t by (auto split: if_splits)
    then have c: "c < length (px_heap p)" "fl_flowID (flow_at p c) = h" "\<not> fl_removed (flow_at p c)"
      using assms(1) unfolding flows_wf_def by blast+
    moreover have "c \<noteq> a" using c(2) h(2) a(2) by blast
    ultimately show ?thesis by (simp add: flow_remove_def remove_delete_def)
  qed
  ultimately show "flows_wf (flow_remove a p)" by (simp add: flows_wf_def)
qed

text \<open>A \<open>Range\<close> over entries of the table that removes those that satisfy a condition on \<open>lastSeen\<close>.\<close>

definition visit :: "(instant \<Rightarrow> bool) \<Rightarrow> nat \<Rightarrow> udpProxy \<Rightarrow> udpProxy" where
  "visit P a p = (if P (fl_lastSeen (flow_at p a)) then flow_remove a p else p)"

lemma fold_visit:
  assumes "flows_wf p" "distinct_keys xs" "\<forall>(k, a) \<in> set xs. map_of (px_flows p) k = Some a"
  shows "flows_wf (fold (\<lambda>(k, a). visit P a) xs p) \<and>
    map_of (px_flows (fold (\<lambda>(k, a). visit P a) xs p)) f =
      (case map_of xs f of None \<Rightarrow> map_of (px_flows p) f
       | Some a \<Rightarrow> if P (fl_lastSeen (flow_at p a)) then None else Some a)"
  using assms
proof (induction xs arbitrary: p)
  case (Cons x xs)
  obtain k a where x: "x = (k, a)" by (cases x)
  have k: "map_of (px_flows p) k = Some a" using Cons.prems(3) x by simp
  note R = flow_remove_table [OF Cons.prems(1) k]
  let ?p = "visit P a p"
  have seen: "fl_lastSeen (flow_at ?p b) = fl_lastSeen (flow_at p b)" for b by (simp add: visit_def R)
  have tab: "map_of (px_flows ?p) g = (if g = k \<and> P (fl_lastSeen (flow_at p a)) then None else map_of (px_flows p) g)" for g
    by (simp add: visit_def R)
  have kx: "k \<notin> fst ` set xs" using Cons.prems(2) x by simp
  have "flows_wf ?p" using Cons.prems(1) R by (simp add: visit_def)
  moreover have "\<forall>(k', a') \<in> set xs. map_of (px_flows ?p) k' = Some a'"
  proof clarify
    fix k' a' assume "(k', a') \<in> set xs"
    with Cons.prems(3) kx have "map_of (px_flows p) k' = Some a'" "k' \<noteq> k" by force+
    then show "map_of (px_flows ?p) k' = Some a'" unfolding tab by simp
  qed
  ultimately have ih: "flows_wf (fold (\<lambda>(k, a). visit P a) xs ?p) \<and>
    map_of (px_flows (fold (\<lambda>(k, a). visit P a) xs ?p)) f =
      (case map_of xs f of None \<Rightarrow> map_of (px_flows ?p) f
       | Some a \<Rightarrow> if P (fl_lastSeen (flow_at ?p a)) then None else Some a)"
    using Cons.IH [of ?p] Cons.prems(2) x by simp
  have "map_of xs k = None" using kx by (simp add: map_of_eq_None_iff)
  then show ?case using ih k unfolding seen tab x by (auto split: option.splits)
qed simp

lemma visit_all:
  assumes "flows_wf p"
  shows "map_of (px_flows (fold (\<lambda>(k, a). visit P a) (px_flows p) p)) f =
    (case map_of (px_flows p) f of None \<Rightarrow> None | Some a \<Rightarrow> if P (fl_lastSeen (flow_at p a)) then None else Some a)"
  using fold_visit [OF assms, of "px_flows p" P f] assms
  by (auto simp: flows_wf_def split: option.splits)


section \<open>Properties\<close>

text \<open>
  C3. No socket is lost: in every state that the goroutines can reach, in whatever order their
  accesses interleave, an entry of the flow table is the flow with that number, with its socket
  open and exactly one pump; and every open socket belongs to a flow in the table, or to a
  reader about to publish it, or to a \<open>remove\<close> about to close it.
\<close>

theorem flows_reachable:
  assumes "px_reach p0 s"
  shows "(\<forall>f a. table s f = Some a \<longrightarrow> fl_flowID (obj s a) = f \<and> fl_open (obj s a) \<and> a \<in> set (sy_pumps s)) \<and>
    distinct (sy_pumps s) \<and>
    (\<forall>a. a < objs s \<and> fl_open (obj s a) \<longrightarrow>
       table s (fl_flowID (obj s a)) = Some a \<or> (\<exists>i f. publishing s i f a) \<or> a \<in> set (sy_closing s))"
proof -
  note D = flow_invD [OF px_reach_inv [OF assms]]
  show ?thesis using D(2,3,9) by blast
qed

abbreviation leak_system :: udpSys where
  "leak_system \<equiv> sys_init sample_proxy"

lemma sample_reach: "px_reach sample_proxy leak_system"
  by (rule px_reach.init) simp_all

text \<open>
  A flow is kept alive by at most 30 keepalives over its life, whatever the interleaving.
\<close>

theorem keepalives_bounded:
  assumes "px_reach p0 s" "a < objs s"
  shows "fl_keepalives (obj s a) \<le> udpFlowKeepaliveMax"
proof -
  from assms(1) have "keepalives_ok (sy_px s)"
  proof (induction rule: px_reach.induct)
    case init
    then show ?case by (simp add: sys_init_def keepalives_ok_def)
  next
    case (step s s')
    then show ?case using keepalives_step by blast
  qed
  from this assms(2) show ?thesis by (rule keepalives_nth)
qed

text \<open>
  C18. The shutdown after all channels have ended is clean: if every read loop has ended when
  \<open>runUDPProxy\<close> leaves its wait, then when it has returned and no \<open>remove\<close> is still closing a
  socket, the flow table is empty and no socket is open.
\<close>

theorem shutdown_clean:
  assumes "px_reach p0 s" "sy_main s = MRunning" "\<forall>r\<in>set (sy_readers s). r = RDone"
    and "px_step\<^sup>*\<^sup>* s s'" "sy_main s' = MStopped" "sy_closing s' = []"
  shows "(\<forall>f. table s' f = None) \<and> (\<forall>a < objs s'. \<not> fl_open (obj s' a))"
proof -
  have "drains s" using assms(2,3) by (simp add: drains_def)
  from drains_steps [OF assms(4) this px_reach_inv [OF assms(1)]]
  have d: "drains s'" "flow_inv s'" by simp_all
  then have t: "table s' f = None" for f using assms(5) by (simp add: drains_def)
  have "\<not> publishing s' i f a" for i f a
    using d(1) by (auto simp: drains_def dest: done_reader [of s' i "RPublish f _ a"])
  then have "\<not> fl_open (obj s' a)" if "a < objs s'" for a
    using inv_open [OF d(2) that] t assms(6) by auto
  with t show ?thesis by blast
qed


text \<open>
  A run in which the context is cancelled while a reader holds a datagram: \<open>closeAll\<close> finds the
  table empty, and the reader creates the flow after it.
\<close>

abbreviation late_proxy :: udpProxy where
  "late_proxy \<equiv> (closeChannels sample_proxy)\<lparr>px_heap := [new_flow 0 2], px_flows := [(2, 0)]\<rparr>"

abbreviation late_system :: udpSys where
  "late_system \<equiv>
     \<lparr>sy_px = late_proxy, sy_readers = [RWrite 0 [], RRead], sy_pumps = [0], sy_closing = [], sy_seen = {0},
      sy_main = MStopped\<rparr>"

lemma sys_init_sample: "sys_init sample_proxy =
    \<lparr>sy_px = sample_proxy, sy_readers = [RRead, RRead], sy_pumps = [], sy_closing = [], sy_seen = {}, sy_main = MRunning\<rparr>"
  by (simp add: sys_init_def replicate_2)

lemma late_reach: "px_reach sample_proxy late_system"
proof -
  let ?p = sample_proxy and ?q = "closeChannels sample_proxy"
  let ?S = "\<lambda>p r m. \<lparr>sy_px = p, sy_readers = [r, RRead], sy_pumps = [], sy_closing = [], sy_seen = {}, sy_main = m\<rparr>"
  have flows: "px_flows ?q = []" "px_heap ?q = []" by (simp_all add: closeChannels_def)
  have 0: "px_reach ?p (?S ?p RRead MRunning)" using sample_reach unfolding sys_init_sample .
  have 1: "px_reach ?p (?S ?p (RLoad 2 []) MRunning)"
    using px_reach.step [OF 0 px_step.read_data [where i = 0 and now = 0 and m = "whole_meta 2" and b = "[]" and f = 2 and d = "[]" and p = ?p]]
    by (simp add: accept_whole set_reader_def)
  have 2: "px_reach ?p (?S ?q (RLoad 2 []) (MClosing []))"
    using px_reach.step [OF 1 px_step.shutdown] by simp
  have 3: "px_reach ?p (?S ?q (RLoad 2 []) MStopped)"
    using px_reach.step [OF 2 px_step.stop] by simp
  have 4: "px_reach ?p (?S ?q (RDial 2 []) MStopped)"
    using px_reach.step [OF 3 px_step.load_miss [where i = 0 and now = 0 and f = 2 and d = "[]" and p = ?q]] flows
    by (simp add: flow_load_def set_reader_def)
  have 5: "px_reach ?p (?S (?q\<lparr>px_heap := [new_flow 0 2]\<rparr>) (RPublish 2 [] 0) MStopped)"
    using px_reach.step [OF 4 px_step.dial_ok [where i = 0 and now = 0 and f = 2 and d = "[]" and a = 0 and p = "?q\<lparr>px_heap := [new_flow 0 2]\<rparr>"]] flows
    by (simp add: flow_alloc_def set_reader_def)
  show ?thesis
    using px_reach.step [OF 5 px_step.publish_new [where i = 0 and f = 2 and d = "[]" and a = 0 and a' = 0 and p = late_proxy]] flows
    by (simp add: flow_publish_def set_reader_def)
qed

theorem flows_reachable_witness:
  "table late_system 2 = Some 0 \<and> fl_open (obj late_system 0) \<and> 0 \<in> set (sy_pumps late_system)"
proof -
  have "table late_system 2 = Some 0" by (simp add: table_def)
  with flows_reachable [OF late_reach] show ?thesis by blast
qed

theorem keepalives_bounded_witness: "fl_keepalives (obj late_system 0) \<le> udpFlowKeepaliveMax"
  by (rule keepalives_bounded [OF late_reach]) simp

lemma stopped_reach:
  "px_reach sample_proxy (set_reader 1 RDone (set_reader 0 RDone leak_system))"
  "sy_readers (set_reader 1 RDone (set_reader 0 RDone leak_system)) = [RDone, RDone]"
proof -
  show "sy_readers (set_reader 1 RDone (set_reader 0 RDone leak_system)) = [RDone, RDone]"
    by (simp add: sys_init_sample)
  have "px_reach sample_proxy (set_reader 0 RDone leak_system)"
    by (rule px_reach.step [OF sample_reach px_step.read_end]) (simp add: sys_init_sample)
  then show "px_reach sample_proxy (set_reader 1 RDone (set_reader 0 RDone leak_system))"
    by (rule px_reach.step [OF _ px_step.read_end]) (simp add: sys_init_sample)
qed

theorem shutdown_clean_witness:
  "\<exists>s'. px_step\<^sup>*\<^sup>* (set_reader 1 RDone (set_reader 0 RDone leak_system)) s' \<and> sy_main s' = MStopped \<and>
     (\<forall>f. table s' f = None)"
proof -
  let ?s = "set_reader 1 RDone (set_reader 0 RDone leak_system)"
  let ?t = "?s\<lparr>sy_px := closeChannels (sy_px ?s), sy_main := MClosing (map fst (px_flows (sy_px ?s)))\<rparr>"
  let ?u = "?t\<lparr>sy_main := MStopped\<rparr>"
  have "px_step ?s ?t" by (rule px_step.shutdown) (simp add: sys_init_sample)
  moreover have "px_step ?t ?u" by (rule px_step.stop) (simp add: sys_init_sample)
  ultimately have run: "px_step\<^sup>*\<^sup>* ?s ?u" by (rule converse_rtranclp_into_rtranclp [OF _ r_into_rtranclp])
  have "\<forall>f. table ?u f = None"
    using shutdown_clean [OF stopped_reach(1) _ _ run] stopped_reach(2) by (simp add: sys_init_sample)
  with run show ?thesis by (intro exI [of _ ?u]) simp
qed

text \<open>
  C33. The shutdown by cancellation can leak: there is a run after which \<open>runUDPProxy\<close> has
  returned, every read loop has ended and no \<open>remove\<close> is under way, and yet a flow is in the
  table with an open socket and a running pump, since the reader that created it had read its
  datagram before \<open>closeAll\<close>, which does not wait for the readers.
\<close>

theorem shutdown_can_leak:
  "\<exists>s. px_reach sample_proxy s \<and> sy_main s = MStopped \<and> sy_readers s = [RDone, RDone] \<and>
     sy_closing s = [] \<and> table s 2 = Some 0 \<and> fl_open (obj s 0) \<and> sy_pumps s = [0]"
proof -
  let ?s1 = "set_reader 0 RRead late_system"
  let ?s2 = "set_reader 0 RDone ?s1" and ?s3 = "set_reader 1 RDone (set_reader 0 RDone ?s1)"
  have "px_reach sample_proxy ?s1"
    by (rule px_reach.step [OF late_reach px_step.write_empty]) simp
  then have "px_reach sample_proxy ?s2" by (rule px_reach.step [OF _ px_step.read_end]) simp
  then have "px_reach sample_proxy ?s3" by (rule px_reach.step [OF _ px_step.read_end]) simp
  then show ?thesis
    by (intro exI [of _ ?s3]) (simp add: table_def new_flow_def)
qed

text \<open>
  The idle sweep is exact: after it, the flow table holds the flows whose \<open>lastSeen\<close> is not
  older than the idle timeout, each with the object it had, and no others.
\<close>

theorem sweep_exact:
  assumes "flows_wf p"
  shows "map_of (px_flows (sweepIdleFlows now p)) f =
    (case map_of (px_flows p) f of
       None \<Rightarrow> None
     | Some a \<Rightarrow> if now - fl_lastSeen (flow_at p a) > px_idleTimeout p then None else Some a)"
proof -
  have "sweep_flow d = visit (\<lambda>l. l < d)" for d by (intro ext) (simp add: sweep_flow_def visit_def)
  then show ?thesis
    using visit_all [OF assms, of "\<lambda>l. l < now - px_idleTimeout p" f]
    by (auto simp: sweepIdleFlows_def Let_def split: option.splits)
qed

abbreviation one_flow :: udpProxy where
  "one_flow \<equiv> sample_proxy\<lparr>px_heap := [new_flow 0 2], px_flows := [(2, 0)]\<rparr>"

lemma one_flow_wf: "flows_wf one_flow"
  by (simp add: flows_wf_def new_flow_def)

theorem sweep_exact_witness:
  "map_of (px_flows (sweepIdleFlows (331 * second) one_flow)) 2 = None"
  using sweep_exact [OF one_flow_wf, of "331 * second" 2]
  by (simp add: new_flow_def udpFlowIdleTimeout_def second_def)

text \<open>
  Traffic from the local service alone does not keep a flow: forwarding it leaves the flow
  objects as they are, \<open>lastSeen\<close> included, so however much of it there is, the sweep removes
  the flow once its last datagram or keepalive is older than the idle timeout.
\<close>

theorem reply_traffic_is_idle:
  assumes "flows_wf p" "map_of (px_flows p) f = Some a" "pump_turn a (Some data) p = (True, p')"
    and "now - fl_lastSeen (flow_at p a) > px_idleTimeout p"
  shows "px_heap p' = px_heap p \<and> map_of (px_flows (sweepIdleFlows now p')) f = None"
proof -
  from assms(3) have w: "writeDatagram (fl_flowID (flow_at p a)) (take (nat (getReadBuf p)) data) p = (True, p')"
    by (auto simp: pump_turn_def split: prod.splits bool.splits)
  have heap: "px_heap p' = px_heap p" by (rule heap_writeDatagram [OF w])
  have flows: "px_flows p' = px_flows p" using same_table_writeDatagram [OF w] by (simp add: same_table_def)
  have idle: "px_idleTimeout p' = px_idleTimeout p" by (rule idle_writeDatagram [OF w])
  have wf: "flows_wf p'" using assms(1) by (simp add: flows_wf_def heap flows)
  have "sweep_flow d = visit (\<lambda>l. l < d)" for d by (intro ext) (simp add: sweep_flow_def visit_def)
  then have "map_of (px_flows (sweepIdleFlows now p')) f = None"
    using visit_all [OF wf, of "\<lambda>l. l < now - px_idleTimeout p'" f] assms(2,4)
    by (simp add: sweepIdleFlows_def Let_def heap flows idle)
  with heap show ?thesis by blast
qed

theorem reply_traffic_is_idle_witness:
  "map_of (px_flows (sweepIdleFlows (331 * second) (snd (pump_turn 0 (Some [1]) one_flow)))) 2 = None"
proof -
  have "pump_turn 0 (Some [1]) one_flow = (True, snd (pump_turn 0 (Some [1]) one_flow))"
    by (simp add: pump_turn_def prod_eq_iff writeDatagram_def writeFrameV2_def chan_write_def dc_write_def getReadBuf_def
        udpMaxDatagramSize_def new_flow_def channelFor_def udpShardIndex_def Let_def split: prod.splits)
  from reply_traffic_is_idle [OF one_flow_wf _ this, of 2 "331 * second"] show ?thesis
    by (simp add: new_flow_def udpFlowIdleTimeout_def second_def)
qed

end
