(* ===== verification/Udp_Forward.thy ===== *)
theory Udp_Forward
  imports Udp_Flows
begin

text \<open>
  The control plane of UDP forwarding (\<open>setupUDPForward\<close>): the request, the negotiation of
  fragments, shards and QUIC datagrams from the server's reply, the opening of the data
  channels, and the proxy that \<open>runUDPProxy\<close> builds from the session. What the SSH client
  answers (reply or error of \<open>SendRequest\<close>, success of each \<open>OpenChannel\<close>) is an argument.
\<close>

section \<open>The request\<close>

definition udpCapsChannel :: byte where "udpCapsChannel = 0x01"
definition udpCapsFrag :: byte where "udpCapsFrag = 0x02"
definition udpCapsDatagram :: byte where "udpCapsDatagram = 0x04"
definition udpCapsShard :: byte where "udpCapsShard = 0x08"
definition udpModeChannel :: byte where "udpModeChannel = 1"

lemmas caps_defs = udpCapsChannel_def udpCapsFrag_def udpCapsDatagram_def udpCapsShard_def udpModeChannel_def

text \<open>The characters of the constant \<open>0.0.0.0\<close> as bytes.\<close>

definition bindAddr :: bytes where
  "bindAddr = [48, 46, 48, 46, 48, 46, 48]"

text \<open>
  \<open>dc\<close> is \<open>None\<close> when the transport has no datagrams, else the answer of \<open>SupportsDatagrams\<close>.
\<close>

definition forward_request :: "int \<Rightarrow> bool option \<Rightarrow> bytes" where
  "forward_request remotePort dc =
     (let caps = udpCapsChannel OR udpCapsFrag OR udpCapsShard;
          caps = (if dc = Some True then caps OR udpCapsDatagram else caps)
      in be32 (of_nat (length bindAddr)) @ bindAddr @ be32 (word_of_int remotePort) @ [caps])"


section \<open>The reply\<close>

datatype forward_error =
    RequestFailed
  | ErrForwardRejected
  | MalformedReply nat
  | UnsupportedMode byte
  | OpenChannelFailed nat nat

record udpForwardSession =
  ss_chs :: "bytes list"
  ss_actualPort :: "32 word"
  ss_shardCount :: nat
  ss_maxPacketSize :: int
  ss_fragEnabled :: bool
  ss_fragPayloadMax :: int
  ss_datagram :: bool

definition base_session :: "int \<Rightarrow> bytes \<Rightarrow> udpForwardSession" where
  "base_session udpMax resp =
     \<lparr>ss_chs = [], ss_actualPort = un_be (slice_of resp 0 4), ss_shardCount = 1,
      ss_maxPacketSize = (if udpMax \<le> 0 then int udpMaxPacketSize else udpMax),
      ss_fragEnabled = False, ss_fragPayloadMax = 0, ss_datagram = False\<rparr>"

definition negotiate_frag :: "bytes \<Rightarrow> udpForwardSession \<Rightarrow> udpForwardSession" where
  "negotiate_frag resp sess =
     (if length resp \<ge> 10
      then let respCaps = resp ! 5;
               srvMax = uint (un_be (slice_of resp 6 8) :: 16 word);
               srvFragMax = uint (un_be (slice_of resp 8 10) :: 16 word);
               sess = (if srvMax > 0 then sess\<lparr>ss_maxPacketSize := srvMax\<rparr> else sess)
           in if respCaps AND udpCapsFrag \<noteq> 0 \<and> srvFragMax > 0 \<and> srvFragMax \<le> int udpMaxDatagramSize
              then sess\<lparr>ss_fragEnabled := True, ss_fragPayloadMax := srvFragMax\<rparr>
              else sess
      else sess)"

definition negotiate_shards :: "bytes \<Rightarrow> udpForwardSession \<Rightarrow> udpForwardSession" where
  "negotiate_shards resp sess =
     (if length resp \<ge> 11
      then let sc = unat (resp ! 10);
               sc = (if sc < 1 then 1 else sc);
               sc = (if sc > udpMaxShardCount then udpMaxShardCount else sc)
           in sess\<lparr>ss_shardCount := sc\<rparr>
      else sess)"

definition uses_datagram :: "bool option \<Rightarrow> bytes \<Rightarrow> udpForwardSession \<Rightarrow> bool" where
  "uses_datagram dc resp sess \<longleftrightarrow>
     dc \<noteq> None \<and> ss_fragEnabled sess \<and> length resp \<ge> 6 \<and> resp ! 5 AND udpCapsDatagram \<noteq> 0"

text \<open>
  The loop that opens the channels: \<open>opens i\<close> is whether channel \<open>i\<close> opens. On a failure the
  channels that were opened before are closed: the second result are the channels left open.
\<close>

definition channel_data :: "32 word \<Rightarrow> nat \<Rightarrow> bytes" where
  "channel_data actualPort i = be32 actualPort @ [of_nat i]"

function open_channels ::
  "(nat \<Rightarrow> bool) \<Rightarrow> nat \<Rightarrow> udpForwardSession \<Rightarrow> (forward_error + udpForwardSession) \<times> bytes list" where
  "open_channels opens i sess =
     (if i < ss_shardCount sess
      then if opens i
           then open_channels opens (Suc i) (sess\<lparr>ss_chs := ss_chs sess @ [channel_data (ss_actualPort sess) i]\<rparr>)
           else (Inl (OpenChannelFailed i (ss_shardCount sess)), [])
      else (Inr sess, ss_chs sess))"
  by pat_completeness auto
termination by (relation "measure (\<lambda>(opens, i, sess). ss_shardCount sess - i)") auto

declare open_channels.simps [simp del]

text \<open>\<open>setupUDPForward\<close>: the session or the error, and the channels that are left open.\<close>

definition setupUDPForward ::
  "(bool \<times> bytes) option \<Rightarrow> (nat \<Rightarrow> bool) \<Rightarrow> int \<Rightarrow> bool option \<Rightarrow>
   (forward_error + udpForwardSession) \<times> bytes list" where
  "setupUDPForward answer opens udpMax dc =
     (case answer of
        None \<Rightarrow> (Inl RequestFailed, [])
      | Some (ok, resp) \<Rightarrow>
          if \<not> ok then (Inl ErrForwardRejected, [])
          else if length resp < 5 then (Inl (MalformedReply (length resp)), [])
          else if resp ! 4 \<noteq> udpModeChannel then (Inl (UnsupportedMode (resp ! 4)), [])
          else let sess = negotiate_shards resp (negotiate_frag resp (base_session udpMax resp))
               in if uses_datagram dc resp sess
                  then (Inr (sess\<lparr>ss_datagram := True,
                                  ss_fragPayloadMax := min (ss_fragPayloadMax sess) (int udpDatagramFramePayloadMax)\<rparr>), [])
                  else open_channels opens 0 sess)"


section \<open>The proxy of a session\<close>

definition proxy_of_session :: "udpForwardSession \<Rightarrow> int \<Rightarrow> udpProxy" where
  "proxy_of_session sess idleSeconds =
     \<lparr>px_chs = map (\<lambda>_. \<lparr>dc_sent = [], dc_limit = None, dc_closed = False\<rparr>) (ss_chs sess),
      px_nchs = length (ss_chs sess), px_idleTimeout = udpEffectiveFlowIdleTimeout idleSeconds,
      px_datagram = (if ss_datagram sess then Some \<lparr>dc_sent = [], dc_limit = None, dc_closed = False\<rparr> else None),
      px_port = uint (ss_actualPort sess), px_maxPacketSize = ss_maxPacketSize sess,
      px_fragEnabled = ss_fragEnabled sess, px_fragPayloadMax = ss_fragPayloadMax sess, px_nextFragID = 0,
      px_reasm = newUDPReassembler, px_closeOnce = False, px_flows = [], px_heap = []\<rparr>"


section \<open>What the session promises\<close>

definition session_ok :: "udpForwardSession \<Rightarrow> bool" where
  "session_ok sess \<longleftrightarrow>
     1 \<le> ss_shardCount sess \<and> ss_shardCount sess \<le> udpMaxShardCount \<and> 0 < ss_maxPacketSize sess \<and>
     (ss_fragEnabled sess \<longrightarrow> 0 < ss_fragPayloadMax sess \<and> ss_fragPayloadMax sess \<le> int udpMaxDatagramSize) \<and>
     (ss_datagram sess \<longrightarrow> ss_fragEnabled sess \<and> ss_fragPayloadMax sess \<le> int udpDatagramFramePayloadMax \<and> ss_chs sess = []) \<and>
     (\<not> ss_datagram sess \<longrightarrow> ss_chs sess = map (channel_data (ss_actualPort sess)) [0..<ss_shardCount sess])"

lemma open_channels_spec:
  "open_channels opens i sess = (r, left) \<Longrightarrow> i \<le> ss_shardCount sess \<Longrightarrow>
   ss_chs sess = map (channel_data (ss_actualPort sess)) [0..<i] \<Longrightarrow>
     (case r of
        Inl e \<Rightarrow> left = [] \<and> (\<exists>j. i \<le> j \<and> j < ss_shardCount sess \<and> \<not> opens j \<and> e = OpenChannelFailed j (ss_shardCount sess))
      | Inr s \<Rightarrow> left = ss_chs s \<and> (\<forall>j. i \<le> j \<longrightarrow> j < ss_shardCount sess \<longrightarrow> opens j) \<and>
          s = sess\<lparr>ss_chs := map (channel_data (ss_actualPort sess)) [0..<ss_shardCount sess]\<rparr>)"
proof (induction opens i sess arbitrary: r left rule: open_channels.induct)
  case (1 opens i sess)
  show ?case
  proof (cases "i < ss_shardCount sess")
    case False
    with 1(2-4) show ?thesis by (auto simp: open_channels.simps [of opens i sess])
  next
    case lt: True
    show ?thesis
    proof (cases "opens i")
      case False
      with lt 1(2-4) show ?thesis by (auto simp: open_channels.simps [of opens i sess])
    next
      case True
      let ?s = "sess\<lparr>ss_chs := ss_chs sess @ [channel_data (ss_actualPort sess) i]\<rparr>"
      have "open_channels opens (Suc i) ?s = (r, left)"
        using lt True 1(2) by (simp add: open_channels.simps [of opens i sess])
      note ih = 1(1) [OF lt True this]
      have s: "Suc i \<le> ss_shardCount ?s" "ss_chs ?s = map (channel_data (ss_actualPort ?s)) [0..<Suc i]"
        using lt 1(4) by simp_all
      have split: "i \<le> j \<longleftrightarrow> j = i \<or> Suc i \<le> j" for j by auto
      show ?thesis
        using ih [OF s] True by (cases r) (auto simp: split)
    qed
  qed
qed

lemma negotiated_ok:
  fixes resp
  defines "sess \<equiv> \<lambda>udpMax. negotiate_shards resp (negotiate_frag resp (base_session udpMax resp))"
  shows "1 \<le> ss_shardCount (sess m)" "ss_shardCount (sess m) \<le> udpMaxShardCount" "0 < ss_maxPacketSize (sess m)"
    "ss_fragEnabled (sess m) \<Longrightarrow> 0 < ss_fragPayloadMax (sess m) \<and> ss_fragPayloadMax (sess m) \<le> int udpMaxDatagramSize"
    "ss_chs (sess m) = []" "\<not> ss_datagram (sess m)"
  unfolding sess_def
  by (auto simp: negotiate_shards_def negotiate_frag_def base_session_def Let_def udpMaxShardCount_def udpMaxPacketSize_def
      split: if_splits)


lemma setup_session:
  assumes "setupUDPForward answer opens udpMax dc = (Inr sess, left)"
  shows "session_ok sess" "left = ss_chs sess" "ss_datagram sess \<Longrightarrow> dc \<noteq> None"
proof -
  from assms obtain resp where
    a: "answer = Some (True, resp)" "\<not> length resp < 5" "resp ! 4 = udpModeChannel"
    by (auto simp: setupUDPForward_def split: option.splits if_splits)
  define s0 where "s0 = negotiate_shards resp (negotiate_frag resp (base_session udpMax resp))"
  note N = negotiated_ok [of resp udpMax, folded s0_def]
  have "session_ok sess \<and> left = ss_chs sess \<and> (ss_datagram sess \<longrightarrow> dc \<noteq> None)"
  proof (cases "uses_datagram dc resp s0")
    case True
    with assms a have "sess = s0\<lparr>ss_datagram := True,
        ss_fragPayloadMax := min (ss_fragPayloadMax s0) (int udpDatagramFramePayloadMax)\<rparr>" "left = []"
      by (simp_all add: setupUDPForward_def Let_def flip: s0_def)
    with N True show ?thesis
      by (auto simp: session_ok_def uses_datagram_def udpDatagramFramePayloadMax_def)
  next
    case False
    with assms a have "open_channels opens 0 s0 = (Inr sess, left)"
      by (simp add: setupUDPForward_def Let_def flip: s0_def)
    from open_channels_spec [OF this] N show ?thesis by (auto simp: session_ok_def)
  qed
  then show "session_ok sess" "left = ss_chs sess" "ss_datagram sess \<Longrightarrow> dc \<noteq> None" by blast+
qed

lemma setup_accepted:
  "setupUDPForward answer opens udpMax dc = (Inr sess, left) \<Longrightarrow> \<exists>resp. answer = Some (True, resp)"
  by (auto simp: setupUDPForward_def split: option.splits if_splits)


section \<open>Properties\<close>

abbreviation reply_v1 :: bytes where
  "reply_v1 \<equiv> [0, 0, 0x1b, 0x58, 1]"

abbreviation reply_frag :: bytes where
  "reply_frag \<equiv> [0, 0, 0x1b, 0x58, 1, 0x02, 0x05, 0xdc, 0x04, 0xb0, 40]"

abbreviation reply_datagram :: bytes where
  "reply_datagram \<equiv> [0, 0, 0x1b, 0x58, 1, 0x06, 0x05, 0xdc, 0x08, 0x00, 4]"

text \<open>
  C16. A session that is set up is well formed whatever the server replied: between 1 and 32
  shards, a positive packet limit, a fragment payload between 1 and 65507 when fragments are
  on; QUIC datagrams only over a transport that has them and with fragments of at most 1136
  bytes and no channel; otherwise exactly the negotiated channels are open, each with the port
  and its own shard number as data.
\<close>

theorem setup_well_formed:
  assumes "setupUDPForward answer opens udpMax dc = (Inr sess, left)"
  shows "session_ok sess \<and> left = ss_chs sess \<and> (ss_datagram sess \<longrightarrow> dc \<noteq> None)"
  using setup_session [OF assms] by blast

lemma setup_sample_frag:
  "\<exists>sess. setupUDPForward (Some (True, reply_frag)) (\<lambda>_. True) 0 None = (Inr sess, ss_chs sess) \<and> ss_shardCount sess = 32"
proof -
  obtain r left where r: "setupUDPForward (Some (True, reply_frag)) (\<lambda>_. True) 0 None = (r, left)" by fastforce
  define s0 where "s0 = negotiate_shards reply_frag (negotiate_frag reply_frag (base_session 0 reply_frag))"
  from r have o: "open_channels (\<lambda>_. True) 0 s0 = (r, left)"
    by (simp add: setupUDPForward_def Let_def uses_datagram_def caps_defs flip: s0_def)
  have "ss_chs s0 = []" "ss_shardCount s0 = 32"
    by (simp_all add: s0_def negotiated_ok) (simp add: negotiate_shards_def udpMaxShardCount_def)
  with open_channels_spec [OF o] r show ?thesis by (cases r) auto
qed

theorem setup_well_formed_witness:
  "\<exists>sess. setupUDPForward (Some (True, reply_frag)) (\<lambda>_. True) 0 None = (Inr sess, ss_chs sess) \<and> session_ok sess"
  using setup_sample_frag setup_well_formed by blast

text \<open>
  A set-up that fails leaves no channel open: whichever channel fails to open, those opened
  before it are closed; and the error says what happened: no answer, a rejection (the sentinel
  the retry loop tests), a short reply, an unknown mode, or a channel that did not open.
\<close>

theorem setup_failure_closes:
  assumes "setupUDPForward answer opens udpMax dc = (Inl e, left)"
  shows "left = [] \<and>
    (case e of
       RequestFailed \<Rightarrow> answer = None
     | ErrForwardRejected \<Rightarrow> \<exists>resp. answer = Some (False, resp)
     | MalformedReply n \<Rightarrow> n < 5 \<and> (\<exists>resp. answer = Some (True, resp) \<and> length resp = n)
     | UnsupportedMode m \<Rightarrow> m \<noteq> udpModeChannel
     | OpenChannelFailed i n \<Rightarrow> i < n \<and> n \<le> udpMaxShardCount \<and> \<not> opens i)"
proof -
  show ?thesis
  proof (cases "\<exists>resp. answer = Some (True, resp) \<and> \<not> length resp < 5 \<and> resp ! 4 = udpModeChannel")
    case False
    with assms show ?thesis
      by (auto simp: setupUDPForward_def split: option.splits if_splits)
  next
    case True
    then obtain resp where a: "answer = Some (True, resp)" "\<not> length resp < 5" "resp ! 4 = udpModeChannel"
      by blast
    define s0 where "s0 = negotiate_shards resp (negotiate_frag resp (base_session udpMax resp))"
    note N = negotiated_ok [of resp udpMax, folded s0_def]
    from assms a have "open_channels opens 0 s0 = (Inl e, left)"
      by (auto simp: setupUDPForward_def Let_def simp flip: s0_def split: if_splits)
    from open_channels_spec [OF this] N show ?thesis by auto
  qed
qed

theorem setup_failure_closes_witness:
  "setupUDPForward (Some (True, [0, 0, 0])) (\<lambda>_. True) 0 None = (Inl (MalformedReply 3), [])"
  using setup_failure_closes [of "Some (True, [0, 0, 0])" "\<lambda>_. True" 0 None "MalformedReply 3" "[]"]
  by (simp add: setupUDPForward_def)

text \<open>
  An old server keeps the old protocol: with the 5-byte reply the session has the reply's
  port, v1 frames, one channel and the client's own packet limit, whatever the client offered.
\<close>

theorem old_server_is_v1:
  assumes "length resp = 5" "resp ! 4 = udpModeChannel" "opens 0"
  shows "setupUDPForward (Some (True, resp)) opens udpMax dc =
    (Inr (base_session udpMax resp \<lparr>ss_chs := [channel_data (un_be (slice_of resp 0 4)) 0]\<rparr>),
     [channel_data (un_be (slice_of resp 0 4)) 0])"
  using assms
  by (simp add: setupUDPForward_def negotiate_frag_def negotiate_shards_def Let_def uses_datagram_def base_session_def
      open_channels.simps)

theorem old_server_is_v1_witness:
  "fst (setupUDPForward (Some (True, reply_v1)) (\<lambda>_. True) 0 (Some True)) =
     Inr (base_session 0 reply_v1 \<lparr>ss_chs := [channel_data (un_be (slice_of reply_v1 0 4)) 0]\<rparr>)"
  using old_server_is_v1 [of reply_v1 "\<lambda>_. True" 0 "Some True"] by (simp add: udpModeChannel_def)

section \<open>What goes into QUIC datagrams\<close>

definition quic_small :: "udpProxy \<Rightarrow> bool" where
  "quic_small p \<longleftrightarrow> px_fragEnabled p \<and> 0 < px_fragPayloadMax p \<and> px_fragPayloadMax p \<le> int udpDatagramFramePayloadMax \<and>
     (\<forall>dc x. px_datagram p = Some dc \<longrightarrow> x \<in> set (dc_sent dc) \<longrightarrow> length x \<le> 1149)"

text \<open>Steps that do not send: they keep the settings and the datagrams that were sent.\<close>

definition quiet :: "udpProxy \<Rightarrow> udpProxy \<Rightarrow> bool" where
  "quiet p p' \<longleftrightarrow> px_fragEnabled p' = px_fragEnabled p \<and> px_fragPayloadMax p' = px_fragPayloadMax p \<and>
     px_datagram p' = px_datagram p"

lemma quic_small_quiet: "quiet p p' \<Longrightarrow> quic_small p \<Longrightarrow> quic_small p'"
  by (simp add: quiet_def quic_small_def)

lemma quiet_accesses:
  "accept_frame now m b p = (r, p1) \<Longrightarrow> quiet p p1"
  "flow_load now f p = (l, p1) \<Longrightarrow> quiet p p1"
  "flow_alloc now f p = (a, p1) \<Longrightarrow> quiet p p1"
  "flow_publish f a p = (w, p1) \<Longrightarrow> quiet p p1"
  "uplink_write a wr d p = (ok, p1) \<Longrightarrow> quiet p p1"
  "quiet p (socket_close a p)" "quiet p (closeChannels p)" "quiet p (count_keepalive now a p)"
  "quiet p (p\<lparr>px_reasm := r'\<rparr>)" "quiet (sy_px s) (sy_px (sys_remove a s))"
  by (auto simp: quiet_def accept_frame_def touch_flow_def flow_load_def flow_alloc_def flow_publish_def uplink_write_def
      socket_close_def closeChannels_def count_keepalive_def upd_flow_def sys_remove_def remove_delete_def Let_def
      split: if_splits option.splits prod.splits)

lemma quic_small_log:
  assumes "quic_small p" "\<forall>(m, b) \<in> set fs. length b \<le> udpDatagramFramePayloadMax"
  shows "quic_small (log_append f (map enc_v2 fs) p)"
proof -
  have "length (be16 w @ encodeUDPFrameV2 m b) \<le> 1149" if "(m, b) \<in> set fs" for w m b
    using assms(2) that by (auto simp: length_encodeUDPFrameV2 udpDatagramFramePayloadMax_def)
  then show ?thesis
    using assms(1) by (cases "px_datagram p") (auto simp: quic_small_def log_append_def)
qed

lemma quic_small_frame:
  assumes "writeFrameV2 m b p = (ok, p')" "length b \<le> udpDatagramFramePayloadMax" "quic_small p"
  shows "quic_small p'"
proof -
  have "p' = log_append (meta_flowID m) (map enc_v2 (if ok then [(m, b)] else [])) p"
    using writeFrameV2_log [OF assms(1)] by simp
  with quic_small_log [OF assms(3), of "if ok then [(m, b)] else []"] assms(2) show ?thesis by simp
qed

lemma quic_small_write:
  assumes "writeDatagram f b p = (ok, p')" "quic_small p"
  shows "quic_small p'"
proof (cases "sendable b p")
  case False
  with assms show ?thesis by (auto simp: writeDatagram_frag quic_small_def)
next
  case True
  let ?fs = "datagram_frames (nat (px_fragPayloadMax p)) f (ucast (next_id b p)) b"
  let ?p = "p\<lparr>px_nextFragID := next_id b p\<rparr>"
  have "write_frames ?fs ?p = (ok, p')" using assms True by (simp add: writeDatagram_frag quic_small_def)
  from sendable_frames [OF True this] obtain k where k: "p' = log_append f (map enc_v2 (take k ?fs)) ?p" by blast
  have "quic_small ?p" using assms(2) by (simp add: quic_small_def)
  moreover have "\<forall>(m, x) \<in> set (take k ?fs). length x \<le> udpDatagramFramePayloadMax"
    using datagram_frames_limit [of _ _ "nat (px_fragPayloadMax p)" f "ucast (next_id b p)" b] assms(2)
    by (fastforce simp: quic_small_def dest: in_set_takeD)
  ultimately show ?thesis unfolding k by (rule quic_small_log)
qed

lemma quic_small_step:
  assumes "px_step s s'" "quic_small (sy_px s)"
  shows "quic_small (sy_px s')"
proof -
  note q = quic_small_quiet [OF quiet_accesses(1)] quic_small_quiet [OF quiet_accesses(2)] quic_small_quiet [OF quiet_accesses(3)]
    quic_small_quiet [OF quiet_accesses(4)] quic_small_quiet [OF quiet_accesses(5)] quic_small_quiet [OF quiet_accesses(6)]
    quic_small_quiet [OF quiet_accesses(7)] quic_small_quiet [OF quiet_accesses(8)] quic_small_quiet [OF quiet_accesses(9)]
  have rm: "quic_small (sy_px t) \<Longrightarrow> quic_small (sy_px (sys_remove a t))" for a t
    by (rule quic_small_quiet [OF quiet_accesses(10)])
  have ke: "length [] \<le> udpDatagramFramePayloadMax" by simp
  show ?thesis
    using assms
    by (induction rule: px_step.induct)
      (auto simp: set_reader_def intro!: rm intro: q quic_small_frame [OF _ ke] quic_small_write)
qed

lemma quic_small_reach: "px_reach p s \<Longrightarrow> quic_small p \<Longrightarrow> quic_small (sy_px s)"
  by (induction rule: px_reach.induct) (auto simp: sys_init_def intro: quic_small_step)

text \<open>
  C37. QUIC datagrams stay small enough for the path: whatever a server answers to udp-forward,
  if the session that is set up uses datagrams, then in every state that its proxy reaches, with
  all its pumps, readers, keepalives and the shutdown in any interleaving, every message that
  was handed to the QUIC connection has at most 2 + 11 + 1136 bytes.
\<close>

theorem quic_datagrams_fit:
  assumes "setupUDPForward answer opens udpMax dc = (Inr sess, left)" "ss_datagram sess"
    and "px_reach (proxy_of_session sess idle) s" "px_datagram (sy_px s) = Some d" "x \<in> set (dc_sent d)"
  shows "length x \<le> 1149"
proof -
  have "quic_small (proxy_of_session sess idle)"
    using setup_session(1) [OF assms(1)] assms(2) by (simp add: session_ok_def proxy_of_session_def quic_small_def)
  from quic_small_reach [OF assms(3) this] assms(4,5) show ?thesis by (simp add: quic_small_def)
qed

abbreviation datagram_session :: udpForwardSession where
  "datagram_session \<equiv>
     \<lparr>ss_chs = [], ss_actualPort = 7000, ss_shardCount = 4, ss_maxPacketSize = 1500, ss_fragEnabled = True,
      ss_fragPayloadMax = 1136, ss_datagram = True\<rparr>"

lemma datagram_session_set_up:
  "setupUDPForward (Some (True, reply_datagram)) (\<lambda>_. True) 0 (Some True) = (Inr datagram_session, [])"
  by (simp add: setupUDPForward_def negotiate_shards_def negotiate_frag_def base_session_def uses_datagram_def caps_defs
      udpMaxDatagramSize_def udpMaxShardCount_def udpDatagramFramePayloadMax_def slice_of_def un_be_def Let_def)

text \<open>A datagram comes for a new flow; its pump then has one of 1136 bytes, the most that one message takes.\<close>

lemma datagram_pump_reach:
  "\<exists>s d x. px_reach (proxy_of_session datagram_session 0) s \<and> px_datagram (sy_px s) = Some d \<and> x \<in> set (dc_sent d) \<and>
     length x = 1149"
proof -
  let ?p = "proxy_of_session datagram_session 0"
  let ?s0 = "sys_init ?p"
  have r0: "px_reach ?p ?s0" by (rule px_reach.init) (simp_all add: proxy_of_session_def)
  let ?s1 = "?s0\<lparr>sy_readers := [RLoad 2 [7]]\<rparr>"
  have "px_step ?s0 ?s1"
    using px_step.read_data [of 0 ?s0 0 "whole_meta 2" "[7]" 2 "[7]" ?p] by (simp add: sys_init_def accept_whole set_reader_def proxy_of_session_def)
  with r0 have r1: "px_reach ?p ?s1" by (rule px_reach.step)
  let ?s2 = "?s0\<lparr>sy_readers := [RDial 2 [7]]\<rparr>"
  have "px_step ?s1 ?s2"
    using px_step.load_miss [of 0 ?s1 2 "[7]" 0 ?p] by (simp add: sys_init_def set_reader_def flow_load_def proxy_of_session_def)
  with r1 have r2: "px_reach ?p ?s2" by (rule px_reach.step)
  let ?p3 = "?p\<lparr>px_heap := [new_flow 0 2]\<rparr>"
  let ?s3 = "?s0\<lparr>sy_px := ?p3, sy_readers := [RPublish 2 [7] 0]\<rparr>"
  have "px_step ?s2 ?s3"
    using px_step.dial_ok [of 0 ?s2 2 "[7]" 0 0 ?p3] by (simp add: sys_init_def set_reader_def flow_alloc_def proxy_of_session_def)
  with r2 have r3: "px_reach ?p ?s3" by (rule px_reach.step)
  let ?p4 = "?p3\<lparr>px_flows := [(2, 0)]\<rparr>"
  let ?s4 = "?s3\<lparr>sy_px := ?p4, sy_readers := [RWrite 0 [7]], sy_pumps := [0], sy_seen := {0}\<rparr>"
  have "px_step ?s3 ?s4"
    using px_step.publish_new [of 0 ?s3 2 "[7]" 0 0 ?p4] by (simp add: sys_init_def set_reader_def flow_publish_def proxy_of_session_def)
  with r3 have r4: "px_reach ?p ?s4" by (rule px_reach.step)
  define b :: bytes where "b = replicate 1136 0"
  have b: "length b = 1136" by (simp add: b_def)
  let ?x = "be16 7000 @ encodeUDPFrameV2 (whole_meta 2) b"
  let ?p5 = "?p4\<lparr>px_datagram := Some \<lparr>dc_sent = [?x], dc_limit = None, dc_closed = False\<rparr>\<rparr>"
  have "writeDatagram 2 b ?p4 = (True, ?p5)"
    using b by (simp add: proxy_of_session_def writeDatagram_def writeFrameV2_def sendDatagramFrame_def dc_write_def
        udpMaxDatagramSize_def Let_def)
  then have "px_step ?s4 (?s4\<lparr>sy_px := ?p5\<rparr>)"
    by (intro px_step.pump_data [of 0 _ b]) (simp_all add: new_flow_def)
  with r4 have "px_reach ?p (?s4\<lparr>sy_px := ?p5\<rparr>)" by (rule px_reach.step)
  moreover have "length ?x = 1149" using b by (simp add: length_encodeUDPFrameV2)
  moreover have "?x \<in> set (dc_sent \<lparr>dc_sent = [?x], dc_limit = None, dc_closed = False\<rparr>)" by simp
  moreover have "px_datagram (sy_px (?s4\<lparr>sy_px := ?p5\<rparr>)) = Some \<lparr>dc_sent = [?x], dc_limit = None, dc_closed = False\<rparr>" by simp
  ultimately show ?thesis by blast
qed

theorem quic_datagrams_fit_witness:
  "\<exists>s d x. px_reach (proxy_of_session datagram_session 0) s \<and> px_datagram (sy_px s) = Some d \<and> x \<in> set (dc_sent d) \<and>
     length x = 1149 \<and> (\<forall>y \<in> set (dc_sent d). length y \<le> 1149)"
proof -
  obtain s d x where r: "px_reach (proxy_of_session datagram_session 0) s" "px_datagram (sy_px s) = Some d"
      "x \<in> set (dc_sent d)" "length x = 1149"
    using datagram_pump_reach by blast
  have "length y \<le> 1149" if "y \<in> set (dc_sent d)" for y
    by (rule quic_datagrams_fit [OF datagram_session_set_up _ r(1,2) that]) simp
  with r show ?thesis by blast
qed

end
