(* ===== verification/Config.thy ===== *)
theory Config
  imports Go_Strings
begin

text \<open>
  The configuration (\<open>base_core/config.go\<close>): reading it from the environment and from the
  command line, the normal forms of the protocol, the check of domain names. The environment is
  a function from names to values (a variable that is not set has the empty value, as
  \<open>os.Getenv\<close> gives it); \<open>log.Fatalf\<close> ends the program and is an error value.
\<close>

section \<open>The configuration\<close>

record Config =
  ServerHost :: string
  ServerPort :: int
  Username :: string
  Password :: string
  SSHKeyPath :: string
  LocalHost :: string
  LocalPort :: int
  RemotePort :: int
  ReconnectDelay :: int
  MaxOfflineCount :: int
  MaxLifetime :: int
  Transport :: string
  Proto :: string
  Compress :: bool
  UDPSocketBuffer :: int
  UDPMaxPacketSize :: int
  UDPFlowIdleTimeout :: int
  Version :: string

definition NormalizeProto :: "string \<Rightarrow> string" where
  "NormalizeProto proto =
     (let p = ToLower (TrimSpace proto)
      in if p = ''udp'' then ''udp'' else if p = ''both'' then ''both'' else ''tcp'')"


section \<open>The environment\<close>

type_synonym env = "string \<Rightarrow> string"

definition getEnv :: "env \<Rightarrow> string \<Rightarrow> string \<Rightarrow> string" where
  "getEnv env key defaultValue = (if env key \<noteq> [] then env key else defaultValue)"

text \<open>
  \<open>fmt.Sscanf(value, "%d", &intVal)\<close>: blanks (but no newline) are skipped, then an optional sign
  and decimal digits are read; what follows is ignored. No digits, a newline before them, or a
  number out of range is an error.
\<close>

function skip_space :: "string \<Rightarrow> string option" where
  "skip_space s =
     (if take 1 s = [CHR 0x0A] \<or> take 2 s = [CHR 0x0D, CHR 0x0A] then None
      else case first_prefix space_encodings s of None \<Rightarrow> Some s | Some r \<Rightarrow> skip_space r)"
  by pat_completeness auto
termination
  by (relation "measure length") (auto intro: first_prefix_length [OF _ space_encodings_nonempty])

declare skip_space.simps [simp del]

definition Sscanf_d :: "string \<Rightarrow> int option" where
  "Sscanf_d value =
     (case skip_space value of
        None \<Rightarrow> None
      | Some s \<Rightarrow>
          let (sign, ds) = (case s of [] \<Rightarrow> ([], [])
                | c # r \<Rightarrow> if c = CHR ''-'' \<or> c = CHR ''+'' then ([c], r) else ([], s));
              ds = takeWhile is_digit ds
          in case Atoi (sign @ ds) of (v, None) \<Rightarrow> Some v | (_, Some _) \<Rightarrow> None)"

definition getEnvInt :: "env \<Rightarrow> string \<Rightarrow> int \<Rightarrow> int" where
  "getEnvInt env key defaultValue =
     (if env key \<noteq> [] then case Sscanf_d (env key) of Some v \<Rightarrow> v | None \<Rightarrow> defaultValue else defaultValue)"

definition getEnvBool :: "env \<Rightarrow> string \<Rightarrow> bool \<Rightarrow> bool" where
  "getEnvBool env key defaultValue =
     (let value = ToLower (TrimSpace (env key))
      in if value \<in> {''1'', ''true'', ''yes'', ''on''} then True
         else if value \<in> {''0'', ''false'', ''no'', ''off''} then False
         else defaultValue)"

definition LoadConfigFromEnv :: "env \<Rightarrow> string \<Rightarrow> Config" where
  "LoadConfigFromEnv env build =
     \<lparr>ServerHost = getEnv env ''NSSH_SERVER_HOST'' [], ServerPort = getEnvInt env ''NSSH_SERVER_PORT'' 0,
      Username = getEnv env ''NSSH_USERNAME'' [], Password = getEnv env ''NSSH_PASSWORD'' [],
      SSHKeyPath = getEnv env ''NSSH_SSH_KEY'' [], LocalHost = getEnv env ''NSSH_LOCAL_HOST'' ''localhost'',
      LocalPort = getEnvInt env ''NSSH_LOCAL_PORT'' 0, RemotePort = getEnvInt env ''NSSH_REMOTE_PORT'' 0,
      ReconnectDelay = getEnvInt env ''RECONNECT_DELAY'' 60,
      MaxOfflineCount = getEnvInt env ''MAX_OFFLINE_COUNT'' 14400,
      MaxLifetime = getEnvInt env ''MAX_LIFETIME'' 172800, Transport = getEnv env ''NSSH_TRANSPORT'' ''auto'',
      Proto = NormalizeProto (getEnv env ''NSSH_PROTO'' ''both''), Compress = getEnvBool env ''NSSH_COMPRESS'' True,
      UDPSocketBuffer = getEnvInt env ''NSSH_UDP_SOCKET_BUFFER'' 262144,
      UDPMaxPacketSize = getEnvInt env ''NSSH_UDP_MAX_PACKET_SIZE'' 1400,
      UDPFlowIdleTimeout = getEnvInt env ''NSSH_UDP_FLOW_IDLE_TIMEOUT'' 330, Version = build\<rparr>"


section \<open>The command line\<close>

datatype fatal = InvalidRemotePort num_error | InvalidLocalPort num_error | InvalidReverseTunnel

definition base_config :: "env \<Rightarrow> Config" where
  "base_config env =
     \<lparr>ServerHost = getEnv env ''SERVER_HOST'' ''0.0.0.0'', ServerPort = getEnvInt env ''SERVER_PORT'' 20022,
      Username = getEnv env ''USERNAME'' [], Password = getEnv env ''PASSWORD'' [],
      SSHKeyPath = getEnv env ''SSH_KEY'' [], LocalHost = ''localhost'',
      LocalPort = getEnvInt env ''LOCAL_PORT'' 80, RemotePort = getEnvInt env ''REMOTE_PORT'' 8000,
      ReconnectDelay = getEnvInt env ''RECONNECT_DELAY'' 30, MaxOfflineCount = 0,
      MaxLifetime = getEnvInt env ''MAX_LIFETIME'' 172800, Transport = getEnv env ''NSSH_TRANSPORT'' ''auto'',
      Proto = NormalizeProto (getEnv env ''NSSH_PROTO'' ''both''), Compress = getEnvBool env ''NSSH_COMPRESS'' True,
      UDPSocketBuffer = getEnvInt env ''NSSH_UDP_SOCKET_BUFFER'' 262144,
      UDPMaxPacketSize = getEnvInt env ''NSSH_UDP_MAX_PACKET_SIZE'' 1400,
      UDPFlowIdleTimeout = getEnvInt env ''NSSH_UDP_FLOW_IDLE_TIMEOUT'' 330, Version = []\<rparr>"

definition apply_user_host :: "string list \<Rightarrow> Config \<Rightarrow> Config" where
  "apply_user_host args config =
     (case args of
        [] \<Rightarrow> config
      | userHost # _ \<Rightarrow>
          if CHR ''@'' \<in> set userHost
          then let parts = split_n 2 (CHR ''@'') userHost
               in config\<lparr>Username := parts ! 0, ServerHost := parts ! 1\<rparr>
          else config\<lparr>ServerHost := userHost\<rparr>)"

definition apply_reverse_tunnel :: "string \<Rightarrow> Config \<Rightarrow> fatal + Config" where
  "apply_reverse_tunnel reverseTunnel config =
     (if reverseTunnel = [] then Inr config
      else let parts = split_on (CHR '':'') reverseTunnel
           in if length parts = 3
              then case Atoi (parts ! 0) of
                     (_, Some e) \<Rightarrow> Inl (InvalidRemotePort e)
                   | (remotePort, None) \<Rightarrow>
                       (let config = config\<lparr>RemotePort := remotePort, LocalHost := parts ! 1\<rparr>
                        in case Atoi (parts ! 2) of
                             (_, Some e) \<Rightarrow> Inl (InvalidLocalPort e)
                           | (localPort, None) \<Rightarrow> Inr (config\<lparr>LocalPort := localPort\<rparr>))
              else Inl InvalidReverseTunnel)"

definition apply_flags :: "int \<Rightarrow> string \<Rightarrow> string \<Rightarrow> int \<Rightarrow> string \<Rightarrow> Config \<Rightarrow> Config" where
  "apply_flags port password sshKey reconnectDelay build config =
     (let config = (if port > 0 then config\<lparr>ServerPort := port\<rparr> else config);
          config = (if password \<noteq> [] then config\<lparr>Password := password\<rparr> else config);
          config = (if sshKey \<noteq> [] then config\<lparr>SSHKeyPath := sshKey\<rparr> else config);
          config = (if reconnectDelay > 0 then config\<lparr>ReconnectDelay := reconnectDelay\<rparr> else config)
      in config\<lparr>Version := build\<rparr>)"

definition LoadConfig ::
  "env \<Rightarrow> string list \<Rightarrow> string \<Rightarrow> string \<Rightarrow> int \<Rightarrow> string \<Rightarrow> string \<Rightarrow> int \<Rightarrow> fatal + Config" where
  "LoadConfig env args build reverseTunnel port password sshKey reconnectDelay =
     (case apply_reverse_tunnel reverseTunnel (apply_user_host args (base_config env)) of
        Inl e \<Rightarrow> Inl e
      | Inr config \<Rightarrow> Inr (apply_flags port password sshKey reconnectDelay build config))"


section \<open>Domain names\<close>

definition domain_char :: "char \<Rightarrow> bool" where
  "domain_char r \<longleftrightarrow>
     (let n = of_char r :: nat
      in 97 \<le> n \<and> n \<le> 122 \<or> 65 \<le> n \<and> n \<le> 90 \<or> 48 \<le> n \<and> n \<le> 57 \<or> n = 45)"

definition IsValidDomain :: "string \<Rightarrow> bool" where
  "IsValidDomain domain =
     (if length domain = 0 \<or> length domain > 253 then False
      else let parts = split_on (CHR ''.'') domain
           in if length parts < 2 then False
              else list_all (\<lambda>part. \<not> (length part = 0 \<or> length part > 63) \<and> list_all domain_char part) parts)"


section \<open>Properties\<close>

lemma NormalizeProto_words [simp]:
  "NormalizeProto ''tcp'' = ''tcp''" "NormalizeProto ''udp'' = ''udp''" "NormalizeProto ''both'' = ''both''"
  by code_simp+

lemma NormalizeProto_cases: "NormalizeProto s \<in> {''tcp'', ''udp'', ''both''}"
  by (simp add: NormalizeProto_def Let_def)

lemma NormalizeProto_idem: "NormalizeProto (NormalizeProto s) = NormalizeProto s"
  using NormalizeProto_cases [of s] by auto

text \<open>
  The tunnel argument of the command line: \<open>-R remote:host:local\<close> for ports that fit an
  \<open>int\<close> and a host without a colon sets exactly those three fields, and \<open>user@host\<close> splits at
  the first at sign; a port above 0 and a non-empty password or key override the environment.
\<close>

theorem LoadConfig_command_line:
  assumes "min_int \<le> rp" "rp \<le> max_int" "min_int \<le> lp" "lp \<le> max_int" "CHR '':'' \<notin> set host" "CHR ''@'' \<notin> set user"
    and "0 < port" "pw \<noteq> []"
  shows "\<exists>c. LoadConfig env [user @ CHR ''@'' # srv] build (itoa rp @ CHR '':'' # host @ CHR '':'' # itoa lp) port pw key rd = Inr c \<and>
    Username c = user \<and> ServerHost c = srv \<and> ServerPort c = port \<and> Password c = pw \<and>
    RemotePort c = rp \<and> LocalHost c = host \<and> LocalPort c = lp \<and>
    SSHKeyPath c = (if key \<noteq> [] then key else getEnv env ''SSH_KEY'' []) \<and>
    Proto c \<in> {''tcp'', ''udp'', ''both''}"
proof -
  have "split_on (CHR '':'') (itoa rp @ CHR '':'' # host @ CHR '':'' # itoa lp) = [itoa rp, host, itoa lp]"
    using assms(5) by (simp add: split_on_append split_on_word)
  moreover have "split_n 2 (CHR ''@'') (user @ CHR ''@'' # srv) = [user, srv]"
    using assms(6) by (simp add: numeral_2_eq_2 split_n_append)
  ultimately show ?thesis
    using assms NormalizeProto_cases [of "getEnv env ''NSSH_PROTO'' ''both''"]
    by (simp add: LoadConfig_def apply_user_host_def apply_reverse_tunnel_def apply_flags_def Atoi_itoa Let_def base_config_def)
qed

theorem LoadConfig_command_line_witness:
  "\<exists>c. LoadConfig (\<lambda>_. []) [''me@example.org''] ''v1'' ''8000:localhost:80'' 22 ''pw'' [] 0 = Inr c \<and> LocalPort c = 80"
proof -
  have i: "itoa 8000 = ''8000''" "itoa 80 = ''80''" by (simp_all add: itoa_def digits.simps char_of_def bit_simps)
  have b: "min_int \<le> 8000" "8000 \<le> max_int" "min_int \<le> 80" "80 \<le> max_int"
    by (simp_all add: min_int_def max_int_def)
  have c: "CHR '':'' \<notin> set ''localhost''" "CHR ''@'' \<notin> set ''me''" by simp_all
  obtain c where "LoadConfig (\<lambda>_. []) [''me'' @ CHR ''@'' # ''example.org''] ''v1''
      (itoa 8000 @ CHR '':'' # ''localhost'' @ CHR '':'' # itoa 80) 22 ''pw'' [] 0 = Inr c" "LocalPort c = 80"
    using LoadConfig_command_line [OF b c, of 22 "''pw''"] by (metis list.distinct(1) zero_less_numeral)
  then show ?thesis unfolding i by (intro exI [of _ c]) simp
qed

text \<open>
  The protocol has one of three normal forms and normalising again changes nothing; a value
  that is no protocol is \<open>tcp\<close>.
\<close>

theorem NormalizeProto_normal_form:
  "NormalizeProto s \<in> {''tcp'', ''udp'', ''both''} \<and> NormalizeProto (NormalizeProto s) = NormalizeProto s \<and>
   (NormalizeProto s = ''udp'' \<longleftrightarrow> ToLower (TrimSpace s) = ''udp'') \<and> (NormalizeProto s = ''both'' \<longleftrightarrow> ToLower (TrimSpace s) = ''both'')"
  unfolding NormalizeProto_idem using NormalizeProto_cases [of s] by (simp add: NormalizeProto_def Let_def)

end
