(* ===== verification/Transport_Dial.thy ===== *)
theory Transport_Dial
  imports Config
begin

text \<open>
  The choice of the transport (\<open>base_tunnel/transport.go\<close>): the normal forms of the mode, and
  \<open>dialTransport\<close> with its cache of what each server address supports. Whether a dial succeeds
  is an argument (for QUIC depending on the timeout it is given); every dial that is made is in
  the result, in order.
\<close>

definition NormalizeTransport :: "string \<Rightarrow> string" where
  "NormalizeTransport mode =
     (let m = ToLower (TrimSpace mode)
      in if m = ''tcp'' then ''tcp'' else if m = ''quic'' then ''quic'' else ''auto'')"

definition QUICProbeTimeout :: duration where "QUICProbeTimeout = 1 * second"
definition QUICDialTimeout :: duration where "QUICDialTimeout = 10 * second"
definition QUICRetryProbeInterval :: duration where "QUICRetryProbeInterval = 5 * minute"

datatype dial = DialQUIC duration | DialTCP

record transportCacheEntry =
  ce_mode :: string
  ce_retryQUICAt :: gotime

type_synonym transportCache = "(string \<times> transportCacheEntry) list"

datatype dial_error = QuicFailed | TcpFailed | BothFailed

text \<open>
  The result: the error, or that there is a connection; the mode that is reported with it; the
  cache; the dials. \<open>now1\<close> is the time when the cache entry is tested, \<open>now2\<close> when the result of
  a failed probe is stored.
\<close>

definition before :: "instant \<Rightarrow> gotime \<Rightarrow> bool" where
  "before now t = (case t of None \<Rightarrow> False | Some u \<Rightarrow> now < u)"

definition dial_tcp :: "bool \<Rightarrow> transportCache \<Rightarrow> dial list \<Rightarrow> (dial_error option \<times> string) \<times> transportCache \<times> dial list" where
  "dial_tcp tcp cache tr = ((if tcp then None else Some TcpFailed, ''tcp''), cache, tr @ [DialTCP])"

definition probe_quic ::
  "instant \<Rightarrow> string \<Rightarrow> (duration \<Rightarrow> bool) \<Rightarrow> bool \<Rightarrow> transportCache \<Rightarrow>
   (dial_error option \<times> string) \<times> transportCache \<times> dial list" where
  "probe_quic now2 serverAddr quic tcp cache =
     (if quic QUICProbeTimeout
      then ((None, ''quic''),
            AList.update serverAddr \<lparr>ce_mode = ''quic'', ce_retryQUICAt = None\<rparr> cache, [DialQUIC QUICProbeTimeout])
      else dial_tcp tcp
             (AList.update serverAddr
               \<lparr>ce_mode = ''tcp'', ce_retryQUICAt = Some (now2 + QUICRetryProbeInterval)\<rparr> cache)
             [DialQUIC QUICProbeTimeout])"

definition dialTransport ::
  "instant \<Rightarrow> instant \<Rightarrow> string \<Rightarrow> string \<Rightarrow> (duration \<Rightarrow> bool) \<Rightarrow> bool \<Rightarrow> transportCache \<Rightarrow>
   (dial_error option \<times> string) \<times> transportCache \<times> dial list" where
  "dialTransport now1 now2 transport serverAddr quic tcp cache =
     (let mode = NormalizeTransport transport
      in if mode = ''tcp'' then dial_tcp tcp cache []
         else if mode = ''quic''
         then ((if quic QUICDialTimeout then None else Some QuicFailed, ''quic''), cache, [DialQUIC QUICDialTimeout])
         else case map_of cache serverAddr of
                Some entry \<Rightarrow>
                  if ce_mode entry = ''quic''
                  then if quic QUICDialTimeout then ((None, ''quic''), cache, [DialQUIC QUICDialTimeout])
                       else if \<not> tcp then ((Some BothFailed, ''quic''), cache, [DialQUIC QUICDialTimeout, DialTCP])
                       else ((None, ''tcp''), cache, [DialQUIC QUICDialTimeout, DialTCP])
                  else if before now1 (ce_retryQUICAt entry) then dial_tcp tcp cache []
                  else probe_quic now2 serverAddr quic tcp cache
              | None \<Rightarrow> probe_quic now2 serverAddr quic tcp cache)"

text \<open>
  The entries that \<open>dialTransport\<close> stores: quic, or tcp with the time of the next probe.
\<close>

definition entry_ok :: "transportCacheEntry \<Rightarrow> bool" where
  "entry_ok e \<longleftrightarrow> ce_mode e = ''quic'' \<or> ce_mode e = ''tcp'' \<and> ce_retryQUICAt e \<noteq> None"

definition cache_ok :: "transportCache \<Rightarrow> bool" where
  "cache_ok cache \<longleftrightarrow> (\<forall>a e. map_of cache a = Some e \<longrightarrow> entry_ok e)"

lemma cache_ok_update: "cache_ok cache \<Longrightarrow> entry_ok e \<Longrightarrow> cache_ok (AList.update a e cache)"
  by (simp add: cache_ok_def store_simps)

lemmas dial_defs = dialTransport_def probe_quic_def dial_tcp_def Let_def

lemma NormalizeTransport_cases: "NormalizeTransport s \<in> {''tcp'', ''quic'', ''auto''}"
  by (simp add: NormalizeTransport_def Let_def)

lemma NormalizeTransport_words [simp]:
  "NormalizeTransport ''tcp'' = ''tcp''" "NormalizeTransport ''quic'' = ''quic''" "NormalizeTransport ''auto'' = ''auto''"
  by code_simp+

lemma dialTransport_cache_ok:
  "cache_ok cache \<Longrightarrow> dialTransport t1 t2 tr addr quic tcp cache = (r, cache', dials) \<Longrightarrow> cache_ok cache'"
  by (auto simp: dial_defs entry_ok_def intro!: cache_ok_update split: if_splits option.splits)


section \<open>Properties\<close>

text \<open>
  The reported transport is the one in use: a connection is reported as quic exactly when
  the last dial made was a QUIC dial that succeeded, and as tcp when it was a TCP dial that
  succeeded; with mode tcp no QUIC dial is made, with mode quic no TCP dial, and in auto mode
  there is no error as long as TCP can be dialled.
\<close>

theorem dialTransport_result:
  assumes "dialTransport t1 t2 mode addr quic tcp cache = ((e, m), cache', dials)"
  shows "(e = None \<longrightarrow> (m = ''quic'' \<and> (\<exists>d. last dials = DialQUIC d \<and> quic d)) \<or> (m = ''tcp'' \<and> last dials = DialTCP \<and> tcp)) \<and>
    (NormalizeTransport mode = ''tcp'' \<longrightarrow> dials = [DialTCP]) \<and>
    (NormalizeTransport mode = ''quic'' \<longrightarrow> dials = [DialQUIC QUICDialTimeout]) \<and>
    (NormalizeTransport mode = ''auto'' \<and> tcp \<longrightarrow> e = None)"
  using assms NormalizeTransport_cases [of mode]
  by (auto simp: dial_defs split: if_splits option.splits)

theorem dialTransport_result_witness:
  "last (snd (snd (dialTransport 0 0 ''auto'' ''h'' (\<lambda>_. False) True []))) = DialTCP"
  using dialTransport_result [of 0 0 "''auto''" "''h''" "\<lambda>_. False" True "[]"]
  by (simp add: dial_defs)

text \<open>
  The cache is sticky for QUIC and patient for TCP: in auto mode a server once reached over
  QUIC is always dialled over QUIC first, with the full timeout, and a failure does not change
  its entry; after a failed probe, every dial before the retry time five minutes later goes
  straight to TCP; entries of other servers never change.
\<close>

theorem dialTransport_cache:
  assumes "NormalizeTransport mode = ''auto''"
    and "dialTransport t1 t2 mode addr quic tcp cache = (r, cache', dials)"
  shows "(\<forall>e. map_of cache addr = Some e \<and> ce_mode e = ''quic'' \<longrightarrow> cache' = cache \<and> hd dials = DialQUIC QUICDialTimeout) \<and>
    (hd dials = DialQUIC QUICProbeTimeout \<and> \<not> quic QUICProbeTimeout \<longrightarrow>
       (\<forall>t u q b. t < t2 + QUICRetryProbeInterval \<longrightarrow> snd (snd (dialTransport t u mode addr q b cache')) = [DialTCP])) \<and>
    (\<forall>a. a \<noteq> addr \<longrightarrow> map_of cache' a = map_of cache a)"
  using assms
  by (auto simp: dial_defs before_def store_simps QUICProbeTimeout_def QUICDialTimeout_def second_def
      split: if_splits option.splits)

theorem dialTransport_cache_witness:
  "snd (snd (dialTransport 1 1 ''auto'' ''h'' (\<lambda>_. True) True
      (fst (snd (dialTransport 0 0 ''auto'' ''h'' (\<lambda>_. False) True []))))) = [DialTCP]"
  using dialTransport_cache [of "''auto''" 0 0 "''h''" "\<lambda>_. False" True "[]"]
  by (simp add: dial_defs before_def duration_defs QUICRetryProbeInterval_def QUICProbeTimeout_def)

end
