(* ===== verification/Compress.thy ===== *)
theory Compress
  imports Udp_Proxy
begin

text \<open>
  The application compression of the response direction (\<open>base_tunnel/compress.go\<close>): the
  negotiation, the writer that cuts what is written into blocks and frames each of them,
  compressed or raw, and the loop that writes a buffer in full. The destination is any
  \<open>io.Writer\<close>, its contract is the locale \<open>io_writer\<close>; \<open>compress/flate\<close> is a parameter. The
  lemmas show that the frames give the written bytes back to a reader of the documented frame
  format, that a frame never grows a block by more than its header, and the fallback to raw.
\<close>

section \<open>Writers\<close>

text \<open>
  \<open>Write\<close> of an \<open>io.Writer\<close>: how many bytes it took, the error if any, the new state.
\<close>

type_synonym 'd writer = "bytes \<Rightarrow> 'd \<Rightarrow> (nat \<times> io_error option) \<times> 'd"

text \<open>
  The contract of \<open>io.Writer\<close> as \<open>writeFull\<close> relies on it: what \<open>Write\<close> reports as written is
  an initial part of its argument and has been appended to the output.
\<close>

locale io_writer =
  fixes wr :: "'d writer"
    and out :: "'d \<Rightarrow> bytes"
  assumes written_le: "wr b d = ((n, e), d') \<Longrightarrow> n \<le> length b"
    and written: "wr b d = ((n, e), d') \<Longrightarrow> out d' = out d @ take n b"

function writeFull :: "'d writer \<Rightarrow> bytes \<Rightarrow> 'd \<Rightarrow> io_error option \<times> 'd" where
  "writeFull wr b d =
     (if b = [] then (None, d)
      else case wr b d of
             ((n, Some e), d) \<Rightarrow> (Some e, d)
           | ((n, None), d) \<Rightarrow> if n = 0 then (Some ErrShortWrite, d) else writeFull wr (drop n b) d)"
  by pat_completeness auto
termination by (relation "measure (\<lambda>(wr, b, d). length b)") auto

declare writeFull.simps [simp del]

context io_writer
begin

text \<open>\<open>writeFull\<close> writes an initial part of the buffer, and all of it when it reports no error.\<close>

lemma writeFull_prefix:
  assumes "writeFull wr b d = (e, d')"
  shows "\<exists>k\<le>length b. out d' = out d @ take k b \<and> (e = None \<longrightarrow> k = length b)"
  using assms
proof (induction "length b" arbitrary: b d rule: less_induct)
  case less
  show ?case
  proof (cases "b = []")
    case True
    with less.prems show ?thesis by (simp add: writeFull.simps)
  next
    case False
    obtain n e1 d1 where w: "wr b d = ((n, e1), d1)" by (metis surj_pair)
    note W = written_le [OF w] written [OF w]
    show ?thesis
    proof (cases "e1 = None \<and> n \<noteq> 0")
      case True
      with False less.prems w have "writeFull wr (drop n b) d1 = (e, d')"
        by (simp add: writeFull.simps [of wr b d])
      moreover have "length (drop n b) < length b" using True W(1) False by simp
      ultimately obtain k where k: "k \<le> length (drop n b)" "out d' = out d1 @ take k (drop n b)"
          "e = None \<longrightarrow> k = length (drop n b)"
        using less.hyps by blast
      with W show ?thesis by (intro exI [of _ "n + k"]) (auto simp: take_add)
    next
      case other: False
      with False less.prems w have "e \<noteq> None" "d' = d1"
        by (auto simp: writeFull.simps [of wr b d] split: option.splits if_splits)
      with W show ?thesis by blast
    qed
  qed
qed

lemma writeFull_all:
  "writeFull wr b d = (None, d') \<Longrightarrow> out d' = out d @ b"
  using writeFull_prefix [of b d None d'] by auto

end

text \<open>
  The data channels of the UDP proxy are such writers: a write takes all of the buffer or fails.
\<close>

definition dc_writer :: "datachan writer" where
  "dc_writer b c = (case dc_write b c of (ok, c) \<Rightarrow> if ok then ((length b, None), c) else ((0, Some (Errorf ''channel closed'')), c))"

definition dc_out :: "datachan \<Rightarrow> bytes" where
  "dc_out c = concat (dc_sent c)"

interpretation dcw: io_writer dc_writer dc_out
  by unfold_locales (auto simp: dc_writer_def dc_write_def dc_out_def split: if_splits option.splits)


section \<open>Frames\<close>

definition compressFrameHeaderSize :: nat where "compressFrameHeaderSize = 5"
definition compressBlockSize :: nat where "compressBlockSize = 64 * 1024"
definition compressMinBlockSize :: nat where "compressMinBlockSize = 256"
definition compressFrameFlagCompressed :: byte where "compressFrameFlagCompressed = 0x01"
definition compressBadBlockLimit :: nat where "compressBadBlockLimit = 2"

lemmas compress_consts = compressFrameHeaderSize_def compressBlockSize_def compressMinBlockSize_def
  compressFrameFlagCompressed_def compressBadBlockLimit_def

definition writeCompressedFrame :: "'d writer \<Rightarrow> bytes \<Rightarrow> 'd \<Rightarrow> io_error option \<times> 'd" where
  "writeCompressedFrame wr payload =
     writeFull wr (be32 (of_nat (length payload)) @ [compressFrameFlagCompressed] @ payload)"

definition writeRawFrame :: "'d writer \<Rightarrow> bytes \<Rightarrow> 'd \<Rightarrow> io_error option \<times> 'd" where
  "writeRawFrame wr payload d =
     (case writeFull wr (be32 (of_nat (length payload)) @ [0]) d of
        (Some e, d) \<Rightarrow> (Some e, d)
      | (None, d) \<Rightarrow> writeFull wr payload d)"


section \<open>The compressing writer\<close>

text \<open>
  \<open>cw_fw\<close> is whether there is a compressor. \<open>deflate\<close> stands for resetting the compressor,
  writing one block to it and closing it: the compressed block, or its error.
\<close>

record compressWriter =
  cw_fw :: bool
  cw_rawStreak :: nat
  cw_rawOnly :: bool

definition newCompressWriter :: "bool \<Rightarrow> compressWriter" where
  "newCompressWriter fw_ok = \<lparr>cw_fw = fw_ok, cw_rawStreak = 0, cw_rawOnly = \<not> fw_ok\<rparr>"

definition writeBlock ::
  "(bytes \<Rightarrow> io_error + bytes) \<Rightarrow> 'd writer \<Rightarrow> bytes \<Rightarrow> compressWriter \<Rightarrow> 'd \<Rightarrow>
   (io_error option \<times> compressWriter) \<times> 'd" where
  "writeBlock deflate wr block w d =
     (if \<not> cw_rawOnly w \<and> cw_fw w \<and> length block \<ge> compressMinBlockSize
      then case deflate block of
             Inl e \<Rightarrow> ((Some e, w), d)
           | Inr compressed \<Rightarrow>
               if length compressed < length block
               then (case writeCompressedFrame wr compressed d of (e, d) \<Rightarrow> ((e, w\<lparr>cw_rawStreak := 0\<rparr>), d))
               else (let w = w\<lparr>cw_rawStreak := cw_rawStreak w + 1\<rparr>;
                         w = (if cw_rawStreak w \<ge> compressBadBlockLimit then w\<lparr>cw_rawOnly := True\<rparr> else w)
                     in case writeRawFrame wr block d of (e, d) \<Rightarrow> ((e, w), d))
      else case writeRawFrame wr block d of (e, d) \<Rightarrow> ((e, w), d))"

text \<open>\<open>Write\<close>: how many bytes of \<open>p\<close> were taken, the error, the new state.\<close>

function cw_write ::
  "(bytes \<Rightarrow> io_error + bytes) \<Rightarrow> 'd writer \<Rightarrow> bytes \<Rightarrow> compressWriter \<Rightarrow> 'd \<Rightarrow>
   (nat \<times> io_error option) \<times> compressWriter \<times> 'd" where
  "cw_write deflate wr p w d =
     (if p = [] then ((0, None), w, d)
      else let n = min (length p) compressBlockSize
           in case writeBlock deflate wr (take n p) w d of
                ((Some e, w), d) \<Rightarrow> ((0, Some e), w, d)
              | ((None, w), d) \<Rightarrow>
                  (case cw_write deflate wr (drop n p) w d of ((taken, e), w, d) \<Rightarrow> ((n + taken, e), w, d)))"
  by pat_completeness auto
termination by (relation "measure (\<lambda>(deflate, wr, p, w, d). length p)") (auto simp: compress_consts)

declare cw_write.simps [simp del]


section \<open>Negotiation\<close>

datatype compress_answer = NoAnswerInTime | SendError | Reply bool

definition negotiateCompress :: "compress_answer \<Rightarrow> bool \<times> bool" where
  "negotiateCompress a =
     (case a of NoAnswerInTime \<Rightarrow> (False, False) | SendError \<Rightarrow> (False, True) | Reply ok \<Rightarrow> (ok, True))"


section \<open>What a reader of the frames gets\<close>

text \<open>
  The frame format as it is documented for the peer: 4 bytes length, 1 byte flags (bit 0: the
  payload is compressed), payload.
\<close>

definition compress_frame :: "bool \<times> bytes \<Rightarrow> bytes" where
  "compress_frame fp = be32 (of_nat (length (snd fp))) @ [if fst fp then compressFrameFlagCompressed else 0] @ snd fp"

definition read_compress_frame :: "(bool \<times> bytes) reader" where
  "read_compress_frame =
     rd_bind (read_full compressFrameHeaderSize) (\<lambda>hdr.
       rd_bind (read_full (unat (un_be (slice_of hdr 0 4) :: 32 word))) (\<lambda>payload.
         rd_return (hdr ! 4 AND compressFrameFlagCompressed \<noteq> 0, payload)))"

definition frame_fits :: "bool \<times> bytes \<Rightarrow> bool" where
  "frame_fits fp \<longleftrightarrow> length (snd fp) < 2 ^ 32"

interpretation cframe: frame_codec compress_frame read_compress_frame frame_fits
proof unfold_locales
  fix fp :: "bool \<times> bytes" and rest e
  assume fits: "frame_fits fp"
  obtain c payload where fp: "fp = (c, payload)" by (cases fp)
  let ?hdr = "be32 (of_nat (length payload)) @ [if c then compressFrameFlagCompressed else 0]"
  have "unat (un_be (slice_of ?hdr 0 4) :: 32 word) = length payload"
    using fits fp by (simp add: slice_of_def frame_fits_def unat_of_nat_less)
  moreover have "read_full compressFrameHeaderSize (on_wire ((?hdr @ payload) @ rest) e) =
      (Inr ?hdr, on_wire (payload @ rest) e)"
    using read_full_append [of ?hdr 5 "payload @ rest" e] by (simp add: compress_consts)
  moreover have "(?hdr ! 4 AND compressFrameFlagCompressed \<noteq> 0) = c"
    by (simp add: nth_append compress_consts)
  ultimately show "read_compress_frame (on_wire (compress_frame fp @ rest) e) = (Inr fp, on_wire rest e)"
    by (simp add: read_compress_frame_def compress_frame_def fp rd_bind_def read_full_append rd_return_def)
qed (simp add: compress_frame_def be32_def)


section \<open>What the writer writes\<close>

definition unframe :: "(bytes \<Rightarrow> bytes) \<Rightarrow> bool \<times> bytes \<Rightarrow> bytes" where
  "unframe inflate fp = (if fst fp then inflate (snd fp) else snd fp)"

text \<open>The documented behaviour of \<open>compress/flate\<close>: inflating a compressed block gives the block.\<close>

definition inflates :: "(bytes \<Rightarrow> bytes) \<Rightarrow> (bytes \<Rightarrow> io_error + bytes) \<Rightarrow> bool" where
  "inflates inflate deflate \<longleftrightarrow> (\<forall>b z. deflate b = Inr z \<longrightarrow> inflate z = b)"

definition block_count :: "nat \<Rightarrow> nat" where
  "block_count n = (n + compressBlockSize - 1) div compressBlockSize"

lemma block_count_0 [simp]: "block_count 0 = 0"
  by (simp add: block_count_def compress_consts)

lemma block_count_step: "0 < n \<Longrightarrow> block_count n = Suc (block_count (n - min n compressBlockSize))"
proof (cases "n \<le> compressBlockSize")
  case True
  assume "0 < n"
  with True have n: "n + compressBlockSize - 1 = (n - 1) + compressBlockSize" "n - 1 < compressBlockSize" by auto
  have "block_count n = 1" unfolding block_count_def n(1) using n(2) div_add_self2 [of compressBlockSize "n - 1"] by simp
  with True show ?thesis by (simp add: min_def)
next
  case False
  have pos: "0 < compressBlockSize" by (simp add: compressBlockSize_def)
  have e: "n + compressBlockSize - 1 = (n - 1) + compressBlockSize"
    "n - compressBlockSize + compressBlockSize - 1 = n - 1" using False pos by linarith+
  have "block_count n = (n - 1 + compressBlockSize) div compressBlockSize"
    by (simp only: block_count_def e(1))
  also have "\<dots> = Suc ((n - 1) div compressBlockSize)"
    using div_add_self2 [of compressBlockSize "n - 1"] pos by linarith
  also have "\<dots> = Suc (block_count (n - compressBlockSize))" by (simp only: block_count_def e(2))
  finally show ?thesis using False by (simp add: min_def)
qed

context io_writer
begin

lemma writeRawFrame_out:
  assumes "writeRawFrame wr b d = (e, d')"
  shows "\<exists>k. out d' = out d @ take k (compress_frame (False, b)) \<and>
    (e = None \<longrightarrow> out d' = out d @ compress_frame (False, b))"
proof -
  let ?h = "be32 (of_nat (length b)) @ [0] :: bytes"
  have fr: "compress_frame (False, b) = ?h @ b" by (simp add: compress_frame_def)
  obtain e1 d1 where h: "writeFull wr ?h d = (e1, d1)" by fastforce
  obtain k where k: "k \<le> length ?h" "out d1 = out d @ take k ?h" "e1 = None \<longrightarrow> k = length ?h"
    using writeFull_prefix [OF h] by blast
  show ?thesis
  proof (cases e1)
    case None
    with h assms have b: "writeFull wr b d1 = (e, d')" by (simp add: writeRawFrame_def)
    obtain l where l: "l \<le> length b" "out d' = out d1 @ take l b" "e = None \<longrightarrow> l = length b"
      using writeFull_prefix [OF b] by blast
    with k None have "out d' = out d @ take (length ?h + l) (?h @ b)" by simp
    with k None l show ?thesis unfolding fr by (intro exI [of _ "length ?h + l"]) auto
  next
    case (Some x)
    with h assms have "e = Some x" "d' = d1" by (simp_all add: writeRawFrame_def)
    moreover have "take k (?h @ b) = take k ?h" using k(1) by (simp only: take_append) simp
    ultimately show ?thesis unfolding fr using k(2) by (intro exI [of _ k]) (simp only:, simp)
  qed
qed

lemma writeCompressedFrame_out:
  assumes "writeCompressedFrame wr b d = (e, d')"
  shows "\<exists>k. out d' = out d @ take k (compress_frame (True, b)) \<and>
    (e = None \<longrightarrow> out d' = out d @ compress_frame (True, b))"
proof -
  have "compress_frame (True, b) = be32 (of_nat (length b)) @ [compressFrameFlagCompressed] @ b"
    by (simp add: compress_frame_def)
  with writeFull_prefix [of "compress_frame (True, b)" d e d'] assms show ?thesis
    by (auto simp: writeCompressedFrame_def)
qed

text \<open>A block gives one frame, or a part of one when a write fails.\<close>

lemma writeBlock_out:
  assumes "writeBlock deflate wr block w d = ((e, w'), d')"
  shows "\<exists>fp k. (fst fp \<longrightarrow> deflate block = Inr (snd fp) \<and> length (snd fp) < length block) \<and>
    (\<not> fst fp \<longrightarrow> snd fp = block) \<and> out d' = out d @ take k (compress_frame fp) \<and>
    (e = None \<longrightarrow> out d' = out d @ compress_frame fp)"
proof (cases "\<not> cw_rawOnly w \<and> cw_fw w \<and> length block \<ge> compressMinBlockSize")
  case False
  with assms have "writeRawFrame wr block d = (e, d')"
    by (auto simp: writeBlock_def split: prod.splits)
  from writeRawFrame_out [OF this] show ?thesis by (intro exI [of _ "(False, block)"]) auto
next
  case comp: True
  show ?thesis
  proof (cases "deflate block")
    case (Inl x)
    with comp assms have "e = Some x" "d' = d" by (simp_all add: writeBlock_def)
    then show ?thesis by (intro exI [of _ "(False, block)"] exI [of _ 0]) simp
  next
    case (Inr z)
    show ?thesis
    proof (cases "length z < length block")
      case True
      with comp Inr assms have "writeCompressedFrame wr z d = (e, d')"
        by (auto simp: writeBlock_def split: prod.splits)
      from writeCompressedFrame_out [OF this] True Inr show ?thesis
        by (intro exI [of _ "(True, z)"]) auto
    next
      case False
      with comp Inr assms have "writeRawFrame wr block d = (e, d')"
        by (auto simp: writeBlock_def Let_def split: prod.splits if_splits)
      from writeRawFrame_out [OF this] show ?thesis by (intro exI [of _ "(False, block)"]) auto
    qed
  qed
qed

lemma cw_write_out:
  assumes "inflates inflate deflate" "cw_write deflate wr p w d = ((n, e), w', d')"
  shows "\<exists>fs rest. list_all frame_fits fs \<and> out d' = out d @ concat (map compress_frame fs) @ rest \<and>
    concat (map (unframe inflate) fs) = take n p \<and> n \<le> length p \<and>
    list_all (\<lambda>fp. length (snd fp) \<le> length (unframe inflate fp)) fs \<and>
    (e = None \<longrightarrow> n = length p \<and> rest = [] \<and> length fs = block_count (length p))"
  using assms(2)
proof (induction "length p" arbitrary: p w d n e w' d' rule: less_induct)
  case less
  show ?case
  proof (cases "p = []")
    case True
    with less.prems have "n = 0" "e = None" "d' = d" by (simp_all add: cw_write.simps [of _ _ "[]"])
    with True show ?thesis by (intro exI [of _ "[]"]) simp
  next
    case ne: False
    let ?m = "min (length p) compressBlockSize"
    have m: "0 < ?m" "?m \<le> compressBlockSize" "?m \<le> length p" using ne by (simp_all add: compress_consts)
    obtain e1 w1 d1 where b: "writeBlock deflate wr (take ?m p) w d = ((e1, w1), d1)" by (metis surj_pair)
    obtain fp k where fp: "fst fp \<longrightarrow> deflate (take ?m p) = Inr (snd fp) \<and> length (snd fp) < length (take ?m p)"
        "\<not> fst fp \<longrightarrow> snd fp = take ?m p" "out d1 = out d @ take k (compress_frame fp)"
        "e1 = None \<longrightarrow> out d1 = out d @ compress_frame fp"
      using writeBlock_out [OF b] by blast
    have un: "unframe inflate fp = take ?m p"
      using fp(1,2) assms(1) by (auto simp: unframe_def inflates_def)
    have small: "length (snd fp) \<le> length (take ?m p)" using fp(1,2) by (cases "fst fp") auto
    then have fits: "frame_fits fp" using m(2) by (simp add: frame_fits_def compress_consts)
    show ?thesis
    proof (cases e1)
      case (Some x)
      with ne b less.prems have "n = 0" "e = Some x" "d' = d1"
        by (simp_all add: cw_write.simps [of _ _ p] Let_def)
      with fp(3) show ?thesis by (intro exI [of _ "[]"] exI [of _ "take k (compress_frame fp)"]) simp
    next
      case None
      obtain n2 where r: "cw_write deflate wr (drop ?m p) w1 d1 = ((n2, e), w', d')" "n = ?m + n2"
        using ne b None less.prems by (auto simp: cw_write.simps [of _ _ p] Let_def split: prod.splits)
      have "length (drop ?m p) < length p" using m by simp
      from less.hyps [OF this r(1)] obtain fs rest where
        fs: "list_all frame_fits fs" "out d' = out d1 @ concat (map compress_frame fs) @ rest"
          "concat (map (unframe inflate) fs) = take n2 (drop ?m p)" "n2 \<le> length (drop ?m p)"
          "list_all (\<lambda>fp. length (snd fp) \<le> length (unframe inflate fp)) fs"
          "e = None \<longrightarrow> n2 = length (drop ?m p) \<and> rest = [] \<and> length fs = block_count (length (drop ?m p))"
        by blast
      have "block_count (length p) = Suc (block_count (length p - ?m))"
        using ne by (intro block_count_step) simp
      with fs fp(4) None un small fits r(2) m(3) show ?thesis
        by (intro exI [of _ "fp # fs"] exI [of _ rest]) (auto simp: take_add)
    qed
  qed
qed

end


section \<open>Properties\<close>

text \<open>
  C8. Compression is transparent: whatever the destination does within the contract of
  \<open>io.Writer\<close>, when \<open>Write\<close> returns, the peer that reads frames of the documented format and
  inflates the compressed ones gets exactly the bytes that \<open>Write\<close> reports as written, and
  after an error at most a part of one more frame is on the wire. Without an error all bytes
  are written, in one frame per 64 KiB block, and the frames are at most 5 bytes per block longer.
\<close>

theorem compress_transparent:
  assumes "io_writer wr out" "inflates inflate deflate" "cw_write deflate wr p w d = ((n, e), w', d')"
  shows "\<exists>fs rest. out d' = out d @ concat (map compress_frame fs) @ rest \<and>
    (\<forall>tail err. read_frames (length fs) read_compress_frame (on_wire (concat (map compress_frame fs) @ tail) err) =
       (Inr fs, on_wire tail err)) \<and>
    concat (map (unframe inflate) fs) = take n p \<and> n \<le> length p \<and>
    length (concat (map compress_frame fs)) \<le> n + 5 * length fs \<and>
    (e = None \<longrightarrow> n = length p \<and> rest = [] \<and> length fs = block_count (length p))"
proof -
  from io_writer.cw_write_out [OF assms] obtain fs rest where
    fs: "list_all frame_fits fs" "out d' = out d @ concat (map compress_frame fs) @ rest"
      "concat (map (unframe inflate) fs) = take n p" "n \<le> length p"
      "list_all (\<lambda>fp. length (snd fp) \<le> length (unframe inflate fp)) fs"
      "e = None \<longrightarrow> n = length p \<and> rest = [] \<and> length fs = block_count (length p)" by blast
  have "length (concat (map compress_frame gs)) \<le> length (concat (map (unframe inflate) gs)) + 5 * length gs"
    if "list_all (\<lambda>fp. length (snd fp) \<le> length (unframe inflate fp)) gs" for gs
    using that by (induction gs) (auto simp: compress_frame_def)
  from this [OF fs(5)] have "length (concat (map compress_frame fs)) \<le> n + 5 * length fs"
    using fs(3,4) by simp
  with fs cframe.read_frames_concat [OF fs(1)] show ?thesis by blast
qed

abbreviation fresh_chan :: datachan where
  "fresh_chan \<equiv> \<lparr>dc_sent = [], dc_limit = None, dc_closed = False\<rparr>"

theorem compress_transparent_witness:
  "\<exists>fs. dc_out (snd (snd (cw_write (\<lambda>b. Inr (0 # b)) dc_writer [7, 8] (newCompressWriter True) fresh_chan))) =
     concat (map compress_frame fs) \<and> concat (map (unframe (drop 1)) fs) = [7, 8]"
proof -
  let ?r = "cw_write (\<lambda>b. Inr (0 # b)) dc_writer [7, 8] (newCompressWriter True) fresh_chan"
  have inf: "inflates (drop 1) (\<lambda>b. Inr (0 # b))" by (auto simp: inflates_def)
  have r: "?r = ((2, None), fst (snd ?r), snd (snd ?r))"
    by (simp add: cw_write.simps writeBlock_def newCompressWriter_def compress_consts writeRawFrame_def
        writeFull.simps dc_writer_def dc_write_def Let_def be32_def prod_eq_iff)
  from compress_transparent [OF dcw.io_writer_axioms inf r] show ?thesis
    by (auto simp: dc_out_def)
qed

text \<open>
  The fallback to raw frames is permanent: after two blocks of at least 256 bytes in a row
  that the compressor did not shrink, every later block goes out as a raw frame, and the
  compressor is not called again.
\<close>

definition incompressible :: "(bytes \<Rightarrow> io_error + bytes) \<Rightarrow> bytes \<Rightarrow> bool" where
  "incompressible deflate b \<longleftrightarrow>
     compressMinBlockSize \<le> length b \<and> (\<exists>z. deflate b = Inr z \<and> length b \<le> length z)"

theorem raw_fallback_permanent:
  assumes "incompressible deflate b1" "incompressible deflate b2" "cw_fw w" "\<not> cw_rawOnly w"
    and "writeBlock deflate wr b1 w d = ((None, w1), d1)" "writeBlock deflate wr b2 w1 d1 = ((None, w2), d2)"
  shows "cw_rawOnly w2 \<and> (\<forall>deflate' block d. writeBlock deflate' wr block w2 d =
     (case writeRawFrame wr block d of (e, d') \<Rightarrow> ((e, w2), d')))"
proof -
  have w1: "cw_fw w1 \<and> 1 \<le> cw_rawStreak w1"
    using assms(1,3-5) by (auto simp: writeBlock_def incompressible_def Let_def split: prod.splits if_splits)
  have "cw_rawOnly w2"
  proof (cases "cw_rawOnly w1")
    case True
    with assms(6) show ?thesis by (auto simp: writeBlock_def split: prod.splits)
  next
    case False
    with assms(2,6) w1 show ?thesis
      by (auto simp: writeBlock_def incompressible_def Let_def compress_consts split: prod.splits if_splits)
  qed
  then show ?thesis by (simp add: writeBlock_def)
qed

lemma dc_raw_frame:
  "writeRawFrame dc_writer (replicate 256 0) c = (e, c') \<Longrightarrow> dc_limit c = None \<Longrightarrow> \<not> dc_closed c \<Longrightarrow>
     e = None \<and> dc_limit c' = None \<and> \<not> dc_closed c'"
  by (auto simp: writeRawFrame_def writeFull.simps dc_writer_def dc_write_def be32_def split: if_splits)

theorem raw_fallback_permanent_witness:
  "\<exists>w2 d2. cw_rawOnly w2 \<and> writeBlock (\<lambda>b. Inr []) dc_writer (replicate 256 0) w2 d2 =
     (case writeRawFrame dc_writer (replicate 256 0) d2 of (e, d') \<Rightarrow> ((e, w2), d'))"
proof -
  let ?b = "replicate 256 0 :: bytes" and ?w = "newCompressWriter True"
  have inc: "incompressible Inr ?b" by (simp add: incompressible_def compress_consts)
  obtain e1 d1 where r1: "writeRawFrame dc_writer ?b fresh_chan = (e1, d1)" by fastforce
  obtain e2 d2 where r2: "writeRawFrame dc_writer ?b d1 = (e2, d2)" by fastforce
  from dc_raw_frame [OF r1] dc_raw_frame [OF r2] have e: "e1 = None" "e2 = None" by simp_all
  let ?w1 = "?w\<lparr>cw_rawStreak := 1\<rparr>"
  have b1: "writeBlock Inr dc_writer ?b ?w fresh_chan = ((None, ?w1), d1)"
    using r1 e by (simp add: writeBlock_def newCompressWriter_def compress_consts Let_def)
  have b2: "writeBlock Inr dc_writer ?b ?w1 d1 = ((None, ?w1\<lparr>cw_rawStreak := 2, cw_rawOnly := True\<rparr>), d2)"
    using r2 e by (simp add: writeBlock_def newCompressWriter_def compress_consts Let_def)
  show ?thesis
    using raw_fallback_permanent [OF inc inc _ _ b1 b2]
    by (intro exI [of _ "?w1\<lparr>cw_rawStreak := 2, cw_rawOnly := True\<rparr>"] exI [of _ d2]) (simp add: newCompressWriter_def)
qed

text \<open>
  The negotiation reports a doubt about the peer only after a timeout: an error of the
  request itself counts as a refusal (\<open>ok\<close> is true), unlike what its description says of
  connection errors; compression is on exactly when the peer agreed.
\<close>

theorem negotiate_outcomes:
  "(fst (negotiateCompress a) \<longleftrightarrow> a = Reply True) \<and> (\<not> snd (negotiateCompress a) \<longleftrightarrow> a = NoAnswerInTime) \<and>
   negotiateCompress SendError = negotiateCompress (Reply False)"
  by (cases a) (auto simp: negotiateCompress_def)

end
