(* ===== verification/Stats.thy ===== *)
theory Stats
  imports Config
begin

text \<open>
  The statistics of a worker (\<open>base_core/stats.go\<close>): counters, the connection status and since
  when it holds, the periodic report. Counters are \<open>int64\<close>, that is 64 bit words. The body of the
  report that is sent to Loki is in \<open>Loki\<close>; its memory figures, of the Go runtime, are not modelled.
\<close>

record Stats =
  sa_Username :: string
  sa_ServerHost :: string
  sa_ServerPort :: int
  sa_LocalHost :: string
  sa_LocalPort :: int
  sa_StartTime :: instant
  sa_Uptime :: duration
  sa_ConnectionCount :: "64 word"
  sa_FailureCount :: "64 word"
  sa_LastConnectTime :: gotime
  sa_StatusDuration :: duration
  sa_BytesTransferred :: "64 word"
  sa_ConnectionStatus :: string
  sa_LastStatusChangeTime :: instant

text \<open>
  \<open>sm_stopChan\<close>: whether the report goroutine's stop channel exists and is open.
\<close>

datatype stop_chan = NoChan | OpenChan | ClosedChan

record StatsManager =
  sm_stats :: Stats
  sm_stopChan :: stop_chan
  sm_hook :: bool
  sm_lokiURL :: string
  sm_enableDaemon :: bool

definition NewStatsManager :: "instant \<Rightarrow> Config \<Rightarrow> bool \<Rightarrow> StatsManager" where
  "NewStatsManager now config enableDaemon =
     \<lparr>sm_stats = \<lparr>sa_Username = Username config, sa_ServerHost = ServerHost config,
        sa_ServerPort = ServerPort config, sa_LocalHost = LocalHost config, sa_LocalPort = LocalPort config,
        sa_StartTime = now, sa_Uptime = 0, sa_ConnectionCount = 0, sa_FailureCount = 0,
        sa_LastConnectTime = None, sa_StatusDuration = 0, sa_BytesTransferred = 0,
        sa_ConnectionStatus = ''offline'', sa_LastStatusChangeTime = now\<rparr>,
      sm_stopChan = NoChan, sm_hook = False, sm_lokiURL = [], sm_enableDaemon = enableDaemon\<rparr>"

definition set_status :: "instant \<Rightarrow> string \<Rightarrow> Stats \<Rightarrow> Stats" where
  "set_status now status s =
     (if sa_ConnectionStatus s \<noteq> status
      then s\<lparr>sa_ConnectionStatus := status, sa_LastStatusChangeTime := now\<rparr> else s)"

definition RecordConnection :: "instant \<Rightarrow> StatsManager \<Rightarrow> StatsManager" where
  "RecordConnection now sm =
     (let s = (sm_stats sm)\<lparr>sa_ConnectionCount := sa_ConnectionCount (sm_stats sm) + 1, sa_LastConnectTime := Some now\<rparr>
      in sm\<lparr>sm_stats := set_status now ''online'' s\<rparr>)"

definition RecordFailure :: "instant \<Rightarrow> StatsManager \<Rightarrow> StatsManager" where
  "RecordFailure now sm =
     (let s = (sm_stats sm)\<lparr>sa_FailureCount := sa_FailureCount (sm_stats sm) + 1\<rparr>
      in sm\<lparr>sm_stats := set_status now ''offline'' s\<rparr>)"

definition RecordDisconnection :: "instant \<Rightarrow> StatsManager \<Rightarrow> StatsManager" where
  "RecordDisconnection now sm = sm\<lparr>sm_stats := set_status now ''offline'' (sm_stats sm)\<rparr>"

definition GetStatus :: "StatsManager \<Rightarrow> string" where
  "GetStatus sm = sa_ConnectionStatus (sm_stats sm)"

definition GetStartTime :: "StatsManager \<Rightarrow> instant" where
  "GetStartTime sm = sa_StartTime (sm_stats sm)"

definition GetLastStatusChangeTime :: "StatsManager \<Rightarrow> instant" where
  "GetLastStatusChangeTime sm = sa_LastStatusChangeTime (sm_stats sm)"

definition AddBytesTransferred :: "64 word \<Rightarrow> StatsManager \<Rightarrow> StatsManager" where
  "AddBytesTransferred n sm =
     sm\<lparr>sm_stats := (sm_stats sm)\<lparr>sa_BytesTransferred := sa_BytesTransferred (sm_stats sm) + n\<rparr>\<rparr>"

definition GetBytesTransferred :: "StatsManager \<Rightarrow> 64 word" where
  "GetBytesTransferred sm = sa_BytesTransferred (sm_stats sm)"

text \<open>
  \<open>PrintStatus\<close> rounds the two durations to seconds (half away from zero), starts a push to Loki
  when there is a URL, and ends the process when the worker has been offline for more than seven
  days. The result: whether it pushes, whether it calls the memory hook, whether it exits.
\<close>

definition round_second :: "duration \<Rightarrow> duration" where
  "round_second d =
     (if 0 \<le> d then (d + second div 2) div second * second else - ((- d + second div 2) div second * second))"

record report =
  rp_loki :: bool
  rp_fatal :: bool
  rp_hook :: bool

definition PrintStatus :: "instant \<Rightarrow> StatsManager \<Rightarrow> report \<times> StatsManager" where
  "PrintStatus now sm =
     (let s = sm_stats sm;
          s = s\<lparr>sa_Uptime := round_second (now - sa_StartTime s),
                sa_StatusDuration := round_second (now - sa_LastStatusChangeTime s)\<rparr>;
          fatal = (sa_ConnectionStatus s = ''offline'' \<and> now - sa_LastStatusChangeTime s > 7 * 24 * 60 * minute)
      in (\<lparr>rp_loki = (sm_lokiURL sm \<noteq> []), rp_fatal = fatal, rp_hook = (\<not> fatal \<and> sm_hook sm)\<rparr>, sm\<lparr>sm_stats := s\<rparr>))"

text \<open>\<open>Stop\<close> closes the stop channel; closing it again is a panic (\<open>None\<close>).\<close>

definition StartPeriodicReport :: "StatsManager \<Rightarrow> StatsManager" where
  "StartPeriodicReport sm = sm\<lparr>sm_stopChan := OpenChan\<rparr>"

definition Stop :: "StatsManager \<Rightarrow> StatsManager option" where
  "Stop sm =
     (case sm_stopChan sm of
        NoChan \<Rightarrow> Some sm
      | OpenChan \<Rightarrow> Some (sm\<lparr>sm_stopChan := ClosedChan\<rparr>)
      | ClosedChan \<Rightarrow> None)"

definition SetMemoryHook :: "bool \<Rightarrow> StatsManager \<Rightarrow> StatsManager" where
  "SetMemoryHook hook sm = sm\<lparr>sm_hook := hook\<rparr>"

definition SetLokiURL :: "string \<Rightarrow> StatsManager \<Rightarrow> StatsManager" where
  "SetLokiURL url sm = sm\<lparr>sm_lokiURL := url\<rparr>"


section \<open>Runs of the recording operations\<close>

datatype stat_event = Connected instant | Failed instant | Disconnected instant | Moved "64 word" | Reported instant

fun stat_step :: "stat_event \<Rightarrow> StatsManager \<Rightarrow> StatsManager" where
  "stat_step (Connected t) sm = RecordConnection t sm"
| "stat_step (Failed t) sm = RecordFailure t sm"
| "stat_step (Disconnected t) sm = RecordDisconnection t sm"
| "stat_step (Moved n) sm = AddBytesTransferred n sm"
| "stat_step (Reported t) sm = snd (PrintStatus t sm)"

definition stat_run :: "stat_event list \<Rightarrow> StatsManager \<Rightarrow> StatsManager" where
  "stat_run es sm = fold stat_step es sm"

text \<open>
  The specification looks at the history only: the status is that of the last event that sets it,
  and it holds since the first event of the last stretch of events that set the same status.
\<close>

fun sets_status :: "stat_event \<Rightarrow> (string \<times> instant) option" where
  "sets_status (Connected t) = Some (''online'', t)"
| "sets_status (Failed t) = Some (''offline'', t)"
| "sets_status (Disconnected t) = Some (''offline'', t)"
| "sets_status (Moved n) = None"
| "sets_status (Reported t) = None"

definition status_history :: "instant \<Rightarrow> stat_event list \<Rightarrow> (string \<times> instant) list" where
  "status_history t0 es = (''offline'', t0) # List.map_filter sets_status es"

definition last_stretch :: "(string \<times> instant) list \<Rightarrow> (string \<times> instant) list" where
  "last_stretch h = rev (takeWhile (\<lambda>x. fst x = fst (last h)) (rev h))"

lemma last_stretch_nonempty: "h \<noteq> [] \<Longrightarrow> last_stretch h \<noteq> []"
  by (cases h rule: rev_cases) (simp_all add: last_stretch_def)

lemma last_stretch_snoc:
  "h \<noteq> [] \<Longrightarrow> last_stretch (h @ [x]) = (if fst x = fst (last h) then last_stretch h @ [x] else [x])"
  by (cases h rule: rev_cases) (auto simp: last_stretch_def)

lemma status_history_snoc:
  "status_history t0 (es @ [e]) =
     status_history t0 es @ (case sets_status e of None \<Rightarrow> [] | Some x \<Rightarrow> [x])"
  by (simp add: status_history_def List.map_filter_def split: option.splits)

lemma stat_run_snoc: "stat_run (es @ [e]) sm = stat_step e (stat_run es sm)"
  by (simp add: stat_run_def)

lemmas record_defs = RecordConnection_def RecordFailure_def RecordDisconnection_def AddBytesTransferred_def
  PrintStatus_def set_status_def Let_def

lemma GetStatus_record [simp]:
  "GetStatus (RecordConnection t sm) = ''online''" "GetStatus (RecordFailure t sm) = ''offline''"
  "GetStatus (RecordDisconnection t sm) = ''offline''"
  by (simp_all add: GetStatus_def record_defs)

lemma stat_run_status:
  "GetStatus (stat_run es (NewStatsManager t0 config d)) = fst (last (status_history t0 es)) \<and>
   GetLastStatusChangeTime (stat_run es (NewStatsManager t0 config d)) = snd (hd (last_stretch (status_history t0 es)))"
proof (induction es rule: rev_induct)
  case Nil
  then show ?case
    by (simp add: stat_run_def status_history_def last_stretch_def NewStatsManager_def GetStatus_def
        GetLastStatusChangeTime_def List.map_filter_def)
next
  case (snoc e es)
  have ne: "status_history t0 es \<noteq> []" by (simp add: status_history_def)
  note ih = snoc.IH [unfolded GetStatus_def GetLastStatusChangeTime_def]
  show ?case
    using ih ne last_stretch_nonempty [OF ne] unfolding GetStatus_def GetLastStatusChangeTime_def
    by (cases e) (auto simp: stat_run_snoc status_history_snoc last_stretch_snoc record_defs)
qed

lemma stat_run_counts:
  "sa_ConnectionCount (sm_stats (stat_run es sm)) =
     sa_ConnectionCount (sm_stats sm) + of_nat (length (filter (\<lambda>e. \<exists>t. e = Connected t) es)) \<and>
   sa_FailureCount (sm_stats (stat_run es sm)) =
     sa_FailureCount (sm_stats sm) + of_nat (length (filter (\<lambda>e. \<exists>t. e = Failed t) es))"
proof (induction es rule: rev_induct)
  case Nil
  then show ?case by (simp add: stat_run_def)
next
  case (snoc e es)
  then show ?case by (cases e) (auto simp: stat_run_snoc record_defs)
qed


section \<open>Properties\<close>

text \<open>
  C22. The statistics are what the history says: after any sequence of connections, failures,
  disconnections, transfers and reports, the status is that of the last event that sets it, the
  time of its last change is that of the first event of the last stretch of events setting the
  same status, the counters are the numbers of events modulo \<open>2 ^ 64\<close>; and a report ends the
  process exactly when the worker is offline and this stretch began more than seven days ago.
\<close>

theorem stats_history:
  "let sm = stat_run es (NewStatsManager t0 config d); h = status_history t0 es
   in GetStatus sm = fst (last h) \<and> GetLastStatusChangeTime sm = snd (hd (last_stretch h)) \<and>
      sa_ConnectionCount (sm_stats sm) = of_nat (length (filter (\<lambda>e. \<exists>t. e = Connected t) es)) \<and>
      sa_FailureCount (sm_stats sm) = of_nat (length (filter (\<lambda>e. \<exists>t. e = Failed t) es)) \<and>
      (rp_fatal (fst (PrintStatus now sm)) \<longleftrightarrow>
         fst (last h) = ''offline'' \<and> now - snd (hd (last_stretch h)) > 7 * 24 * 60 * minute)"
  using stat_run_status [of es t0 config d] stat_run_counts [of es "NewStatsManager t0 config d"]
  by (simp add: Let_def PrintStatus_def GetStatus_def GetLastStatusChangeTime_def NewStatsManager_def)

end
