(* ===== verification/Data_Plane.thy ===== *)
theory Data_Plane
  imports Compress Stats
begin

text \<open>
  The data plane of QUIC transports (\<open>base_tunnel/data_plane.go\<close>) and the copying between a
  tunnel channel and the local service (\<open>base_tunnel/handler.go\<close>). The data plane reads DATA_OPEN
  frames from its control channel; for each it dials the local service and opens a stream, or
  answers with a DATA_ERROR frame. What the dial, the opening and the first write give are
  arguments. The two copy directions of a handler and its waiting goroutine are a step relation.
\<close>

section \<open>Frames of the control channel\<close>

definition maxDataFrameFieldLen :: nat where "maxDataFrameFieldLen = 65535"
definition dataFrameTypeOpen :: byte where "dataFrameTypeOpen = 1"
definition dataFrameTypeError :: byte where "dataFrameTypeError = 2"
definition dataStreamMagic :: bytes where "dataStreamMagic = [0x00, 0x4E, 0x57, 0x59]"

lemmas data_consts = maxDataFrameFieldLen_def dataFrameTypeOpen_def dataFrameTypeError_def dataStreamMagic_def

definition dataPlaneEnabled :: "env \<Rightarrow> bool" where
  "dataPlaneEnabled env \<longleftrightarrow>
     ToLower (TrimSpace (env ''NSSH_DATA_PLANE'')) \<notin> {''off'', ''0'', ''false'', ''disabled''}"

record dataOpenFrame =
  do_connID :: "64 word"
  do_port :: "32 word"
  do_originHost :: bytes
  do_originPort :: "32 word"

definition readDataOpenFrame :: "dataOpenFrame reader" where
  "readDataOpenFrame =
     rd_bind (read_full 9) (\<lambda>hdr.
       let typ = hdr ! 0; connID = un_be (slice_of hdr 1 9)
       in if typ = dataFrameTypeOpen
          then rd_bind (read_full 6) (\<lambda>meta.
            let port = un_be (slice_of meta 0 4); hostLen = unat (un_be (slice_of meta 4 6) :: 16 word)
            in rd_bind (read_full hostLen) (\<lambda>host.
              rd_bind (read_full 4) (\<lambda>portBuf.
                rd_return \<lparr>do_connID = connID, do_port = port, do_originHost = host, do_originPort = un_be portBuf\<rparr>)))
          else rd_fail (Errorf ''unknown data plane frame type''))"

definition encodeDataErrorFrame :: "64 word \<Rightarrow> bytes \<Rightarrow> bytes" where
  "encodeDataErrorFrame connID reason =
     (let msg = (if length reason > maxDataFrameFieldLen then take maxDataFrameFieldLen reason else reason)
      in [dataFrameTypeError] @ be64 connID @ be16 (of_nat (length msg)) @ msg)"

text \<open>
  The peer's halves of the two frame formats, as the protocol describes them: what a DATA_OPEN
  frame looks like on the wire, and the reading of a DATA_ERROR frame.
\<close>

definition open_frame :: "dataOpenFrame \<Rightarrow> bytes" where
  "open_frame f = [dataFrameTypeOpen] @ be64 (do_connID f) @ be32 (do_port f) @
     be16 (of_nat (length (do_originHost f))) @ do_originHost f @ be32 (do_originPort f)"

definition open_frame_ok :: "dataOpenFrame \<Rightarrow> bool" where
  "open_frame_ok f \<longleftrightarrow> length (do_originHost f) < 2 ^ 16"

definition read_error_frame :: "(64 word \<times> bytes) reader" where
  "read_error_frame =
     rd_bind (read_full 11) (\<lambda>hdr.
       if hdr ! 0 = dataFrameTypeError
       then rd_bind (read_full (unat (un_be (slice_of hdr 9 11) :: 16 word))) (\<lambda>msg.
              rd_return (un_be (slice_of hdr 1 9), msg))
       else rd_fail (Errorf ''unknown frame''))"

interpretation dopen: frame_codec open_frame readDataOpenFrame open_frame_ok
proof unfold_locales
  fix f rest e
  assume ok: "open_frame_ok f"
  let ?n = "length (do_originHost f)"
  let ?hdr = "[dataFrameTypeOpen] @ be64 (do_connID f)"
  let ?meta = "be32 (do_port f) @ be16 (of_nat ?n)"
  have n: "unat (of_nat ?n :: 16 word) = ?n" using ok by (simp add: open_frame_ok_def unat_of_nat_less)
  have r1: "read_full 9 (on_wire (?hdr @ ys) e) = (Inr ?hdr, on_wire ys e)" for ys
    using read_full_append [of ?hdr 9 ys e] by simp
  have r2: "read_full 6 (on_wire (?meta @ ys) e) = (Inr ?meta, on_wire ys e)" for ys
    using read_full_append [of ?meta 6 ys e] by simp
  have bs: "open_frame f @ rest = ?hdr @ (?meta @ (do_originHost f @ (be32 (do_originPort f) @ rest)))"
    by (simp add: open_frame_def)
  have s: "slice_of ?hdr 1 9 = be64 (do_connID f)" "slice_of ?meta 0 4 = be32 (do_port f)"
    "slice_of ?meta 4 6 = be16 (of_nat ?n)"
    by (simp_all add: slice_of_def)
  show "readDataOpenFrame (on_wire (open_frame f @ rest) e) = (Inr f, on_wire rest e)"
    unfolding bs readDataOpenFrame_def Let_def
    by (simp add: rd_bind_def r1 [simplified] r2 [simplified] s [simplified] n read_full_append rd_return_def)
qed (simp add: open_frame_def)

interpretation derr: frame_codec "\<lambda>(c, msg). encodeDataErrorFrame c msg" read_error_frame
  "\<lambda>(c, msg). length msg \<le> maxDataFrameFieldLen"
proof unfold_locales
  fix x :: "64 word \<times> bytes" and rest e
  assume ok: "case x of (c, msg) \<Rightarrow> length msg \<le> maxDataFrameFieldLen"
  obtain c msg where x: "x = (c, msg)" by (cases x)
  let ?hdr = "[dataFrameTypeError] @ be64 c @ be16 (of_nat (length msg))"
  have n: "unat (of_nat (length msg) :: 16 word) = length msg"
    using ok x by (simp add: unat_of_nat_less data_consts)
  have r: "read_full 11 (on_wire (?hdr @ ys) e) = (Inr ?hdr, on_wire ys e)" for ys
    using read_full_append [of ?hdr 11 ys e] by simp
  have s: "slice_of ?hdr 1 9 = be64 c" "slice_of ?hdr 9 11 = be16 (of_nat (length msg))"
    by (simp_all add: slice_of_def)
  have bs: "encodeDataErrorFrame c msg @ rest = ?hdr @ (msg @ rest)"
    using ok x by (simp add: encodeDataErrorFrame_def)
  show "read_error_frame (on_wire ((case x of (c, msg) \<Rightarrow> encodeDataErrorFrame c msg) @ rest) e) = (Inr x, on_wire rest e)"
    unfolding x prod.case bs read_error_frame_def
    by (simp add: rd_bind_def r [simplified] s [simplified] n read_full_append rd_return_def)
qed (auto simp: encodeDataErrorFrame_def Let_def)


section \<open>Serving the control channel\<close>

text \<open>
  The control channel is a writer that can break; \<open>closeOnce\<close> guards its close. A frame's
  goroutine either gives both connections to the handler or leaves neither open.
\<close>

record tunnelDataPlane =
  tp_control :: datachan
  tp_closeOnce :: bool

definition newTunnelDataPlane :: "datachan \<Rightarrow> tunnelDataPlane" where
  "newTunnelDataPlane control = \<lparr>tp_control = control, tp_closeOnce = False\<rparr>"

definition tp_close :: "tunnelDataPlane \<Rightarrow> tunnelDataPlane" where
  "tp_close dp =
     (if tp_closeOnce dp then dp
      else dp\<lparr>tp_closeOnce := True, tp_control := (tp_control dp)\<lparr>dc_closed := True\<rparr>\<rparr>)"

definition sendError :: "64 word \<Rightarrow> bytes \<Rightarrow> tunnelDataPlane \<Rightarrow> tunnelDataPlane" where
  "sendError connID reason dp =
     (case dc_write (encodeDataErrorFrame connID reason) (tp_control dp) of
        (True, c) \<Rightarrow> dp\<lparr>tp_control := c\<rparr>
      | (False, c) \<Rightarrow> tp_close (dp\<lparr>tp_control := c\<rparr>))"

datatype fate = NotOpened | Closed | Handed

record data_stream =
  ds_local :: fate
  ds_stream :: fate
  ds_header :: bytes

text \<open>The error texts of the three operations that can fail, \<open>None\<close> for success.\<close>

record outcome =
  oc_dial :: "bytes option"
  oc_open :: "bytes option"
  oc_header :: "bytes option"

definition ascii :: "string \<Rightarrow> bytes" where "ascii = map of_char"

definition openDataStream ::
  "dataOpenFrame \<Rightarrow> outcome \<Rightarrow> tunnelDataPlane \<Rightarrow> data_stream \<times> tunnelDataPlane" where
  "openDataStream f oc dp =
     (case oc_dial oc of
        Some err \<Rightarrow> (\<lparr>ds_local = NotOpened, ds_stream = NotOpened, ds_header = []\<rparr>,
          sendError (do_connID f) (ascii ''local service unavailable: '' @ err) dp)
      | None \<Rightarrow>
          (case oc_open oc of
             Some err \<Rightarrow> (\<lparr>ds_local = Closed, ds_stream = NotOpened, ds_header = []\<rparr>,
               sendError (do_connID f) (ascii ''open data stream failed: '' @ err) dp)
           | None \<Rightarrow>
               (let header = dataStreamMagic @ be64 (do_connID f)
                in case oc_header oc of
                     Some err \<Rightarrow> (\<lparr>ds_local = Closed, ds_stream = Closed, ds_header = []\<rparr>,
                       sendError (do_connID f) (ascii ''write data stream header failed: '' @ err) dp)
                   | None \<Rightarrow> (\<lparr>ds_local = Handed, ds_stream = Handed, ds_header = header\<rparr>, dp))))"

text \<open>
  \<open>run\<close>: the frames that are read, each for a goroutine of its own, until the first error; then
  the control channel is closed. \<open>serve\<close> runs the goroutines of some frames in some order.
\<close>

lemma read_full_consumes:
  "read_full n s = (Inr xs, s') \<Longrightarrow> length (st_bytes s') + n = length (st_bytes s)"
  by (auto simp: read_full_def split: if_splits)

lemma readDataOpenFrame_consumes:
  "readDataOpenFrame s = (Inr f, s') \<Longrightarrow> length (st_bytes s') < length (st_bytes s)"
  by (auto simp: readDataOpenFrame_def rd_bind_def rd_return_def rd_fail_def Let_def
      split: prod.splits sum.splits if_splits dest!: read_full_consumes)

function run_control :: "stream \<Rightarrow> dataOpenFrame list" where
  "run_control s =
     (case readDataOpenFrame s of (Inl e, s) \<Rightarrow> [] | (Inr f, s) \<Rightarrow> f # run_control s)"
  by pat_completeness auto
termination by (relation "measure (\<lambda>s. length (st_bytes s))") (auto dest!: readDataOpenFrame_consumes [OF sym])

declare run_control.simps [simp del]

definition dp_run :: "stream \<Rightarrow> tunnelDataPlane \<Rightarrow> dataOpenFrame list \<times> tunnelDataPlane" where
  "dp_run s dp = (run_control s, tp_close dp)"

fun serve :: "(dataOpenFrame \<times> outcome) list \<Rightarrow> tunnelDataPlane \<Rightarrow> data_stream list \<times> tunnelDataPlane" where
  "serve [] dp = ([], dp)"
| "serve ((f, oc) # fs) dp =
     (let (d, dp) = openDataStream f oc dp; (ds, dp) = serve fs dp in (d # ds, dp))"

text \<open>What the server is told about a frame: nothing, or the connection and the reason.\<close>

definition failure :: "dataOpenFrame \<times> outcome \<Rightarrow> (64 word \<times> bytes) option" where
  "failure fo =
     (case fo of (f, oc) \<Rightarrow>
        (case (oc_dial oc, oc_open oc, oc_header oc) of
           (Some err, _) \<Rightarrow> Some (do_connID f, ascii ''local service unavailable: '' @ err)
         | (None, Some err, _) \<Rightarrow> Some (do_connID f, ascii ''open data stream failed: '' @ err)
         | (None, None, Some err) \<Rightarrow> Some (do_connID f, ascii ''write data stream header failed: '' @ err)
         | (None, None, None) \<Rightarrow> None))"

definition told :: "64 word \<times> bytes \<Rightarrow> 64 word \<times> bytes" where
  "told = (\<lambda>(c, msg). (c, take maxDataFrameFieldLen msg))"

definition healthy :: "datachan \<Rightarrow> bool" where
  "healthy c \<longleftrightarrow> dc_limit c = None \<and> \<not> dc_closed c"

lemma encode_told: "encodeDataErrorFrame c msg = (\<lambda>(c, msg). encodeDataErrorFrame c msg) (told (c, msg))"
  by (simp add: encodeDataErrorFrame_def told_def Let_def)

lemma sendError_healthy:
  "healthy (tp_control dp) \<Longrightarrow>
   sendError c msg dp = dp\<lparr>tp_control := (tp_control dp)\<lparr>dc_sent := dc_sent (tp_control dp) @ [encodeDataErrorFrame c msg]\<rparr>\<rparr>"
  by (simp add: sendError_def dc_write_def healthy_def)

lemma openDataStream_cases:
  assumes "openDataStream f oc dp = (d, dp')" "healthy (tp_control dp)"
  shows "case failure (f, oc) of
      None \<Rightarrow> dp' = dp \<and> d = \<lparr>ds_local = Handed, ds_stream = Handed, ds_header = dataStreamMagic @ be64 (do_connID f)\<rparr>
    | Some (c, msg) \<Rightarrow> dp' = sendError c msg dp \<and> ds_local d \<noteq> Handed \<and> ds_stream d \<noteq> Handed \<and> ds_header d = []"
  using assms by (auto simp: openDataStream_def failure_def Let_def split: option.splits)

lemma serve_control:
  "serve fs dp = (ds, dp') \<Longrightarrow> healthy (tp_control dp) \<Longrightarrow>
   healthy (tp_control dp') \<and>
   dc_sent (tp_control dp') = dc_sent (tp_control dp) @
     map (\<lambda>(c, msg). encodeDataErrorFrame c msg) (map told (List.map_filter failure fs)) \<and>
   list_all2 (\<lambda>fo d. case failure fo of
      None \<Rightarrow> ds_local d = Handed \<and> ds_stream d = Handed \<and> ds_header d = dataStreamMagic @ be64 (do_connID (fst fo))
    | Some _ \<Rightarrow> ds_local d \<noteq> Handed \<and> ds_stream d \<noteq> Handed \<and> ds_header d = []) fs ds"
proof (induction fs arbitrary: dp ds)
  case (Cons fo fs)
  obtain f oc where fo: "fo = (f, oc)" by (cases fo)
  obtain d dp1 where o: "openDataStream f oc dp = (d, dp1)" by fastforce
  obtain ds2 where s: "serve fs dp1 = (ds2, dp')" "ds = d # ds2"
    using Cons.prems(1) fo o by (auto split: prod.splits)
  note c = openDataStream_cases [OF o Cons.prems(2)]
  show ?case
  proof (cases "failure (f, oc)")
    case None
    with c Cons.IH [OF s(1)] Cons.prems(2) show ?thesis
      by (simp add: fo s(2) List.map_filter_def)
  next
    case (Some r)
    obtain cid msg where r: "r = (cid, msg)" by (cases r)
    have dp1: "dp1 = sendError cid msg dp" using c Some r by simp
    have "healthy (tp_control dp1)" using Cons.prems(2) by (simp add: dp1 sendError_healthy healthy_def)
    from Cons.IH [OF s(1) this] c Some r Cons.prems(2) show ?thesis
      by (simp add: fo s(2) List.map_filter_def dp1 sendError_healthy encode_told [of cid])
  qed
qed simp

lemma run_control_frames:
  "list_all open_frame_ok fs \<Longrightarrow>
   run_control (on_wire (concat (map open_frame fs) @ rest) e) = fs @ run_control (on_wire rest e)"
proof (induction fs)
  case (Cons f fs)
  have "run_control (on_wire (open_frame f @ (concat (map open_frame fs) @ rest)) e) =
      f # run_control (on_wire (concat (map open_frame fs) @ rest) e)"
    using Cons.prems dopen.dec_enc [of f "concat (map open_frame fs) @ rest" e]
    by (subst run_control.simps) simp
  with Cons show ?case by simp
qed simp

lemma run_control_stops:
  "length bs < 9 \<or> bs ! 0 \<noteq> dataFrameTypeOpen \<Longrightarrow> run_control (on_wire bs e) = []"
  by (subst run_control.simps)
    (auto simp: readDataOpenFrame_def rd_bind_def rd_fail_def read_full_def Let_def split: prod.splits sum.splits)


section \<open>The handler of a channel\<close>

text \<open>
  The two copying goroutines of \<open>handleChannel\<close> (towards the local service and towards the
  tunnel) and the one that waits for both or for the context. \<open>hc_ch\<close> is the tunnel channel with
  what has been written to it, \<open>hc_cw\<close> the compressing writer, if any, on top of it; the ghosts
  \<open>hc_from_ssh\<close> and \<open>hc_from_local\<close> are what was read on the two sides. What was written to the
  local connection is first in the kernel (\<open>hc_unsent\<close>), then with the service (\<open>hc_delivered\<close>), or
  dropped: by the service's reset, or by a close, because \<open>SetLinger(0)\<close> makes the close of a TCP
  connection discard what is not sent. \<open>once\<close> is shared: only the direction that ends first closes
  the other side for writing. \<open>hc_stats\<close> is the \<open>statsManager\<close> of the \<open>ChannelHandler\<close>.
\<close>

datatype copying = Copying | Copied | Ended
datatype waiting = Waiting | Forced | Returned

record handling =
  hc_from_ssh :: bytes
  hc_delivered :: bytes
  hc_unsent :: bytes
  hc_dropped :: bytes
  hc_up :: copying
  hc_from_local :: bytes
  hc_ch :: datachan
  hc_cw :: "compressWriter option"
  hc_down :: copying
  hc_once :: bool
  hc_local_fin :: bool
  hc_ch_fin :: bool
  hc_local_closed :: bool
  hc_local_reset :: bool
  hc_ch_closed :: bool
  hc_up_err :: bool
  hc_down_err :: bool
  hc_main :: waiting
  hc_stats :: StatsManager

definition handle_init :: "bool \<Rightarrow> bool \<Rightarrow> StatsManager \<Rightarrow> handling" where
  "handle_init compress fw_ok sm =
     \<lparr>hc_from_ssh = [], hc_delivered = [], hc_unsent = [], hc_dropped = [], hc_up = Copying, hc_from_local = [],
      hc_ch = \<lparr>dc_sent = [], dc_limit = None, dc_closed = False\<rparr>,
      hc_cw = (if compress then Some (newCompressWriter fw_ok) else None), hc_down = Copying, hc_once = False,
      hc_local_fin = False, hc_ch_fin = False, hc_local_closed = False,
      hc_local_reset = False, hc_ch_closed = False, hc_up_err = False, hc_down_err = False, hc_main = Waiting,
      hc_stats = sm\<rparr>"

text \<open>
  A write of the response direction: through the compressing writer, or as it is.
\<close>

definition down_write ::
  "(bytes \<Rightarrow> io_error + bytes) \<Rightarrow> bytes \<Rightarrow> handling \<Rightarrow> (nat \<times> io_error option) \<times> handling" where
  "down_write deflate b h =
     (case hc_cw h of
        None \<Rightarrow> (case dc_writer b (hc_ch h) of (r, c) \<Rightarrow> (r, h\<lparr>hc_ch := c\<rparr>))
      | Some w \<Rightarrow> (case cw_write deflate dc_writer b w (hc_ch h) of (r, w, c) \<Rightarrow> (r, h\<lparr>hc_cw := Some w, hc_ch := c\<rparr>)))"

text \<open>
  \<open>localConn.Close\<close> and \<open>ch.Close\<close>. With the linger time of zero the close of a TCP connection
  discards what the kernel has not sent; without it (\<open>tcp\<close> is false) the kernel goes on sending.
\<close>

definition drop_unsent :: "handling \<Rightarrow> handling" where
  "drop_unsent h = h\<lparr>hc_unsent := [], hc_dropped := hc_dropped h @ hc_unsent h\<rparr>"

definition close_both :: "bool \<Rightarrow> handling \<Rightarrow> handling" where
  "close_both tcp h = (if tcp then drop_unsent h else h)\<lparr>hc_local_closed := True, hc_ch_closed := True\<rparr>"

text \<open>
  A read gives bytes while its side is open (an error or the end of the input ends the copy at any
  time); a write to the local service may take only the first \<open>k\<close> bytes. The channel may break at
  any time, the local service may reset its connection at any time, and the kernel sends what it
  holds when it can. \<open>tcp\<close> is whether the local connection is a TCP connection.
\<close>

inductive hc_step :: "(bytes \<Rightarrow> io_error + bytes) \<Rightarrow> bool \<Rightarrow> handling \<Rightarrow> handling \<Rightarrow> bool" for deflate tcp where
  up_copy: "hc_up h = Copying \<Longrightarrow> \<not> hc_ch_closed h \<Longrightarrow> \<not> hc_local_closed h \<Longrightarrow> \<not> hc_local_reset h \<Longrightarrow>
    hc_step deflate tcp h (h\<lparr>hc_from_ssh := hc_from_ssh h @ b, hc_unsent := hc_unsent h @ b\<rparr>)"
| up_write_error: "hc_up h = Copying \<Longrightarrow> \<not> hc_ch_closed h \<Longrightarrow>
    hc_step deflate tcp h
      (h\<lparr>hc_from_ssh := hc_from_ssh h @ b, hc_unsent := hc_unsent h @ (if hc_local_reset h then [] else take k b),
         hc_up := Copied, hc_up_err := True\<rparr>)"
| sent: "hc_unsent h = x @ y \<Longrightarrow> hc_step deflate tcp h (h\<lparr>hc_delivered := hc_delivered h @ x, hc_unsent := y\<rparr>)"
| local_reset: "hc_step deflate tcp h ((drop_unsent h)\<lparr>hc_local_reset := True\<rparr>)"
| up_end: "hc_up h = Copying \<Longrightarrow> hc_step deflate tcp h (h\<lparr>hc_up := Copied\<rparr>)"
| up_first: "hc_up h = Copied \<Longrightarrow> \<not> hc_once h \<Longrightarrow>
    hc_step deflate tcp h (h\<lparr>hc_up := Ended, hc_once := True, hc_local_fin := tcp\<rparr>)"
| up_second: "hc_up h = Copied \<Longrightarrow> hc_once h \<Longrightarrow> hc_step deflate tcp h (h\<lparr>hc_up := Ended\<rparr>)"
| down_copy: "hc_down h = Copying \<Longrightarrow> \<not> hc_local_closed h \<Longrightarrow> \<not> hc_local_reset h \<Longrightarrow> \<not> hc_ch_closed h \<Longrightarrow>
    down_write deflate b h = ((n, None), h') \<Longrightarrow>
    hc_step deflate tcp h (h'\<lparr>hc_from_local := hc_from_local h @ b\<rparr>)"
| down_write_error: "hc_down h = Copying \<Longrightarrow> \<not> hc_local_closed h \<Longrightarrow> \<not> hc_local_reset h \<Longrightarrow>
    down_write deflate b h = ((n, Some e), h') \<Longrightarrow>
    hc_step deflate tcp h (h'\<lparr>hc_from_local := hc_from_local h @ b, hc_down := Copied, hc_down_err := True\<rparr>)"
| down_end: "hc_down h = Copying \<Longrightarrow> hc_step deflate tcp h (h\<lparr>hc_down := Copied\<rparr>)"
| down_first: "hc_down h = Copied \<Longrightarrow> \<not> hc_once h \<Longrightarrow>
    hc_step deflate tcp h (h\<lparr>hc_down := Ended, hc_once := True, hc_ch_fin := True\<rparr>)"
| down_second: "hc_down h = Copied \<Longrightarrow> hc_once h \<Longrightarrow> hc_step deflate tcp h (h\<lparr>hc_down := Ended\<rparr>)"
| broken: "hc_step deflate tcp h (h\<lparr>hc_ch := (hc_ch h)\<lparr>dc_closed := True\<rparr>\<rparr>)"
| both_done: "hc_main h = Waiting \<Longrightarrow> hc_up h = Ended \<Longrightarrow> hc_down h = Ended \<Longrightarrow>
    hc_step deflate tcp h ((close_both tcp h)\<lparr>hc_main := Returned\<rparr>)"
| cancelled: "hc_main h = Waiting \<Longrightarrow> hc_step deflate tcp h ((close_both tcp h)\<lparr>hc_main := Forced\<rparr>)"
| forced: "hc_main h = Forced \<Longrightarrow> hc_step deflate tcp h ((close_both tcp h)\<lparr>hc_main := Returned\<rparr>)"

text \<open>What the peer has received on the channel, once unframed and inflated.\<close>

definition carries_down :: "(bytes \<Rightarrow> bytes) \<Rightarrow> bool \<Rightarrow> bytes \<Rightarrow> bytes \<Rightarrow> bool" where
  "carries_down inflate compress wire data \<longleftrightarrow>
     (if compress
      then \<exists>fs. list_all frame_fits fs \<and> wire = concat (map compress_frame fs) \<and> concat (map (unframe inflate) fs) = data
      else wire = data)"

text \<open>Where the bytes read from the tunnel are.\<close>

definition up_bytes :: "bool \<Rightarrow> handling \<Rightarrow> bool" where
  "up_bytes tcp h \<longleftrightarrow>
     (\<exists>lost. hc_from_ssh h = hc_delivered h @ hc_unsent h @ hc_dropped h @ lost \<and> (hc_up_err h \<or> lost = [])) \<and>
     (hc_local_reset h \<or> tcp \<and> hc_local_closed h \<longrightarrow> hc_unsent h = []) \<and>
     (hc_local_reset h \<or> tcp \<and> hc_local_closed h \<or> hc_dropped h = []) \<and>
     (hc_up_err h \<longrightarrow> hc_up h \<noteq> Copying) \<and> (hc_main h \<noteq> Waiting \<longrightarrow> hc_local_closed h \<and> hc_ch_closed h)"

definition hc_inv :: "(bytes \<Rightarrow> bytes) \<Rightarrow> bool \<Rightarrow> bool \<Rightarrow> handling \<Rightarrow> bool" where
  "hc_inv inflate tcp compress h \<longleftrightarrow>
     (hc_cw h \<noteq> None \<longleftrightarrow> compress) \<and>
     up_bytes tcp h \<and>
     (\<not> hc_down_err h \<longrightarrow> carries_down inflate compress (dc_out (hc_ch h)) (hc_from_local h)) \<and>
     (hc_down_err h \<longrightarrow> hc_down h \<noteq> Copying) \<and>
     (hc_once h \<longleftrightarrow> hc_up h = Ended \<or> hc_down h = Ended) \<and>
     (hc_local_fin h \<longrightarrow> hc_up h = Ended) \<and> (hc_ch_fin h \<longrightarrow> hc_down h = Ended) \<and>
     (tcp \<longrightarrow> (hc_once h \<longleftrightarrow> hc_local_fin h \<noteq> hc_ch_fin h)) \<and> \<not> (hc_local_fin h \<and> hc_ch_fin h) \<and>
     (hc_main h \<noteq> Waiting \<longrightarrow> hc_local_closed h \<and> hc_ch_closed h) \<and>
     (hc_main h = Waiting \<longrightarrow> \<not> hc_local_closed h \<and> \<not> hc_ch_closed h)"

lemma carries_down_append:
  assumes "carries_down inflate compress w d" "carries_down inflate compress w' d'"
  shows "carries_down inflate compress (w @ w') (d @ d')"
proof (cases compress)
  case True
  with assms obtain fs gs where "list_all frame_fits fs" "w = concat (map compress_frame fs)"
      "concat (map (unframe inflate) fs) = d" "list_all frame_fits gs" "w' = concat (map compress_frame gs)"
      "concat (map (unframe inflate) gs) = d'"
    by (auto simp: carries_down_def)
  with True show ?thesis by (auto simp: carries_down_def intro!: exI [of _ "fs @ gs"])
next
  case False
  with assms show ?thesis by (simp add: carries_down_def)
qed

lemma down_write_ok:
  assumes "down_write deflate b h = ((n, None), h')" "inflates inflate deflate"
  shows "\<exists>w c. h' = h\<lparr>hc_cw := w, hc_ch := c\<rparr> \<and> (w = None) = (hc_cw h = None) \<and>
    (\<exists>out. dc_out c = dc_out (hc_ch h) @ out \<and> carries_down inflate (hc_cw h \<noteq> None) out b)"
proof (cases "hc_cw h")
  case None
  then obtain c where c: "dc_writer b (hc_ch h) = ((n, None), c)" "h' = h\<lparr>hc_ch := c\<rparr>"
    using assms(1) by (auto simp: down_write_def split: prod.splits)
  have "n = length b" using c(1) by (auto simp: dc_writer_def split: prod.splits if_splits)
  then have "dc_out c = dc_out (hc_ch h) @ b" using dcw.written [OF c(1)] by simp
  then show ?thesis using None c(2) by (intro exI [of _ None] exI [of _ c]) (auto simp: carries_down_def)
next
  case (Some w)
  then obtain w' c where c: "cw_write deflate dc_writer b w (hc_ch h) = ((n, None), w', c)" "h' = h\<lparr>hc_cw := Some w', hc_ch := c\<rparr>"
    using assms(1) by (auto simp: down_write_def split: prod.splits)
  from dcw.cw_write_out [OF assms(2) c(1)] Some c(2) show ?thesis
    by (intro exI [of _ "Some w'"] exI [of _ c]) (auto simp: carries_down_def)
qed


inductive hc_reach :: "(bytes \<Rightarrow> io_error + bytes) \<Rightarrow> bool \<Rightarrow> bool \<Rightarrow> bool \<Rightarrow> StatsManager \<Rightarrow> handling \<Rightarrow> bool"
  for deflate tcp compress fw_ok sm where
  init: "hc_reach deflate tcp compress fw_ok sm (handle_init compress fw_ok sm)"
| step: "hc_reach deflate tcp compress fw_ok sm h \<Longrightarrow> hc_step deflate tcp h h' \<Longrightarrow>
    hc_reach deflate tcp compress fw_ok sm h'"

lemma hc_inv_init: "hc_inv inflate tcp compress (handle_init compress fw_ok sm)"
  by (auto simp: hc_inv_def up_bytes_def handle_init_def carries_down_def dc_out_def intro!: exI [of _ "[]"])

lemma down_write_error:
  assumes "down_write deflate b h = ((n, Some e), h')"
  shows "\<exists>w c. h' = h\<lparr>hc_cw := w, hc_ch := c\<rparr> \<and> (w = None) = (hc_cw h = None)"
proof (cases "hc_cw h")
  case None
  with assms show ?thesis
    by (intro exI [of _ None] exI [of _ "hc_ch h'"]) (auto simp: down_write_def split: prod.splits)
next
  case (Some w)
  with assms show ?thesis
    by (intro exI [of _ "hc_cw h'"] exI [of _ "hc_ch h'"]) (auto simp: down_write_def split: prod.splits)
qed

lemma up_bytes_cong:
  "up_bytes tcp h \<Longrightarrow> hc_up g = hc_up h \<Longrightarrow> hc_from_ssh g = hc_from_ssh h \<Longrightarrow> hc_delivered g = hc_delivered h \<Longrightarrow>
   hc_unsent g = hc_unsent h \<Longrightarrow> hc_dropped g = hc_dropped h \<Longrightarrow> hc_local_closed g = hc_local_closed h \<Longrightarrow>
   hc_local_reset g = hc_local_reset h \<Longrightarrow> hc_ch_closed g = hc_ch_closed h \<Longrightarrow> hc_up_err g = hc_up_err h \<Longrightarrow>
   hc_main g = hc_main h \<Longrightarrow> up_bytes tcp g"
  by (simp add: up_bytes_def)

lemma up_bytes_close: "up_bytes tcp h \<Longrightarrow> up_bytes tcp ((close_both tcp h)\<lparr>hc_main := m\<rparr>)"
  by (auto simp: up_bytes_def close_both_def drop_unsent_def)

lemma up_bytes_step:
  assumes "hc_step deflate tcp h h'" "up_bytes tcp h" "hc_main h = Waiting \<longrightarrow> \<not> hc_local_closed h \<and> \<not> hc_ch_closed h"
  shows "up_bytes tcp h'"
  using assms(1)
proof cases
  case (up_copy b)
  with assms(2) have "hc_from_ssh h @ b = hc_delivered h @ (hc_unsent h @ b) @ hc_dropped h @ []" by (auto simp: up_bytes_def)
  with up_copy assms(2) show ?thesis by (auto simp: up_bytes_def)
next
  case (up_write_error k b)
  let ?w = "if hc_local_reset h then [] else take k b" and ?lost = "if hc_local_reset h then b else drop k b"
  have "hc_main h = Waiting" using up_write_error(3) assms(2) by (auto simp: up_bytes_def)
  then have alive: "\<not> hc_local_closed h" using assms(3) by blast
  with up_write_error assms(2) have "hc_from_ssh h @ b = hc_delivered h @ (hc_unsent h @ ?w) @ hc_dropped h @ ?lost"
    by (auto simp: up_bytes_def)
  moreover have "hc_local_reset h \<longrightarrow> hc_unsent h @ ?w = []" "hc_local_reset h \<or> hc_dropped h = []"
    using assms(2) alive by (auto simp: up_bytes_def)
  ultimately show ?thesis
    using up_write_error(1,2) assms(2) alive unfolding up_bytes_def
    by (intro conjI exI [of _ ?lost]) simp_all
next
  case (down_copy b n g)
  then show ?thesis using assms(2) by (auto simp: down_write_def intro: up_bytes_cong split: option.splits prod.splits)
next
  case (down_write_error b n e g)
  then show ?thesis using assms(2) by (auto simp: down_write_def intro: up_bytes_cong split: option.splits prod.splits)
next
  case both_done
  then show ?thesis using up_bytes_close [OF assms(2)] by simp
next
  case cancelled
  then show ?thesis using up_bytes_close [OF assms(2)] by simp
next
  case forced
  then show ?thesis using up_bytes_close [OF assms(2)] by simp
qed (use assms(2) in \<open>auto simp: up_bytes_def drop_unsent_def\<close>)

lemma hc_step_inv:
  assumes "hc_step deflate tcp h h'" "hc_inv inflate tcp compress h" "inflates inflate deflate"
  shows "hc_inv inflate tcp compress h'"
proof -
  have up: "up_bytes tcp h'"
    using assms(2) by (intro up_bytes_step [OF assms(1)]) (simp_all add: hc_inv_def)
  show ?thesis
    using assms(1)
  proof cases
    case (down_copy b n g)
    from down_write_ok [OF down_copy(6) assms(3)] obtain w c out where
      g: "g = h\<lparr>hc_cw := w, hc_ch := c\<rparr>" "(w = None) = (hc_cw h = None)"
        "dc_out c = dc_out (hc_ch h) @ out" "carries_down inflate (hc_cw h \<noteq> None) out b"
      by (elim exE conjE) (rule that)
    from assms(2) down_copy(2) have "carries_down inflate compress (dc_out (hc_ch h)) (hc_from_local h)" "(hc_cw h \<noteq> None) = compress"
      by (auto simp: hc_inv_def)
    with g(3,4) have "carries_down inflate compress (dc_out c) (hc_from_local h @ b)" by (simp add: carries_down_append)
    with g(1,2) down_copy assms(2) up show ?thesis by (auto simp: hc_inv_def)
  next
    case (down_write_error b n e g)
    from Data_Plane.down_write_error [OF down_write_error(5)] obtain w c where
      "g = h\<lparr>hc_cw := w, hc_ch := c\<rparr>" "(w = None) = (hc_cw h = None)"
      by (elim exE conjE) (rule that)
    with down_write_error assms(2) up show ?thesis by (auto simp: hc_inv_def)
  qed (use assms(2) up in \<open>auto simp: hc_inv_def close_both_def drop_unsent_def dc_out_def\<close>)
qed

lemma hc_reach_inv:
  assumes "hc_reach deflate tcp compress fw_ok sm h" "inflates inflate deflate"
  shows "hc_inv inflate tcp compress h"
  using assms(1) by induction (auto intro: hc_inv_init hc_step_inv [OF _ _ assms(2)])

lemma hc_stats_step:
  assumes "hc_step deflate tcp h h'"
  shows "hc_stats h' = hc_stats h"
  using assms
  by cases (auto simp: down_write_def close_both_def drop_unsent_def split: option.splits prod.splits)

lemma hc_stats_reach: "hc_reach deflate tcp compress fw_ok sm h \<Longrightarrow> hc_stats h = sm"
  by (induction rule: hc_reach.induct) (simp_all add: handle_init_def hc_stats_step)

lemma hc_stats_steps: "(hc_step deflate tcp)\<^sup>*\<^sup>* h h' \<Longrightarrow> hc_stats h' = hc_stats h"
  by (induction rule: rtranclp_induct) (simp_all add: hc_stats_step)

lemma hc_reach_steps:
  "hc_reach deflate tcp compress fw_ok sm h \<Longrightarrow> (hc_step deflate tcp)\<^sup>*\<^sup>* h h' \<Longrightarrow> hc_reach deflate tcp compress fw_ok sm h'"
  by (rotate_tac, induction rule: rtranclp_induct) (auto intro: hc_reach.step)


section \<open>Properties\<close>

text \<open>
  C23. The control channel is read frame by frame: whatever follows them, the DATA_OPEN frames of
  the server are all served, in order and with their values; the reading stops at the end of the
  stream, in a cut header, and at the first frame of another type, and then the control
  channel is closed, once.
\<close>

theorem control_frames_served:
  assumes "list_all open_frame_ok fs" "length rest < 9 \<or> rest ! 0 \<noteq> dataFrameTypeOpen"
  shows "dp_run (on_wire (concat (map open_frame fs) @ rest) e) dp = (fs, tp_close dp) \<and>
    tp_close (tp_close dp) = tp_close dp"
  using run_control_frames [OF assms(1)] run_control_stops [OF assms(2)] by (simp add: dp_run_def tp_close_def)

abbreviation sample_open :: dataOpenFrame where
  "sample_open \<equiv> \<lparr>do_connID = 7, do_port = 80, do_originHost = [1, 2], do_originPort = 9\<rparr>"

theorem control_frames_served_witness:
  "fst (dp_run (on_wire (open_frame sample_open @ replicate 9 3) EOF) (newTunnelDataPlane fresh_chan)) = [sample_open]"
  using control_frames_served [of "[sample_open]" "replicate 9 3"] by (simp add: open_frame_ok_def data_consts)

text \<open>
  C24. Every DATA_OPEN has one answer: with a control channel that works, a frame ends either with
  both connections handed to the copying and the stream's header naming the connection, or
  with neither left open and one DATA_ERROR frame on the control channel that names the
  connection and the reason, cut to 65535 bytes; a reader of the control channel gets exactly
  these errors, in the order of the failures.
\<close>

theorem data_streams_answered:
  assumes "tp_control dp = fresh_chan" "serve fs dp = (ds, dp')"
  shows "(\<forall>tail e. read_frames (length (List.map_filter failure fs)) read_error_frame
      (on_wire (dc_out (tp_control dp') @ tail) e) = (Inr (map told (List.map_filter failure fs)), on_wire tail e)) \<and>
    list_all2 (\<lambda>fo d. case failure fo of
       None \<Rightarrow> ds_local d = Handed \<and> ds_stream d = Handed \<and> ds_header d = dataStreamMagic @ be64 (do_connID (fst fo))
     | Some _ \<Rightarrow> ds_local d \<noteq> Handed \<and> ds_stream d \<noteq> Handed \<and> ds_header d = []) fs ds"
proof -
  have c: "dc_out (tp_control dp') = concat (map (\<lambda>(c, msg). encodeDataErrorFrame c msg) (map told (List.map_filter failure fs)))"
    and l: "list_all2 (\<lambda>fo d. case failure fo of
       None \<Rightarrow> ds_local d = Handed \<and> ds_stream d = Handed \<and> ds_header d = dataStreamMagic @ be64 (do_connID (fst fo))
     | Some _ \<Rightarrow> ds_local d \<noteq> Handed \<and> ds_stream d \<noteq> Handed \<and> ds_header d = []) fs ds"
    using serve_control [OF assms(2)] assms(1) by (simp_all add: healthy_def dc_out_def)
  have "list_all (\<lambda>(c, msg). length msg \<le> maxDataFrameFieldLen) (map told xs)" for xs
    by (induction xs) (auto simp: told_def)
  from derr.read_frames_concat [OF this] l show ?thesis unfolding c by simp
qed

theorem data_streams_answered_witness:
  "read_frames 1 read_error_frame (on_wire (dc_out (tp_control (snd (serve
     [(sample_open, \<lparr>oc_dial = Some [5], oc_open = None, oc_header = None\<rparr>),
      (sample_open, \<lparr>oc_dial = None, oc_open = None, oc_header = None\<rparr>)] (newTunnelDataPlane fresh_chan))))) EOF) =
   (Inr [(7, ascii ''local service unavailable: '' @ [5])], on_wire [] EOF)"
proof -
  let ?fs = "[(sample_open, \<lparr>oc_dial = Some [5], oc_open = None, oc_header = None\<rparr>),
      (sample_open, \<lparr>oc_dial = None, oc_open = None, oc_header = None\<rparr>)]"
  obtain ds dp' where s: "serve ?fs (newTunnelDataPlane fresh_chan) = (ds, dp')" by fastforce
  have f: "List.map_filter failure ?fs = [(7, ascii ''local service unavailable: '' @ [5])]"
    by (simp add: failure_def List.map_filter_def)
  show ?thesis
    using data_streams_answered [OF _ s] unfolding s f
    by (auto simp: newTunnelDataPlane_def told_def maxDataFrameFieldLen_def ascii_def dest!: spec [of _ "[]"])
qed

text \<open>
  The last bytes for the local service can be lost with no error anywhere: both directions are
  copied to the end and the handler returns, but the close of the TCP connection discards what
  the kernel still had to send.
\<close>

lemma linger_loses_tail:
  "\<exists>h. hc_reach deflate True compress fw_ok sm h \<and> hc_from_ssh h = b \<and> hc_delivered h = [] \<and> hc_dropped h = b \<and>
     hc_up h = Ended \<and> hc_down h = Ended \<and> hc_main h = Returned \<and>
     \<not> hc_up_err h \<and> \<not> hc_down_err h \<and> \<not> hc_local_reset h"
proof -
  let ?R = "hc_reach deflate True compress fw_ok sm" and ?h0 = "handle_init compress fw_ok sm"
  let ?h1 = "?h0\<lparr>hc_from_ssh := b, hc_unsent := b\<rparr>"
  let ?h3 = "?h1\<lparr>hc_up := Ended, hc_once := True, hc_local_fin := True\<rparr>"
  let ?h5 = "?h3\<lparr>hc_down := Ended\<rparr>"
  have "?R ?h1"
    using hc_reach.step [OF hc_reach.init hc_step.up_copy [of ?h0 _ _ b]] by (simp add: handle_init_def)
  then have "?R (?h1\<lparr>hc_up := Copied\<rparr>)"
    by (rule hc_reach.step [OF _ hc_step.up_end]) (simp add: handle_init_def)
  then have "?R ?h3"
    using hc_reach.step [OF _ hc_step.up_first [of "?h1\<lparr>hc_up := Copied\<rparr>"]] by (simp add: handle_init_def)
  then have "?R (?h3\<lparr>hc_down := Copied\<rparr>)"
    by (rule hc_reach.step [OF _ hc_step.down_end]) (simp add: handle_init_def)
  then have "?R ?h5"
    using hc_reach.step [OF _ hc_step.down_second [of "?h3\<lparr>hc_down := Copied\<rparr>"]] by (simp add: handle_init_def)
  then have "?R ((close_both True ?h5)\<lparr>hc_main := Returned\<rparr>)"
    by (rule hc_reach.step [OF _ hc_step.both_done]) (simp_all add: handle_init_def)
  then show ?thesis
    by (intro exI [of _ "(close_both True ?h5)\<lparr>hc_main := Returned\<rparr>"])
      (simp add: handle_init_def close_both_def drop_unsent_def)
qed

text \<open>
  C7. A handled connection is transparent in both directions, whatever the interleaving. What is
  read from the tunnel is, in this order, delivered to the local service, still in the kernel,
  dropped, or lost in a write that failed: as long as the local connection is neither closed nor
  reset and no write to it failed, nothing is dropped or lost. After the close nothing is in
  the kernel any more, so that then bytes can be missing at the end (\<open>linger_loses_tail\<close>), but
  never inside. Unless a write failed, the peer gets, after inflating the frames when compression
  is on, exactly the bytes read from the local service. A side is closed for writing only after
  everything read for it was written, never both; and when the handler has returned both
  connections are closed.
\<close>

theorem handler_transparent:
  assumes "inflates inflate deflate" "hc_reach deflate True compress fw_ok sm h"
  shows "(\<exists>lost. hc_from_ssh h = hc_delivered h @ hc_unsent h @ hc_dropped h @ lost \<and> (hc_up_err h \<or> lost = [])) \<and>
    (hc_local_closed h \<or> hc_local_reset h \<or> hc_dropped h = []) \<and> (hc_local_closed h \<longrightarrow> hc_unsent h = []) \<and>
    (hc_down_err h \<or> carries_down inflate compress (dc_out (hc_ch h)) (hc_from_local h)) \<and>
    (hc_local_fin h \<longrightarrow> hc_up h = Ended) \<and> (hc_ch_fin h \<longrightarrow> hc_down h = Ended) \<and>
    (hc_once h \<longleftrightarrow> hc_local_fin h \<noteq> hc_ch_fin h) \<and> \<not> (hc_local_fin h \<and> hc_ch_fin h) \<and>
    (hc_main h = Returned \<longrightarrow> hc_local_closed h \<and> hc_ch_closed h)"
proof -
  have inv: "hc_inv inflate True compress h" by (rule hc_reach_inv [OF assms(2,1)])
  then have up: "up_bytes True h" by (simp add: hc_inv_def)
  have "\<exists>lost. hc_from_ssh h = hc_delivered h @ hc_unsent h @ hc_dropped h @ lost \<and> (hc_up_err h \<or> lost = [])"
    using up by (simp only: up_bytes_def)
  moreover have "hc_local_closed h \<or> hc_local_reset h \<or> hc_dropped h = []" "hc_local_closed h \<longrightarrow> hc_unsent h = []"
    using up by (auto simp: up_bytes_def)
  moreover have "hc_down_err h \<or> carries_down inflate compress (dc_out (hc_ch h)) (hc_from_local h)"
    "hc_local_fin h \<longrightarrow> hc_up h = Ended" "hc_ch_fin h \<longrightarrow> hc_down h = Ended"
    "hc_once h \<longleftrightarrow> hc_local_fin h \<noteq> hc_ch_fin h" "\<not> (hc_local_fin h \<and> hc_ch_fin h)"
    "hc_main h = Returned \<longrightarrow> hc_local_closed h \<and> hc_ch_closed h"
    using inv by (auto simp: hc_inv_def)
  ultimately show ?thesis by (intro conjI)
qed

abbreviation sample_stats :: StatsManager where
  "sample_stats \<equiv> NewStatsManager 0 (base_config (\<lambda>_. [])) False"

theorem handler_transparent_witness:
  "\<exists>h. hc_reach (\<lambda>b. Inr (0 # b)) True True True sample_stats h \<and> hc_from_ssh h = [1, 2] \<and> hc_delivered h = [1, 2] \<and>
     hc_up h = Ended"
proof -
  let ?R = "hc_reach (\<lambda>b. Inr (0 # b)) True True True sample_stats" and ?h0 = "handle_init True True sample_stats"
  let ?h1 = "?h0\<lparr>hc_from_ssh := [1, 2], hc_unsent := [1, 2]\<rparr>"
  let ?h2 = "?h0\<lparr>hc_from_ssh := [1, 2], hc_delivered := [1, 2]\<rparr>"
  let ?h4 = "?h2\<lparr>hc_up := Ended, hc_once := True, hc_local_fin := True\<rparr>"
  have "?R ?h1"
    using hc_reach.step [OF hc_reach.init hc_step.up_copy [of ?h0 _ _ "[1, 2]"]] by (simp add: handle_init_def)
  then have "?R ?h2"
    using hc_reach.step [OF _ hc_step.sent [of ?h1 "[1, 2]" "[]"]] by (simp add: handle_init_def)
  then have "?R (?h2\<lparr>hc_up := Copied\<rparr>)"
    by (rule hc_reach.step [OF _ hc_step.up_end]) (simp add: handle_init_def)
  then have r: "?R ?h4"
    using hc_reach.step [OF _ hc_step.up_first [of "?h2\<lparr>hc_up := Copied\<rparr>"]] by (simp add: handle_init_def)
  have "inflates (drop 1) (\<lambda>b. Inr (0 # b))" by (auto simp: inflates_def)
  from handler_transparent [OF this r] r show ?thesis by (intro exI [of _ ?h4]) simp
qed

end
