(* ===== verification/Tunnel.thy ===== *)
theory Tunnel
  imports Udp_Forward Transport_Dial Data_Plane Stats
begin

text \<open>
  One connection of a worker (\<open>base_tunnel/tunnel.go\<close>): authentication, transport, handshake,
  negotiations, the declarations of the forwarded port, and the heartbeat loop. What the server,
  the network and the file system answer is an argument; every return is a value of
  \<open>tunnel_error option\<close>, and the state says what is still open when it happens.
\<close>

section \<open>Declaring a TCP forward\<close>

text \<open>
  The payload of tcpip-forward: \<open>ssh.Marshal\<close> of an address and a port.
\<close>

definition tcpip_payload :: "int \<Rightarrow> bytes" where
  "tcpip_payload remotePort = be32 (of_nat (length bindAddr)) @ bindAddr @ be32 (word_of_int remotePort)"

text \<open>What \<open>SendRequest\<close> does within the timeout: nothing, an error, an answer.\<close>

datatype req_answer = ReqTimeout | ReqError | ReqAnswer bool

datatype request_error = TimedOut | SendFailed

definition sendForwardRequestWithTimeout :: "req_answer \<Rightarrow> request_error + bool" where
  "sendForwardRequestWithTimeout a =
     (case a of ReqTimeout \<Rightarrow> Inl TimedOut | ReqError \<Rightarrow> Inl SendFailed | ReqAnswer ok \<Rightarrow> Inr ok)"

datatype tcp_error = RegisterFailed | TcpRequestFailed request_error | TcpForwardRejected

section \<open>The state of a connection\<close>

datatype conn = Absent | Live | Shut

record tunnel =
  tn_transport :: conn
  tn_mode :: string
  tn_client :: conn
  tn_cancelled :: bool
  tn_compress :: bool
  tn_dataplane :: bool
  tn_datagram :: "bool option"
  tn_tcp :: bool
  tn_udp :: "udpForwardSession option"
  tn_online :: bool
  tn_stats :: StatsManager

definition new_tunnel :: "StatsManager \<Rightarrow> tunnel" where
  "new_tunnel sm =
     \<lparr>tn_transport = Absent, tn_mode = [], tn_client = Absent, tn_cancelled = False, tn_compress = False,
      tn_dataplane = False, tn_datagram = None, tn_tcp = False, tn_udp = None, tn_online = False, tn_stats = sm\<rparr>"

definition close_client :: "tunnel \<Rightarrow> tunnel" where "close_client t = t\<lparr>tn_client := Shut\<rparr>"
definition close_transport :: "tunnel \<Rightarrow> tunnel" where "close_transport t = t\<lparr>tn_transport := Shut\<rparr>"
definition record_failure :: "instant \<Rightarrow> tunnel \<Rightarrow> tunnel" where
  "record_failure now t = t\<lparr>tn_stats := RecordFailure now (tn_stats t)\<rparr>"
definition record_disconnection :: "instant \<Rightarrow> tunnel \<Rightarrow> tunnel" where
  "record_disconnection now t = t\<lparr>tn_stats := RecordDisconnection now (tn_stats t)\<rparr>"

text \<open>\<open>registered\<close>: whether \<open>HandleChannelOpen\<close> gives a channel.\<close>

definition declareTCPForward :: "bool \<Rightarrow> req_answer \<Rightarrow> tunnel \<Rightarrow> tcp_error option \<times> tunnel" where
  "declareTCPForward registered answer t =
     (if \<not> registered then (Some RegisterFailed, close_client t)
      else case sendForwardRequestWithTimeout answer of
             Inl e \<Rightarrow> (Some (TcpRequestFailed e), close_client t)
           | Inr ok \<Rightarrow> if \<not> ok then (Some TcpForwardRejected, close_client t) else (None, t))"

definition setupTCPForward :: "bool \<Rightarrow> req_answer \<Rightarrow> tunnel \<Rightarrow> tcp_error option \<times> tunnel" where
  "setupTCPForward registered answer t =
     (case declareTCPForward registered answer t of
        (Some e, t) \<Rightarrow> (Some e, t)
      | (None, t) \<Rightarrow> (None, t\<lparr>tn_tcp := True\<rparr>))"


section \<open>A forwarded connection\<close>

text \<open>
  The origin of a forwarded connection in the extra data of its channel. Go's \<open>int\<close> has
  \<open>bits\<close> bits: a conversion from \<open>uint32\<close> and the sums wrap to it (\<open>to_int\<close>). A slice or an index out of
  range is a panic, \<open>None\<close>.
\<close>

definition go_slice :: "bytes \<Rightarrow> int \<Rightarrow> int \<Rightarrow> bytes option" where
  "go_slice b i j = (if 0 \<le> i \<and> i \<le> j \<and> j \<le> int (length b) then Some (slice_of b (nat i) (nat j)) else None)"

definition go_uint32 :: "bytes \<Rightarrow> 32 word option" where
  "go_uint32 b = (if length b < 4 then None else Some (un_be (take 4 b)))"

definition uint32_at :: "nat \<Rightarrow> bytes \<Rightarrow> int \<Rightarrow> 32 word option" where
  "uint32_at bits extra i = Option.bind (go_slice extra i (to_int bits (i + 4))) go_uint32"

definition parse_origin :: "nat \<Rightarrow> bytes \<Rightarrow> int \<Rightarrow> (bytes \<times> string) option" where
  "parse_origin bits extra offset =
     (if int (length extra) \<ge> to_int bits (offset + 4)
      then Option.bind (uint32_at bits extra offset) (\<lambda>n.
             let originAddrLen = to_int bits (uint n); offset = to_int bits (offset + 4)
             in if int (length extra) \<ge> to_int bits (to_int bits (offset + originAddrLen) + 4)
                then Option.bind (go_slice extra offset (to_int bits (offset + originAddrLen))) (\<lambda>originAddr.
                     let offset = to_int bits (offset + originAddrLen)
                     in Option.bind (uint32_at bits extra offset) (\<lambda>p. Some (originAddr, itoa (uint p))))
                else Some ([], []))
      else Some ([], []))"

definition parse_extra_data :: "nat \<Rightarrow> bytes \<Rightarrow> (bytes \<times> string) option" where
  "parse_extra_data bits extra =
     (if length extra \<ge> 8
      then Option.bind (uint32_at bits extra 0) (\<lambda>n.
             let addrLen = to_int bits (uint n)
             in parse_origin bits extra (to_int bits (to_int bits (4 + addrLen) + 4)))
      else Some ([], []))"

text \<open>
  The goroutine of one channel: \<open>Rejected\<close> when the local service cannot be dialled or the
  channel not be accepted, \<open>Handling\<close> when it is passed to \<open>handleChannel\<close>, \<open>Panicked\<close> when the
  process dies. The flag is whether a local connection is left open by the goroutine itself.
\<close>

datatype channel_result = Rejected string | Handling | Panicked

definition forward_channel :: "nat \<Rightarrow> bool \<Rightarrow> bytes \<Rightarrow> bool \<Rightarrow> channel_result \<times> bool" where
  "forward_channel bits dial extra accept =
     (if \<not> dial then (Rejected ''local service unavailable'', False)
      else case parse_extra_data bits extra of
             None \<Rightarrow> (Panicked, False)
           | Some _ \<Rightarrow> if \<not> accept then (Rejected ''failed to accept'', False) else (Handling, True))"

text \<open>The extra data as RFC 4254 describes it: address and port that were connected, and the origin.\<close>

definition forwarded_tcpip :: "bytes \<Rightarrow> 32 word \<Rightarrow> bytes \<Rightarrow> 32 word \<Rightarrow> bytes" where
  "forwarded_tcpip host port origin originPort =
     be32 (of_nat (length host)) @ host @ be32 port @ be32 (of_nat (length origin)) @ origin @ be32 originPort"


lemma uint32_bounds: "0 \<le> uint (w :: 32 word)" "uint (w :: 32 word) < 2 ^ 32"
  using uint_bounded [of w] by simp_all

lemma uint32_at_64:
  "0 \<le> i \<Longrightarrow> i < 2 ^ 40 \<Longrightarrow> i + 4 \<le> int (length extra) \<Longrightarrow>
   uint32_at 64 extra i = Some (un_be (slice_of extra (nat i) (nat i + 4)))"
  by (simp add: uint32_at_def go_slice_def go_uint32_def to_int_64 length_slice_of nat_add_distrib slice_of_def)

lemma parse_origin_total:
  assumes "0 \<le> offset" "offset < 2 ^ 33"
  shows "parse_origin 64 extra offset \<noteq> None"
proof (cases "int (length extra) \<ge> offset + 4")
  case True
  define n where "n = (un_be (slice_of extra (nat offset) (nat offset + 4)) :: 32 word)"
  note b = uint32_bounds [of n]
  have "uint32_at 64 extra offset = Some n" using uint32_at_64 [of offset extra] True assms by (simp add: n_def)
  moreover have "uint32_at 64 extra (offset + 4 + uint n) \<noteq> None" if "offset + 8 + uint n \<le> int (length extra)"
    using uint32_at_64 [of "offset + 4 + uint n" extra] that assms b by simp
  moreover have "to_int 64 (offset + 4) = offset + 4" "to_int 64 (uint n) = uint n"
    "to_int 64 (offset + 4 + uint n) = offset + 4 + uint n" "to_int 64 (offset + 4 + uint n + 4) = offset + 4 + uint n + 4"
    using b assms by (simp_all add: to_int_nonneg)
  ultimately show ?thesis
    using True assms b by (auto simp: parse_origin_def go_slice_def Let_def)
next
  case False
  with assms show ?thesis by (simp add: parse_origin_def to_int_64)
qed

lemma parse_extra_data_total: "parse_extra_data 64 extra \<noteq> None"
proof (cases "length extra \<ge> 8")
  case True
  define n where "n = (un_be (slice_of extra 0 4) :: 32 word)"
  note b = uint32_bounds [of n]
  have "uint32_at 64 extra 0 = Some n" using uint32_at_64 [of 0 extra] True by (simp add: n_def)
  moreover have "to_int 64 (uint n) = uint n" "to_int 64 (4 + uint n) = 4 + uint n"
    "to_int 64 (4 + uint n + 4) = 4 + uint n + 4"
    using b by (simp_all add: to_int_nonneg)
  ultimately show ?thesis
    using True b parse_origin_total [of "4 + uint n + 4" extra]
    by (simp add: parse_extra_data_def Let_def)
qed (simp add: parse_extra_data_def)

lemma slice_at:
  "length xs = i \<Longrightarrow> length ys = n \<Longrightarrow> slice_of (xs @ ys @ zs) i (i + n) = ys"
  by (simp add: slice_of_def)

lemma uint_of_nat32: "n < 2 ^ 32 \<Longrightarrow> uint (of_nat n :: 32 word) = int n"
  by (simp add: uint_nat unat_of_nat_less)

lemma parse_forwarded:
  assumes "length host < 2 ^ 32" "length origin < 2 ^ 32"
  shows "parse_extra_data 64 (forwarded_tcpip host port origin originPort) = Some (origin, itoa (uint originPort))"
proof -
  let ?e = "forwarded_tcpip host port origin originPort"
  let ?h = "length host" and ?o = "length origin"
  let ?off = "4 + int ?h + 4"
  have len: "length ?e = 16 + ?h + ?o" by (simp add: forwarded_tcpip_def)
  have e1: "?e = [] @ be32 (of_nat ?h) @ (host @ be32 port @ be32 (of_nat ?o) @ origin @ be32 originPort)"
    and e2: "?e = (be32 (of_nat ?h) @ host @ be32 port) @ be32 (of_nat ?o) @ (origin @ be32 originPort)"
    and e3: "?e = (be32 (of_nat ?h) @ host @ be32 port @ be32 (of_nat ?o)) @ origin @ be32 originPort"
    and e4: "?e = (be32 (of_nat ?h) @ host @ be32 port @ be32 (of_nat ?o) @ origin) @ be32 originPort @ []"
    by (simp_all add: forwarded_tcpip_def)
  have n: "nat ?off = 8 + ?h" "nat (?off + 4) = 12 + ?h" "nat (?off + 4 + int ?o) = 12 + ?h + ?o" by auto
  have r1: "uint32_at 64 ?e 0 = Some (of_nat ?h)"
    using uint32_at_64 [of 0 ?e] slice_at [of "[]" 0 "be32 (of_nat ?h)" 4] len by (simp add: e1)
  have r2: "uint32_at 64 ?e ?off = Some (of_nat ?o)"
    using uint32_at_64 [of ?off ?e] slice_at [of "be32 (of_nat ?h) @ host @ be32 port" "8 + ?h" "be32 (of_nat ?o)" 4] len assms n
    by (simp add: e2)
  have r3: "go_slice ?e (?off + 4) (?off + 4 + int ?o) = Some origin"
    using slice_at [of "be32 (of_nat ?h) @ host @ be32 port @ be32 (of_nat ?o)" "12 + ?h" origin ?o "be32 originPort"] len n
    by (simp add: go_slice_def e3)
  have r4: "uint32_at 64 ?e (?off + 4 + int ?o) = Some originPort"
    using uint32_at_64 [of "?off + 4 + int ?o" ?e]
      slice_at [of "be32 (of_nat ?h) @ host @ be32 port @ be32 (of_nat ?o) @ origin" "12 + ?h + ?o" "be32 originPort" 4 "[]"] len assms n
    by (simp add: e4)
  have g1: "to_int 64 (to_int 64 (4 + to_int 64 (uint (of_nat ?h :: 32 word))) + 4) = ?off"
    and g2: "to_int 64 (?off + 4) = ?off + 4" "to_int 64 (uint (of_nat ?o :: 32 word)) = int ?o"
      "to_int 64 (?off + 4 + int ?o) = ?off + 4 + int ?o" "to_int 64 (?off + 4 + int ?o + 4) = ?off + 4 + int ?o + 4"
    using assms by (simp_all add: uint_of_nat32 to_int_64)
  have p: "parse_origin 64 ?e ?off = Some (origin, itoa (uint originPort))"
    unfolding parse_origin_def g2 r2 Option.bind.bind_lunit Let_def r3 r4 using len by simp
  show ?thesis
    unfolding parse_extra_data_def r1 Option.bind.bind_lunit Let_def g1 p using len by simp
qed


section \<open>Establishing a tunnel\<close>

datatype auth_method = AuthPassword string | AuthPublicKey
datatype key_file = KeyUnreadable | KeyUnparsable | KeyOk

datatype ping_error =
    NonceFailed | PingTimedOut | PingRequestFailed | PingUnsupported
  | MalformedPing nat | NonceMismatch | EntryUnhealthy | ConfigChanged

datatype tunnel_error =
    ReadKeyFailed | ParseKeyFailed
  | DialFailed string dial_error
  | HandshakeFailed
  | NegotiationTimeout
  | TCPForwardFailed tcp_error
  | UDPForwardFailed forward_error
  | ConnectionClosed bool
  | HeartbeatFailed
  | UDPPingFailed nat ping_error

text \<open>\<open>errors.Is(err, ErrForwardRejected)\<close>: the sentinel is wrapped by both declarations.\<close>

definition forward_rejected :: "tunnel_error \<Rightarrow> bool" where
  "forward_rejected e \<longleftrightarrow> e = TCPForwardFailed TcpForwardRejected \<or> e = UDPForwardFailed ErrForwardRejected"

text \<open>
  What the outside answers during the establishment: environment, key file, dials (as in
  \<open>dialTransport\<close>), handshake, compression request, data plane channel, datagram support,
  registration and answer of tcpip-forward, answer of udp-forward and its channels.
\<close>

record answers =
  an_env :: env
  an_key :: key_file
  an_quic :: "duration \<Rightarrow> bool"
  an_tcp :: bool
  an_handshake :: bool
  an_compress :: compress_answer
  an_dataplane :: bool
  an_datagrams :: bool
  an_registered :: bool
  an_tcpip :: req_answer
  an_udp :: "(bool \<times> bytes) option"
  an_udp_opens :: "nat \<Rightarrow> bool"

type_synonym outcome_of = "tunnel_error option \<times> tunnel"

definition and_then :: "outcome_of \<Rightarrow> (tunnel \<Rightarrow> outcome_of) \<Rightarrow> outcome_of" where
  "and_then r f = (case r of (Some e, t) \<Rightarrow> (Some e, t) | (None, t) \<Rightarrow> f t)"

definition auth_methods :: "Config \<Rightarrow> key_file \<Rightarrow> tunnel_error + auth_method list" where
  "auth_methods config key =
     (let auth = (if Password config \<noteq> [] then [AuthPassword (Password config)] else [])
      in if SSHKeyPath config \<noteq> []
         then case key of
                KeyUnreadable \<Rightarrow> Inl ReadKeyFailed
              | KeyUnparsable \<Rightarrow> Inl ParseKeyFailed
              | KeyOk \<Rightarrow> Inr (auth @ [AuthPublicKey])
         else Inr auth)"

definition serverAddr :: "Config \<Rightarrow> string" where
  "serverAddr config = ServerHost config @ '':'' @ itoa (ServerPort config)"

definition open_connection ::
  "instant \<Rightarrow> answers \<Rightarrow> Config \<Rightarrow> transportCache \<Rightarrow> tunnel \<Rightarrow> outcome_of \<times> transportCache" where
  "open_connection now w config cache t =
     (case auth_methods config (an_key w) of
        Inl e \<Rightarrow> ((Some e, record_failure now t), cache)
      | Inr auth \<Rightarrow>
          (case dialTransport now now (Transport config) (serverAddr config) (an_quic w) (an_tcp w) cache of
             ((Some e, mode), cache, dials) \<Rightarrow> ((Some (DialFailed mode e), record_failure now t), cache)
           | ((None, mode), cache, dials) \<Rightarrow>
               (let t = t\<lparr>tn_transport := Live, tn_mode := mode\<rparr>
                in if \<not> an_handshake w
                   then ((Some HandshakeFailed, close_transport (record_failure now t)), cache)
                   else ((None, t\<lparr>tn_client := Live, tn_stats := RecordConnection now (tn_stats t)\<rparr>), cache))))"

definition negotiate_compression :: "instant \<Rightarrow> answers \<Rightarrow> Config \<Rightarrow> tunnel \<Rightarrow> outcome_of" where
  "negotiate_compression now w config t =
     (if Compress config
      then case negotiateCompress (an_compress w) of
             (enabled, ok) \<Rightarrow>
               if \<not> ok then (Some NegotiationTimeout, record_failure now (close_client t))
               else (None, t\<lparr>tn_compress := enabled\<rparr>)
      else (None, t))"

definition start_data_plane :: "answers \<Rightarrow> tunnel \<Rightarrow> tunnel" where
  "start_data_plane w t =
     (if tn_mode t = ''quic'' \<and> dataPlaneEnabled (an_env w) \<and> an_dataplane w then t\<lparr>tn_dataplane := True\<rparr> else t)"

definition datagram_capability :: "answers \<Rightarrow> tunnel \<Rightarrow> tunnel" where
  "datagram_capability w t =
     t\<lparr>tn_datagram := (if tn_mode t = ''quic'' \<and> an_datagrams w then Some True else None)\<rparr>"

definition tear_down_setup :: "instant \<Rightarrow> tunnel \<Rightarrow> tunnel" where
  "tear_down_setup now t = record_failure now (close_transport (close_client t))"

definition setup_udp :: "instant \<Rightarrow> answers \<Rightarrow> Config \<Rightarrow> tunnel \<Rightarrow> outcome_of" where
  "setup_udp now w config t =
     (case fst (setupUDPForward (an_udp w) (an_udp_opens w) (UDPMaxPacketSize config) (tn_datagram t)) of
        Inl e \<Rightarrow> (Some (UDPForwardFailed e), tear_down_setup now t)
      | Inr sess \<Rightarrow> (None, t\<lparr>tn_udp := Some sess\<rparr>))"

definition setup_tcp :: "instant \<Rightarrow> answers \<Rightarrow> tunnel \<Rightarrow> outcome_of" where
  "setup_tcp now w t =
     (case setupTCPForward (an_registered w) (an_tcpip w) t of
        (Some e, t) \<Rightarrow> (Some (TCPForwardFailed e), tear_down_setup now t)
      | (None, t) \<Rightarrow> (None, t))"

definition declare_forwards :: "instant \<Rightarrow> answers \<Rightarrow> Config \<Rightarrow> tunnel \<Rightarrow> outcome_of" where
  "declare_forwards now w config t =
     (if Proto config = ''udp'' then setup_udp now w config t
      else if Proto config = ''both'' then and_then (setup_tcp now w t) (setup_udp now w config)
      else setup_tcp now w t)"

definition establish ::
  "instant \<Rightarrow> answers \<Rightarrow> Config \<Rightarrow> transportCache \<Rightarrow> StatsManager \<Rightarrow> outcome_of \<times> transportCache" where
  "establish now w config cache sm =
     (case open_connection now w config cache (new_tunnel sm) of
        (r, cache) \<Rightarrow>
          (and_then (and_then (and_then r (negotiate_compression now w config))
             (\<lambda>t. declare_forwards now w config (datagram_capability w (start_data_plane w t))))
             (\<lambda>t. (None, t\<lparr>tn_online := True\<rparr>)), cache))"


section \<open>The heartbeat\<close>

definition udpPingNonceLen :: nat where "udpPingNonceLen = 16"
definition udpPingReplyLen :: nat where "udpPingReplyLen = udpPingNonceLen + 4 + 1"
definition udpFlagSharedEntryHealthy :: byte where "udpFlagSharedEntryHealthy = 0x01"
definition udpFlagConfigChanged :: byte where "udpFlagConfigChanged = 0x02"
definition udpFlagConfigUnknown :: byte where "udpFlagConfigUnknown = 0x04"

lemmas ping_consts = udpPingNonceLen_def udpPingReplyLen_def udpFlagSharedEntryHealthy_def
  udpFlagConfigChanged_def udpFlagConfigUnknown_def

definition parseUDPPingReply :: "bytes \<Rightarrow> bytes \<Rightarrow> string \<Rightarrow> ping_error option" where
  "parseUDPPingReply nonce resp proto =
     (if length resp < udpPingReplyLen then Some (MalformedPing (length resp))
      else if take udpPingNonceLen resp \<noteq> nonce then Some NonceMismatch
      else let flags = resp ! (udpPingReplyLen - 1)
           in if flags AND udpFlagSharedEntryHealthy = 0 \<and> TrimSpace (ToLower proto) \<in> {''udp'', ''both''}
              then Some EntryUnhealthy
              else if flags AND udpFlagConfigUnknown \<noteq> 0 then None
              else if flags AND udpFlagConfigChanged \<noteq> 0 then Some ConfigChanged
              else None)"

text \<open>The random nonce, if there is one, and what the request gives within the timeout.\<close>

datatype ping_answer = PingNoAnswer | PingError | PingAnswer bool bytes

definition sendUDPPing :: "bytes option \<Rightarrow> ping_answer \<Rightarrow> string \<Rightarrow> ping_error option" where
  "sendUDPPing rand a proto =
     (case rand of
        None \<Rightarrow> Some NonceFailed
      | Some nonce \<Rightarrow>
          (case a of
             PingNoAnswer \<Rightarrow> Some PingTimedOut
           | PingError \<Rightarrow> Some PingRequestFailed
           | PingAnswer ok resp \<Rightarrow> if \<not> ok then Some PingUnsupported else parseUDPPingReply nonce resp proto))"

text \<open>
  A keepalive succeeds with any answer, a refusal included. \<open>keep\<close> gives the outcome of each of
  the up to three tries.
\<close>

definition sendKeepaliveWithTimeout :: "req_answer \<Rightarrow> request_error option" where
  "sendKeepaliveWithTimeout a =
     (case a of ReqTimeout \<Rightarrow> Some TimedOut | ReqError \<Rightarrow> Some SendFailed | ReqAnswer ok \<Rightarrow> None)"

function heartbeat :: "nat \<Rightarrow> (nat \<Rightarrow> req_answer) \<Rightarrow> bool" where
  "heartbeat retry keep =
     (if retry < 3 then if sendKeepaliveWithTimeout (keep retry) = None then True else heartbeat (Suc retry) keep else False)"
  by pat_completeness auto
termination by (relation "measure (\<lambda>(retry, keep). 3 - retry)") auto

declare heartbeat.simps [simp del]

lemma heartbeat_iff:
  "heartbeat 0 keep \<longleftrightarrow> sendKeepaliveWithTimeout (keep 0) = None \<or> sendKeepaliveWithTimeout (keep 1) = None \<or>
     sendKeepaliveWithTimeout (keep 2) = None"
  by (simp add: heartbeat.simps numeral_2_eq_2)

record ping_state =
  pg_disabled :: bool
  pg_failures :: nat

datatype tunnel_event =
    CtxDone
  | ConnDone bool
  | Tick "nat \<Rightarrow> req_answer" "bytes option" ping_answer

definition tear_down :: "instant \<Rightarrow> tunnel \<Rightarrow> tunnel" where
  "tear_down now t = record_disconnection now (close_transport (close_client (t\<lparr>tn_cancelled := True\<rparr>)))"

text \<open>
  One turn of the loop: \<open>None\<close> when it goes on, \<open>Some\<close> of what is returned otherwise.
\<close>

definition ping_turn ::
  "instant \<Rightarrow> Config \<Rightarrow> bytes option \<Rightarrow> ping_answer \<Rightarrow> ping_state \<times> tunnel \<Rightarrow>
   tunnel_error option option \<times> ping_state \<times> tunnel" where
  "ping_turn now config rand a = (\<lambda>(pg, t).
     if pg_disabled pg then (None, pg, t)
     else case sendUDPPing rand a (Proto config) of
            None \<Rightarrow> (None, pg\<lparr>pg_failures := 0\<rparr>, t)
          | Some perr \<Rightarrow>
              if perr = PingUnsupported then (None, pg\<lparr>pg_disabled := True\<rparr>, t)
              else let pg = pg\<lparr>pg_failures := pg_failures pg + 1\<rparr>
                   in if pg_failures pg \<ge> 2
                      then (Some (Some (UDPPingFailed (pg_failures pg) perr)), pg, tear_down now t)
                      else (None, pg, t))"

definition loop_turn ::
  "instant \<Rightarrow> Config \<Rightarrow> tunnel_event \<Rightarrow> ping_state \<times> tunnel \<Rightarrow>
   tunnel_error option option \<times> ping_state \<times> tunnel" where
  "loop_turn now config ev = (\<lambda>(pg, t).
     case ev of
       CtxDone \<Rightarrow> (Some None, pg, tear_down now t)
     | ConnDone err \<Rightarrow> (Some (Some (ConnectionClosed err)), pg,
         record_disconnection now (close_transport (close_client t)))
     | Tick keep rand a \<Rightarrow>
         if \<not> heartbeat 0 keep then (Some (Some HeartbeatFailed), pg, tear_down now t)
         else ping_turn now config rand a (pg, t))"

fun main_loop ::
  "Config \<Rightarrow> (instant \<times> tunnel_event) list \<Rightarrow> ping_state \<times> tunnel \<Rightarrow>
   tunnel_error option option \<times> ping_state \<times> tunnel" where
  "main_loop config [] s = (None, s)"
| "main_loop config ((now, ev) # evs) s =
     (case loop_turn now config ev s of
        (None, s) \<Rightarrow> main_loop config evs s
      | (Some r, s) \<Rightarrow> (Some r, s))"

definition ConnectAndTunnel ::
  "instant \<Rightarrow> answers \<Rightarrow> Config \<Rightarrow> transportCache \<Rightarrow> StatsManager \<Rightarrow> (instant \<times> tunnel_event) list \<Rightarrow>
   (tunnel_error option option \<times> tunnel) \<times> transportCache" where
  "ConnectAndTunnel now w config cache sm evs =
     (case establish now w config cache sm of
        ((Some e, t), cache) \<Rightarrow> ((Some (Some e), t), cache)
      | ((None, t), cache) \<Rightarrow>
          (case main_loop config evs (\<lparr>pg_disabled = False, pg_failures = 0\<rparr>, t) of
             (r, _, t) \<Rightarrow> ((r, t), cache)))"


section \<open>What holds at a return\<close>

definition released :: "tunnel_error option \<Rightarrow> tunnel \<Rightarrow> bool" where
  "released r t \<longleftrightarrow> tn_client t \<noteq> Live \<and> (tn_transport t \<noteq> Live \<or> r = Some NegotiationTimeout) \<and>
     GetStatus (tn_stats t) = ''offline''"

text \<open>
  The protocol's declarations: what a tunnel that counts as established must have, and what the
  server must have answered for it.
\<close>

definition declared :: "answers \<Rightarrow> Config \<Rightarrow> tunnel \<Rightarrow> bool" where
  "declared w config t \<longleftrightarrow>
     (Proto config = ''udp'' \<or> tn_tcp t \<and> an_registered w \<and> an_tcpip w = ReqAnswer True) \<and>
     (Proto config \<in> {''udp'', ''both''} \<longrightarrow>
        (\<exists>sess resp. an_udp w = Some (True, resp) \<and> tn_udp t = Some sess \<and> session_ok sess))"

lemmas tunnel_ops = close_client_def close_transport_def record_failure_def record_disconnection_def
  tear_down_def tear_down_setup_def

lemma and_then_cases:
  assumes "and_then r f = (e, t)"
  obtains (err) x where "e = Some x" "r = (Some x, t)" | (ok) t1 where "r = (None, t1)" "f t1 = (e, t)"
  using assms by (cases r; cases "fst r") (auto simp: and_then_def)

lemma open_connection_result:
  assumes "open_connection now w config cache (new_tunnel sm) = ((e, t), cache')"
  shows "\<not> tn_online t \<and> (case e of Some e \<Rightarrow> released (Some e) t \<and> \<not> forward_rejected e
     | None \<Rightarrow> tn_client t = Live \<and> tn_transport t = Live)"
  using assms
  by (auto simp: open_connection_def new_tunnel_def tunnel_ops released_def Let_def auth_methods_def forward_rejected_def
      split: sum.splits prod.splits option.splits if_splits key_file.splits)

lemma negotiate_compression_result:
  assumes "negotiate_compression now w config t = (e, t')" "tn_client t = Live" "tn_transport t = Live" "\<not> tn_online t"
  shows "\<not> tn_online t' \<and> (case e of Some e \<Rightarrow> released (Some e) t' \<and> \<not> forward_rejected e
     | None \<Rightarrow> tn_client t' = Live \<and> tn_transport t' = Live)"
  using assms
  by (auto simp: negotiate_compression_def tunnel_ops released_def forward_rejected_def split: prod.splits if_splits)

lemma setup_tcp_result:
  assumes "setup_tcp now w t = (e, t')" "\<not> tn_online t"
  shows "\<not> tn_online t' \<and> (case e of Some e \<Rightarrow> released (Some e) t'
     | None \<Rightarrow> t' = t\<lparr>tn_tcp := True\<rparr> \<and> an_registered w \<and> an_tcpip w = ReqAnswer True)"
  using assms
  by (auto simp: setup_tcp_def setupTCPForward_def declareTCPForward_def sendForwardRequestWithTimeout_def tunnel_ops
      released_def split: prod.splits option.splits if_splits sum.splits req_answer.splits)

lemma setup_udp_result:
  assumes "setup_udp now w config t = (e, t')" "\<not> tn_online t"
  shows "\<not> tn_online t' \<and> (case e of Some e \<Rightarrow> released (Some e) t'
     | None \<Rightarrow> \<exists>sess resp. an_udp w = Some (True, resp) \<and> t' = t\<lparr>tn_udp := Some sess\<rparr> \<and> session_ok sess)"
proof -
  obtain r left where s: "setupUDPForward (an_udp w) (an_udp_opens w) (UDPMaxPacketSize config) (tn_datagram t) = (r, left)"
    by fastforce
  show ?thesis
  proof (cases r)
    case (Inl x)
    with s assms show ?thesis by (auto simp: setup_udp_def tunnel_ops released_def)
  next
    case (Inr sess)
    then have inr: "setupUDPForward (an_udp w) (an_udp_opens w) (UDPMaxPacketSize config) (tn_datagram t) = (Inr sess, left)"
      using s by simp
    from setup_session(1) [OF this] setup_accepted [OF this] s Inr assms show ?thesis by (auto simp: setup_udp_def)
  qed
qed


lemma declare_forwards_result:
  assumes "declare_forwards now w config t = (e, t')" "\<not> tn_online t" "tn_client t = Live" "tn_transport t = Live"
  shows "\<not> tn_online t' \<and> (case e of Some e \<Rightarrow> released (Some e) t'
     | None \<Rightarrow> declared w config t' \<and> tn_client t' = Live \<and> tn_transport t' = Live)"
proof -
  consider (udp) "Proto config = ''udp''" | (both) "Proto config = ''both''"
    | (tcp) "Proto config \<notin> {''udp'', ''both''}" by blast
  then show ?thesis
  proof cases
    case udp
    with assms setup_udp_result [of now w config t e t'] show ?thesis
      by (auto simp: declare_forwards_def declared_def split: option.splits)
  next
    case tcp
    with assms setup_tcp_result [of now w t e t'] show ?thesis
      by (auto simp: declare_forwards_def declared_def split: option.splits)
  next
    case both
    with assms(1) have "and_then (setup_tcp now w t) (setup_udp now w config) = (e, t')"
      by (simp add: declare_forwards_def)
    then show ?thesis
    proof (cases rule: and_then_cases)
      case (err x)
      with setup_tcp_result [OF err(2) assms(2)] show ?thesis by simp
    next
      case (ok t1)
      from setup_tcp_result [OF ok(1) assms(2)] assms
      have t1: "t1 = t\<lparr>tn_tcp := True\<rparr>" "\<not> tn_online t1" "an_registered w" "an_tcpip w = ReqAnswer True" by simp_all
      with setup_udp_result [OF ok(2) t1(2)] assms both show ?thesis
        by (auto simp: declared_def split: option.splits)
    qed
  qed
qed

lemma establish_result:
  assumes "establish now w config cache sm = ((e, t), cache')"
  shows "case e of Some e \<Rightarrow> released (Some e) t \<and> \<not> tn_online t
     | None \<Rightarrow> tn_online t \<and> declared w config t \<and> tn_client t = Live \<and> tn_transport t = Live"
proof -
  let ?neg = "negotiate_compression now w config"
  let ?decl = "\<lambda>t. declare_forwards now w config (datagram_capability w (start_data_plane w t))"
  obtain r c where o: "open_connection now w config cache (new_tunnel sm) = (r, c)" by fastforce
  with assms have "and_then (and_then (and_then r ?neg) ?decl) (\<lambda>t. (None, t\<lparr>tn_online := True\<rparr>)) = (e, t)"
    by (simp add: establish_def)
  moreover have neg: "\<not> tn_online t1 \<and> (case e1 of Some x \<Rightarrow> released (Some x) t1 | None \<Rightarrow> tn_client t1 = Live \<and> tn_transport t1 = Live)"
    if "and_then r ?neg = (e1, t1)" for e1 t1
    using that
  proof (cases rule: and_then_cases)
    case (err x)
    with open_connection_result [of now w config cache sm e1 t1 c] o show ?thesis by simp
  next
    case (ok t0)
    with open_connection_result [of now w config cache sm None t0 c] o have "\<not> tn_online t0" "tn_client t0 = Live" "tn_transport t0 = Live"
      by simp_all
    with negotiate_compression_result [OF ok(2)] show ?thesis by (auto split: option.splits)
  qed
  moreover have decl: "\<not> tn_online t1 \<and> (case e1 of Some x \<Rightarrow> released (Some x) t1
      | None \<Rightarrow> declared w config t1 \<and> tn_client t1 = Live \<and> tn_transport t1 = Live)"
    if "and_then (and_then r ?neg) ?decl = (e1, t1)" for e1 t1
    using that
  proof (cases rule: and_then_cases)
    case (err x)
    with neg [OF err(2)] show ?thesis by simp
  next
    case (ok t0)
    with neg [OF ok(1)] declare_forwards_result [OF ok(2)] show ?thesis
      by (auto simp: datagram_capability_def start_data_plane_def)
  qed
  ultimately show ?thesis
  proof (cases rule: and_then_cases)
    case (err x)
    with decl [OF err(2)] show ?thesis by simp
  next
    case (ok t0)
    with decl [OF ok(1)] show ?thesis by (auto simp: declared_def)
  qed
qed

lemma loop_turn_result:
  assumes "loop_turn now config ev (pg, t) = (r, pg', t')"
  shows "case r of None \<Rightarrow> t' = t | Some e \<Rightarrow> released e t' \<and> (e = None \<longleftrightarrow> ev = CtxDone) \<and> tn_online t' = tn_online t \<and>
     declared w config t' = declared w config t \<and>
     (\<forall>x. e = Some x \<longrightarrow> \<not> forward_rejected x)"
  using assms
  by (auto simp: loop_turn_def ping_turn_def tunnel_ops released_def forward_rejected_def declared_def Let_def
      split: tunnel_event.splits option.splits if_splits)

lemma main_loop_result:
  "main_loop config evs (pg, t) = (r, pg', t') \<Longrightarrow>
   (case r of None \<Rightarrow> t' = t | Some e \<Rightarrow> released e t' \<and> (e = None \<longrightarrow> CtxDone \<in> snd ` set evs) \<and> tn_online t' = tn_online t \<and>
     declared w config t' = declared w config t \<and> (\<forall>x. e = Some x \<longrightarrow> \<not> forward_rejected x))"
proof (induction evs arbitrary: pg)
  case (Cons te evs)
  obtain now ev where te: "te = (now, ev)" by (cases te)
  obtain r1 pg1 t1 where l: "loop_turn now config ev (pg, t) = (r1, pg1, t1)" by (metis prod_cases3)
  note lr = loop_turn_result [OF l]
  show ?case
  proof (cases r1)
    case None
    with lr l te Cons.prems Cons.IH [of pg1] show ?thesis by (auto split: option.splits)
  next
    case (Some e)
    with lr l te Cons.prems show ?thesis by auto
  qed
qed simp

text \<open>The fate of pings in a row, from a loop state that has counted \<open>k\<close> failures.\<close>

definition strikes :: "ping_error option \<Rightarrow> bool" where
  "strikes v \<longleftrightarrow> v \<noteq> None \<and> v \<noteq> Some PingUnsupported"

fun ping_verdicts :: "Config \<Rightarrow> (instant \<times> tunnel_event) list \<Rightarrow> ping_error option list" where
  "ping_verdicts config [] = []"
| "ping_verdicts config ((now, Tick keep rand a) # evs) = sendUDPPing rand a (Proto config) # ping_verdicts config evs"
| "ping_verdicts config ((now, _) # evs) = ping_verdicts config evs"

definition two_strikes :: "ping_error option list \<Rightarrow> bool" where
  "two_strikes vs \<longleftrightarrow> (\<exists>us v v' ws. vs = us @ v # v' # ws \<and> strikes v \<and> strikes v' \<and> Some PingUnsupported \<notin> set us)"

definition steady :: "instant \<times> tunnel_event \<Rightarrow> bool" where
  "steady te \<longleftrightarrow> (\<exists>now keep rand a. te = (now, Tick keep rand a) \<and> heartbeat 0 keep)"

lemma two_strikes_Cons:
  "two_strikes (v # vs) \<longleftrightarrow>
     strikes v \<and> (\<exists>v' ws. vs = v' # ws \<and> strikes v') \<or> v \<noteq> Some PingUnsupported \<and> two_strikes vs"
proof
  assume "two_strikes (v # vs)"
  then obtain us x y ws where eq: "v # vs = us @ x # y # ws" and st: "strikes x" "strikes y" "Some PingUnsupported \<notin> set us"
    by (auto simp: two_strikes_def)
  show "strikes v \<and> (\<exists>v' ws. vs = v' # ws \<and> strikes v') \<or> v \<noteq> Some PingUnsupported \<and> two_strikes vs"
  proof (cases us)
    case Nil
    with eq st show ?thesis by auto
  next
    case (Cons u us')
    with eq st have "two_strikes vs" "v \<noteq> Some PingUnsupported" unfolding two_strikes_def by auto
    then show ?thesis by blast
  qed
next
  assume "strikes v \<and> (\<exists>v' ws. vs = v' # ws \<and> strikes v') \<or> v \<noteq> Some PingUnsupported \<and> two_strikes vs"
  then show "two_strikes (v # vs)"
  proof
    assume "strikes v \<and> (\<exists>v' ws. vs = v' # ws \<and> strikes v')"
    then show ?thesis unfolding two_strikes_def by (intro exI [of _ "[]"]) auto
  next
    assume "v \<noteq> Some PingUnsupported \<and> two_strikes vs"
    then obtain us x y ws where "vs = us @ x # y # ws" "strikes x" "strikes y" "Some PingUnsupported \<notin> set us"
      "v \<noteq> Some PingUnsupported" by (auto simp: two_strikes_def)
    then show ?thesis unfolding two_strikes_def by (intro exI [of _ "v # us"]) auto
  qed
qed

lemma main_loop_pings:
  assumes "list_all steady evs"
  shows "pg_failures pg \<le> 1 \<Longrightarrow>
     (fst (main_loop config evs (pg, t)) \<noteq> None \<longleftrightarrow>
       \<not> pg_disabled pg \<and> (two_strikes (ping_verdicts config evs) \<or>
          pg_failures pg = 1 \<and> (\<exists>v ws. ping_verdicts config evs = v # ws \<and> strikes v)))"
  using assms
proof (induction evs arbitrary: pg)
  case Nil
  then show ?case by (simp add: two_strikes_def)
next
  case (Cons te evs)
  then obtain now keep rand a where te: "te = (now, Tick keep rand a)" "heartbeat 0 keep"
    by (auto simp: steady_def)
  let ?v = "sendUDPPing rand a (Proto config)"
  have ih: "pg_failures pg \<le> 1 \<Longrightarrow>
     (fst (main_loop config evs (pg, t)) \<noteq> None \<longleftrightarrow>
       \<not> pg_disabled pg \<and> (two_strikes (ping_verdicts config evs) \<or>
          pg_failures pg = 1 \<and> (\<exists>v ws. ping_verdicts config evs = v # ws \<and> strikes v)))" for pg
    using Cons by simp
  have step: "loop_turn now config (snd te) (pg, t) = ping_turn now config rand a (pg, t)"
    using te by (simp add: loop_turn_def)
  show ?case
  proof (cases "pg_disabled pg")
    case True
    then show ?thesis using step te ih [OF Cons.prems(1)] by (simp add: ping_turn_def)
  next
    case False
    consider (ok) "?v = None" | (unsupported) "?v = Some PingUnsupported" | (bad) e where "?v = Some e" "e \<noteq> PingUnsupported"
      by (cases ?v) auto
    then show ?thesis
    proof cases
      case ok
      then show ?thesis using False step te ih [of "pg\<lparr>pg_failures := 0\<rparr>"]
        by (simp add: ping_turn_def two_strikes_Cons strikes_def)
    next
      case unsupported
      then show ?thesis using False step te ih [of "pg\<lparr>pg_disabled := True\<rparr>"] Cons.prems
        by (simp add: ping_turn_def two_strikes_Cons strikes_def)
    next
      case bad
      have f: "pg_failures pg = 0 \<or> pg_failures pg = 1" using Cons.prems(1) by auto
      show ?thesis
        using bad False step te ih [of "pg\<lparr>pg_failures := Suc (pg_failures pg)\<rparr>"] f
        by (auto simp: ping_turn_def two_strikes_Cons strikes_def)
    qed
  qed
qed


lemma ConnectAndTunnel_result:
  assumes "ConnectAndTunnel now w config cache sm evs = ((r, t), cache')"
  shows "(\<forall>e. r = Some e \<longrightarrow> released e t) \<and> (r = Some None \<longrightarrow> tn_online t \<and> CtxDone \<in> snd ` set evs) \<and>
    (r = None \<longrightarrow> tn_online t) \<and> (tn_online t \<longrightarrow> declared w config t) \<and>
    (\<forall>x. r = Some (Some x) \<and> forward_rejected x \<longrightarrow> \<not> tn_online t)"
proof -
  let ?pg = "\<lparr>pg_disabled = False, pg_failures = 0\<rparr>"
  obtain e0 t0 c0 where e: "establish now w config cache sm = ((e0, t0), c0)" by (metis prod_cases3 surj_pair)
  note er = establish_result [OF e]
  show ?thesis
  proof (cases e0)
    case (Some x)
    with assms e er show ?thesis by (auto simp: ConnectAndTunnel_def)
  next
    case None
    obtain r1 pg1 t1 where m: "main_loop config evs (?pg, t0) = (r1, pg1, t1)" by (metis prod_cases3)
    with assms e None have rt: "r = r1" "t = t1" by (auto simp: ConnectAndTunnel_def)
    with main_loop_result [OF m, of w] er None show ?thesis by (auto split: option.splits)
  qed
qed


section \<open>Properties\<close>

text \<open>
  C4. Every return of \<open>ConnectAndTunnel\<close> releases what it opened: the SSH client is closed, the
  transport is closed (after a timeout of the compression request only through the client), the
  statistics say offline. It returns without an error only after the tunnel was established and
  the context was cancelled: the loss of the connection is always an error.
\<close>

theorem tunnel_return_releases:
  assumes "ConnectAndTunnel now w config cache sm evs = ((Some r, t), cache')"
  shows "tn_client t \<noteq> Live \<and> (tn_transport t \<noteq> Live \<or> r = Some NegotiationTimeout) \<and>
    GetStatus (tn_stats t) = ''offline'' \<and> (r = None \<longrightarrow> tn_online t \<and> CtxDone \<in> snd ` set evs)"
  using ConnectAndTunnel_result [OF assms] by (simp add: released_def)

abbreviation sample_answers :: answers where
  "sample_answers \<equiv>
     \<lparr>an_env = (\<lambda>_. []), an_key = KeyOk, an_quic = (\<lambda>_. False), an_tcp = True, an_handshake = True,
      an_compress = Reply False, an_dataplane = False, an_datagrams = False, an_registered = True,
      an_tcpip = ReqAnswer True, an_udp = None, an_udp_opens = (\<lambda>_. True)\<rparr>"

abbreviation sample_config :: Config where
  "sample_config \<equiv> (base_config (\<lambda>_. []))\<lparr>Proto := ''tcp'', Transport := ''tcp'', Compress := False\<rparr>"

lemma sample_tunnel:
  "fst (fst (ConnectAndTunnel 0 sample_answers sample_config [] (NewStatsManager 0 sample_config True) [(1, CtxDone)])) = Some None"
  "fst (fst (ConnectAndTunnel 0 (sample_answers\<lparr>an_tcpip := ReqAnswer False\<rparr>) sample_config []
     (NewStatsManager 0 sample_config True) [])) = Some (Some (TCPForwardFailed TcpForwardRejected))"
  by (simp_all add: ConnectAndTunnel_def establish_def open_connection_def auth_methods_def base_config_def getEnv_def
      dial_defs and_then_def negotiate_compression_def declare_forwards_def setup_tcp_def setupTCPForward_def
      declareTCPForward_def sendForwardRequestWithTimeout_def loop_turn_def new_tunnel_def)

theorem tunnel_return_releases_witness:
  "\<exists>t c. ConnectAndTunnel 0 sample_answers sample_config [] (NewStatsManager 0 sample_config True) [(1, CtxDone)] = ((Some None, t), c) \<and>
     tn_client t \<noteq> Live \<and> tn_transport t \<noteq> Live \<and> GetStatus (tn_stats t) = ''offline''"
proof -
  obtain t c where r: "ConnectAndTunnel 0 sample_answers sample_config [] (NewStatsManager 0 sample_config True) [(1, CtxDone)] = ((Some None, t), c)"
    using sample_tunnel(1) by (metis prod.collapse)
  with tunnel_return_releases [OF r] show ?thesis by blast
qed

text \<open>
  C5. No false online: the callback that reports the tunnel as established is called only when
  the server accepted every declaration that the protocol needs: for TCP (every protocol but udp)
  the channel type was registered and tcpip-forward was answered with yes, for UDP (udp and both)
  udp-forward was answered with yes and gave a well formed session. A tunnel that goes on was
  reported, and a connection that ends in a rejected declaration never was.
\<close>

theorem online_means_declared:
  assumes "ConnectAndTunnel now w config cache sm evs = ((r, t), cache')"
  shows "(tn_online t \<longrightarrow>
      (Proto config = ''udp'' \<or> tn_tcp t \<and> an_registered w \<and> an_tcpip w = ReqAnswer True) \<and>
      (Proto config \<in> {''udp'', ''both''} \<longrightarrow>
         (\<exists>sess resp. an_udp w = Some (True, resp) \<and> tn_udp t = Some sess \<and> session_ok sess))) \<and>
    (r = None \<longrightarrow> tn_online t) \<and> (\<forall>x. r = Some (Some x) \<and> forward_rejected x \<longrightarrow> \<not> tn_online t)"
  using ConnectAndTunnel_result [OF assms] by (simp add: declared_def)

theorem online_means_declared_witness:
  "\<exists>t c. ConnectAndTunnel 0 (sample_answers\<lparr>an_tcpip := ReqAnswer False\<rparr>) sample_config []
     (NewStatsManager 0 sample_config True) [] = ((Some (Some (TCPForwardFailed TcpForwardRejected)), t), c) \<and> \<not> tn_online t"
proof -
  let ?w = "sample_answers\<lparr>an_tcpip := ReqAnswer False\<rparr>"
  obtain t c where r: "ConnectAndTunnel 0 ?w sample_config [] (NewStatsManager 0 sample_config True) [] =
      ((Some (Some (TCPForwardFailed TcpForwardRejected)), t), c)"
    using sample_tunnel(2) by (metis prod.collapse)
  with online_means_declared [OF r] show ?thesis by (auto simp: forward_rejected_def)
qed

text \<open>
  C28. The self check closes the connection on two failures in a row and only then: as long as
  the keepalives succeed (one of three tries), the loop returns exactly when two successive
  pings fail before the server has once answered that it does not know the request; single
  failures are forgotten after the next success.
\<close>

theorem ping_two_strikes:
  assumes "list_all steady evs"
  shows "fst (main_loop config evs (\<lparr>pg_disabled = False, pg_failures = 0\<rparr>, t)) \<noteq> None \<longleftrightarrow>
    two_strikes (ping_verdicts config evs)"
  using main_loop_pings [OF assms, of "\<lparr>pg_disabled = False, pg_failures = 0\<rparr>"] by simp

theorem ping_two_strikes_witness:
  "fst (main_loop sample_config [(0, Tick (\<lambda>_. ReqAnswer False) (Some []) PingNoAnswer),
      (60, Tick (\<lambda>n. if n = 2 then ReqAnswer True else ReqTimeout) None PingError)]
     (\<lparr>pg_disabled = False, pg_failures = 0\<rparr>, new_tunnel (NewStatsManager 0 sample_config True))) \<noteq> None"
proof -
  let ?evs = "[(0, Tick (\<lambda>_. ReqAnswer False) (Some []) PingNoAnswer),
      (60, Tick (\<lambda>n. if n = 2 then ReqAnswer True else ReqTimeout) None PingError)]"
  have s: "list_all steady ?evs" by (simp add: steady_def heartbeat_iff sendKeepaliveWithTimeout_def)
  have "two_strikes (ping_verdicts sample_config ?evs)"
    by (simp add: two_strikes_Cons sendUDPPing_def strikes_def)
  then show ?thesis using ping_two_strikes [OF s] by simp
qed

text \<open>
  C29. The origin of a forwarded connection: with 64 bit integers the parsing of the channel's
  extra data never panics, whatever the server sends, and reads the origin of well formed data;
  with 32 bit integers (the released windows/386 build) there is extra data whose address length
  turns negative, for which the slice expression panics and the process dies.
\<close>

theorem extra_data_origin:
  "parse_extra_data 64 extra \<noteq> None \<and>
   (length host < 2 ^ 32 \<and> length origin < 2 ^ 32 \<longrightarrow>
      parse_extra_data 64 (forwarded_tcpip host port origin originPort) = Some (origin, itoa (uint originPort))) \<and>
   forward_channel 32 True ([0xFF, 0xFF, 0xFF, 0x9C] @ replicate 8 0) True = (Panicked, False)"
proof -
  let ?e = "[0xFF, 0xFF, 0xFF, 0x9C] @ replicate 8 0 :: bytes"
  have "uint32_at 32 ?e 0 = Some 0xFFFFFF9C"
    by (simp add: uint32_at_def go_slice_def go_uint32_def to_int_def slice_of_def un_be_def)
  moreover have "to_int 32 (to_int 32 (4 + to_int 32 (uint (0xFFFFFF9C :: 32 word))) + 4) = - 92"
    by (simp add: to_int_def)
  moreover have "parse_origin 32 ?e (- 92) = None"
    by (simp add: parse_origin_def uint32_at_def go_slice_def to_int_def)
  ultimately have "parse_extra_data 32 ?e = None" by (simp add: parse_extra_data_def Let_def)
  with parse_extra_data_total parse_forwarded show ?thesis by (simp add: forward_channel_def)
qed

theorem extra_data_origin_witness:
  "parse_extra_data 64 (forwarded_tcpip [1] 80 [2, 3] 9) = Some ([2, 3], itoa 9)"
  using extra_data_origin [of "[]" "[1]" "[2, 3]" 80 9] by simp

end
