(* ===== verification/Worker.thy ===== *)
theory Worker
  imports Tunnel
begin

text \<open>
  A worker of the daemon (\<open>daemon/worker.go\<close> and the parts of \<open>daemon/daemon.go\<close> that concern one
  worker): its record, the key it is filed under, the checks of its configuration, the target
  syntax of the commands, the lifetime check, and the loop that connects again and again. The
  loop is composed with \<open>ConnectAndTunnel\<close>, whose outside answers are arguments.
\<close>

section \<open>The record of a worker\<close>

text \<open>
  \<open>wi_cancel\<close>: whether there is a \<open>CancelFunc\<close>, and if so whether it was called; \<open>wi_done\<close> the
  same for \<open>DoneChan\<close> and its closing. The zero \<open>time.Time\<close> is \<open>None\<close>.
\<close>

record WorkerInfo =
  wi_ID :: string
  wi_cancel :: "bool option"
  wi_done :: "bool option"
  wi_Username :: string
  wi_ServerHost :: string
  wi_ServerPort :: int
  wi_LocalHost :: string
  wi_LocalPort :: int
  wi_RemotePort :: int
  wi_Password :: string
  wi_SSHKeyPath :: string
  wi_StartTime :: instant
  wi_Status :: string
  wi_Proto :: string
  wi_LastRegisterTime :: gotime
  wi_StatusChangeTime :: gotime
  wi_StatsManager :: "StatsManager option"
  wi_LastConnectTime :: gotime
  wi_ReconnectNeeded :: bool
  wi_Config :: "Config option"
  wi_OfflineCount :: nat
  wi_MaxLifetime :: int
  wi_LastBytesCheck :: "64 word"
  wi_LastCheckTime :: gotime
  wi_BindRejectStreak :: nat

definition set_worker_status :: "instant \<Rightarrow> string \<Rightarrow> WorkerInfo \<Rightarrow> WorkerInfo" where
  "set_worker_status now status w = w\<lparr>wi_Status := status, wi_StatusChangeTime := Some now\<rparr>"

definition markWorkerEstablished :: "instant \<Rightarrow> WorkerInfo \<Rightarrow> WorkerInfo" where
  "markWorkerEstablished now w = set_worker_status now ''online'' w"

definition workerHeartbeatTick :: "instant \<Rightarrow> WorkerInfo \<Rightarrow> WorkerInfo" where
  "workerHeartbeatTick now w = w\<lparr>wi_LastRegisterTime := Some now\<rparr>"


section \<open>Keys and targets\<close>

definition generateProcessKey :: "string \<Rightarrow> string \<Rightarrow> int \<Rightarrow> int \<Rightarrow> string" where
  "generateProcessKey username serverHost serverPort remotePort =
     username @ ''@'' @ serverHost @ '':'' @ itoa serverPort @ '':'' @ itoa remotePort"

datatype target_mode = Single | All

record TargetSpec =
  ts_Username :: string
  ts_Server :: string
  ts_ServerPort :: int
  ts_RemotePort :: int
  ts_Mode :: target_mode

definition port_or_0 :: "string \<Rightarrow> int" where
  "port_or_0 s = (case Atoi s of (v, None) \<Rightarrow> v | (_, Some _) \<Rightarrow> 0)"

definition parseTargetSpec :: "string \<Rightarrow> TargetSpec" where
  "parseTargetSpec target =
     (let spec = \<lparr>ts_Username = [], ts_Server = [], ts_ServerPort = 0, ts_RemotePort = 0, ts_Mode = Single\<rparr>
      in if CHR ''@'' \<in> set target
         then let parts = split_n 2 (CHR ''@'') target;
                  spec = spec\<lparr>ts_Username := parts ! 0\<rparr>; server = parts ! 1
              in if server = ''all'' then spec\<lparr>ts_Mode := All\<rparr>
                 else if CHR '':'' \<in> set server
                 then let hostPort = split_n 3 (CHR '':'') server;
                          spec = spec\<lparr>ts_Server := hostPort ! 0\<rparr>;
                          spec = (if length hostPort > 1 then spec\<lparr>ts_ServerPort := port_or_0 (hostPort ! 1)\<rparr> else spec)
                      in if length hostPort > 2 then spec\<lparr>ts_RemotePort := port_or_0 (hostPort ! 2)\<rparr> else spec
                 else spec\<lparr>ts_Server := server\<rparr>
         else spec\<lparr>ts_Username := target\<rparr>)"

text \<open>The conditions under which a worker is meant by a target, for one worker and for all.\<close>

definition matches_all :: "string \<Rightarrow> string \<Rightarrow> int \<Rightarrow> WorkerInfo \<Rightarrow> bool" where
  "matches_all username server serverPort p \<longleftrightarrow>
     wi_Username p = username \<and>
     (server = [] \<or> wi_ServerHost p = server \<and> (serverPort = 0 \<or> wi_ServerPort p = serverPort))"

definition matches_spec :: "TargetSpec \<Rightarrow> WorkerInfo \<Rightarrow> bool" where
  "matches_spec spec p \<longleftrightarrow>
     matches_all (ts_Username spec) (ts_Server spec) (ts_ServerPort spec) p \<and>
     (ts_RemotePort spec = 0 \<or> wi_RemotePort p = ts_RemotePort spec)"


section \<open>Addresses\<close>

text \<open>
  \<open>net.ParseIP\<close>, as far as the checks look at its result: no address, one whose \<open>To4\<close> is not nil
  (an IPv4 address, also in its IPv6 form), another IPv6 address.
\<close>

datatype ip_class = NotIP | IP4 | IP6

definition octet :: "string \<Rightarrow> bool" where
  "octet s \<longleftrightarrow> s \<noteq> [] \<and> list_all is_digit s \<and> digits_value s \<le> 255 \<and> (length s = 1 \<or> hd s \<noteq> CHR ''0'')"

definition is_ipv4 :: "string \<Rightarrow> bool" where
  "is_ipv4 s \<longleftrightarrow> length (split_on (CHR ''.'') s) = 4 \<and> list_all octet (split_on (CHR ''.'') s)"

definition hex_value :: "char \<Rightarrow> nat option" where
  "hex_value c =
     (let n = of_char c :: nat
      in if 48 \<le> n \<and> n \<le> 57 then Some (n - 48)
         else if 97 \<le> n \<and> n \<le> 102 then Some (n - 87)
         else if 65 \<le> n \<and> n \<le> 70 then Some (n - 55) else None)"

definition hex_prefix :: "string \<Rightarrow> string" where
  "hex_prefix s = takeWhile (\<lambda>c. hex_value c \<noteq> None) s"

definition hex_number :: "string \<Rightarrow> nat" where
  "hex_number s = foldl (\<lambda>n c. 16 * n + the (hex_value c)) 0 s"

text \<open>
  The groups of an IPv6 address after an optional leading \<open>::\<close>: \<open>ip\<close> are the bytes so far,
  \<open>el\<close> the position of the ellipsis. The result: the bytes and the position, or nothing.
\<close>

function ipv6_groups :: "nat list \<Rightarrow> nat option \<Rightarrow> string \<Rightarrow> (nat list \<times> nat option) option" where
  "ipv6_groups ip el s =
     (if length ip \<ge> 16 then (if s = [] then Some (ip, el) else None)
      else let h = hex_prefix s; r = drop (length h) s
           in if h = [] \<or> length h > 4 then None
              else if r \<noteq> [] \<and> hd r = CHR ''.''
              then if el = None \<and> length ip \<noteq> 12 \<or> length ip + 4 > 16 \<or> \<not> is_ipv4 s then None
                   else Some (ip @ map digits_value (split_on (CHR ''.'') s), el)
              else let ip = ip @ [hex_number h div 256, hex_number h mod 256]
                   in if r = [] then Some (ip, el)
                      else if hd r \<noteq> CHR '':'' \<or> length r = 1 then None
                      else let r = tl r
                           in if hd r = CHR '':''
                              then if el \<noteq> None then None
                                   else if tl r = [] then Some (ip, Some (length ip))
                                   else ipv6_groups ip (Some (length ip)) (tl r)
                              else ipv6_groups ip el r)"
  by pat_completeness auto
termination by (relation "measure (\<lambda>(ip, el, s). 18 - length ip)") auto

declare ipv6_groups.simps [simp del]

definition ipv6_bytes :: "string \<Rightarrow> nat list option" where
  "ipv6_bytes s =
     (let lead = take 2 s = ''::''; rest = (if lead then drop 2 s else s)
      in if lead \<and> rest = [] then Some (replicate 16 0)
         else case ipv6_groups [] (if lead then Some 0 else None) rest of
                None \<Rightarrow> None
              | Some (ip, el) \<Rightarrow>
                  if length ip < 16
                  then case el of None \<Rightarrow> None
                       | Some e \<Rightarrow> Some (take e ip @ replicate (16 - length ip) 0 @ drop e ip)
                  else if el \<noteq> None then None else Some ip)"

definition ParseIP :: "string \<Rightarrow> ip_class" where
  "ParseIP s =
     (case filter (\<lambda>c. c \<in> {CHR ''.'', CHR '':'', CHR ''%''}) s of
        [] \<Rightarrow> NotIP
      | c # cs \<Rightarrow>
          if c = CHR ''.'' then (if is_ipv4 s then IP4 else NotIP)
          else if c = CHR '':'' \<and> CHR ''%'' \<notin> set cs
          then case ipv6_bytes s of
                 None \<Rightarrow> NotIP
               | Some ip \<Rightarrow> if take 12 ip = replicate 10 0 @ [255, 255] then IP4 else IP6
          else NotIP)"


section \<open>Checking a configuration\<close>

datatype config_error =
    EmptyServerHost | ServerHostIPv6 | BadServerHost | BadServerPort | BadLocalPort | BadRemotePort
  | EmptyLocalHost | BadLocalHost

definition port_ok :: "int \<Rightarrow> bool" where
  "port_ok p \<longleftrightarrow> \<not> (p \<le> 0 \<or> p > 65535)"

definition validateConfig :: "Config \<Rightarrow> config_error option" where
  "validateConfig config =
     (if ServerHost config = [] then Some EmptyServerHost
      else if ParseIP (ServerHost config) = IP6 then Some ServerHostIPv6
      else if ParseIP (ServerHost config) = NotIP \<and> \<not> IsValidDomain (ServerHost config) then Some BadServerHost
      else if \<not> port_ok (ServerPort config) then Some BadServerPort
      else if \<not> port_ok (LocalPort config) then Some BadLocalPort
      else if \<not> port_ok (RemotePort config) then Some BadRemotePort
      else if LocalHost config = [] then Some EmptyLocalHost
      else if LocalHost config \<noteq> ''localhost'' \<and> ParseIP (LocalHost config) \<noteq> IP4 then Some BadLocalHost
      else None)"


section \<open>Start parameters\<close>

type_synonym params = "string \<Rightarrow> string"

definition parseInt :: "string \<Rightarrow> int" where
  "parseInt s = fst (Atoi s)"

definition configFromStartParams :: "params \<Rightarrow> Config" where
  "configFromStartParams params =
     (let reconnectDelay = parseInt (params ''reconnect_delay'');
          reconnectDelay = (if reconnectDelay \<le> 0 then 30 else reconnectDelay)
      in \<lparr>ServerHost = params ''server_host'', ServerPort = parseInt (params ''server_port''),
          Username = params ''username'', Password = params ''password'', SSHKeyPath = params ''ssh_key'',
          LocalHost = params ''local_host'', LocalPort = parseInt (params ''local_port''),
          RemotePort = parseInt (params ''remote_port''), ReconnectDelay = reconnectDelay,
          MaxOfflineCount = 0, MaxLifetime = parseInt (params ''max_lifetime''),
          Transport = NormalizeTransport (params ''transport''), Proto = NormalizeProto (params ''proto''),
          Compress = False, UDPSocketBuffer = 0, UDPMaxPacketSize = 0, UDPFlowIdleTimeout = 0, Version = []\<rparr>)"


section \<open>The lifetime check\<close>

text \<open>\<open>time.Duration(n) * time.Second\<close> wraps to 64 bits.\<close>

definition seconds :: "int \<Rightarrow> duration" where
  "seconds n = to_int 64 (n * second)"

definition CheckWorkerLifetime :: "instant \<Rightarrow> string \<Rightarrow> WorkerInfo \<Rightarrow> (bool \<times> string) \<times> WorkerInfo" where
  "CheckWorkerLifetime now key w =
     (if wi_MaxLifetime w \<le> 0 \<or> wi_Status w \<noteq> ''online'' \<or> wi_Config w = None then ((False, []), w)
      else if now - wi_StartTime w < seconds (wi_MaxLifetime w) then ((False, []), w)
      else let currentBytes = (case wi_StatsManager w of None \<Rightarrow> 0 | Some sm \<Rightarrow> GetBytesTransferred sm)
           in if wi_LastCheckTime w = None \<or> wi_LastBytesCheck w = currentBytes
              then if wi_LastCheckTime w \<noteq> None \<and> since now (wi_LastCheckTime w) \<ge> 30 * second then ((True, key), w)
                   else if wi_LastCheckTime w = None
                   then ((False, []), w\<lparr>wi_LastCheckTime := Some now, wi_LastBytesCheck := currentBytes\<rparr>)
                   else ((False, []), w)
              else ((False, []), w\<lparr>wi_LastCheckTime := Some now, wi_LastBytesCheck := currentBytes\<rparr>))"


section \<open>The reconnect loop\<close>

text \<open>\<open>jitter\<close> is the random part, at least 0 and below one second.\<close>

definition bindRejectBackoff :: "nat \<Rightarrow> duration \<Rightarrow> duration" where
  "bindRejectBackoff streak jitter =
     (let base = (if streak \<le> 1 then 3 * second else if streak = 2 then 5 * second
                  else if streak = 3 then 10 * second else 30 * second)
      in base + jitter)"

text \<open>
  What \<open>runWorker\<close> does with the result of \<open>ConnectAndTunnel\<close>: \<open>None\<close> when the context is done and
  it returns, else the delay before the next attempt.
\<close>

definition after_tunnel ::
  "instant \<Rightarrow> bool \<Rightarrow> duration \<Rightarrow> Config \<Rightarrow> tunnel_error option \<Rightarrow> WorkerInfo \<Rightarrow> duration option \<times> WorkerInfo" where
  "after_tunnel now ctx_done jitter config err w =
     (let w = w\<lparr>wi_LastConnectTime := Some now\<rparr>; w = set_worker_status now ''offline'' w
      in if ctx_done then (None, w)
         else case err of
                Some e \<Rightarrow>
                  if forward_rejected e
                  then let w = w\<lparr>wi_BindRejectStreak := wi_BindRejectStreak w + 1\<rparr>
                       in (Some (bindRejectBackoff (wi_BindRejectStreak w) jitter), w)
                  else (Some (seconds (ReconnectDelay config)), w)
              | None \<Rightarrow> (Some (seconds (ReconnectDelay config)), w\<lparr>wi_BindRejectStreak := 0\<rparr>))"

definition worker_begin :: "instant \<Rightarrow> Config \<Rightarrow> WorkerInfo \<Rightarrow> WorkerInfo" where
  "worker_begin now config w =
     (set_worker_status now ''offline'' w)\<lparr>wi_LastRegisterTime := Some now, wi_LastConnectTime := Some now,
        wi_StatsManager := Some (NewStatsManager now config True)\<rparr>"

text \<open>
  One round of the loop: when it starts and ends, what the outside does, when the ticker of the
  round's heartbeat goroutine fires, whether the context is done at the end, the jitter.
\<close>

record round =
  rd_start :: instant
  rd_answers :: answers
  rd_events :: "(instant \<times> tunnel_event) list"
  rd_ticks :: "instant list"
  rd_end :: instant
  rd_done :: bool
  rd_jitter :: duration

text \<open>
  The ticker is made at the start of the round, for 30 seconds, and its goroutine ends when
  \<open>ConnectAndTunnel\<close> returns.
\<close>

definition ticks_ok :: "round \<Rightarrow> bool" where
  "ticks_ok r \<longleftrightarrow> list_all (\<lambda>t. rd_start r + 30 * second \<le> t \<and> t \<le> rd_end r) (rd_ticks r)"

record attempt =
  at_result :: "tunnel_error option"
  at_online :: bool
  at_delay :: duration

text \<open>
  The rounds of a worker that come to an end, with the log of the attempts after which it waits
  for the next one. The statistics are those the worker shares with its tunnels; the heartbeat
  goroutine writes nothing but the time \<open>LastRegisterTime\<close>.
\<close>

definition worker_round ::
  "Config \<Rightarrow> round \<Rightarrow> transportCache \<times> WorkerInfo \<Rightarrow> attempt option \<times> transportCache \<times> WorkerInfo" where
  "worker_round config r = (\<lambda>(cache, w).
     case wi_StatsManager w of
       None \<Rightarrow> (None, cache, w)
     | Some sm \<Rightarrow>
         (case ConnectAndTunnel (rd_start r) (rd_answers r) config cache sm (rd_events r) of
            ((res, t), cache) \<Rightarrow>
              (let w = (if tn_online t then markWorkerEstablished (rd_start r) w else w);
                   w = fold workerHeartbeatTick (rd_ticks r) (w\<lparr>wi_StatsManager := Some (tn_stats t)\<rparr>)
               in case res of
                    None \<Rightarrow> (None, cache, w)
                  | Some err \<Rightarrow>
                      (case after_tunnel (rd_end r) (rd_done r) (rd_jitter r) config err w of
                         (None, w) \<Rightarrow> (None, cache, w)
                       | (Some d, w) \<Rightarrow> (Some \<lparr>at_result = err, at_online = tn_online t, at_delay = d\<rparr>, cache, w)))))"

fun worker_rounds ::
  "Config \<Rightarrow> round list \<Rightarrow> transportCache \<times> WorkerInfo \<Rightarrow> attempt list \<times> transportCache \<times> WorkerInfo" where
  "worker_rounds config [] s = ([], s)"
| "worker_rounds config (r # rs) s =
     (case worker_round config r s of
        (None, s) \<Rightarrow> ([], s)
      | (Some a, s) \<Rightarrow> (case worker_rounds config rs s of (as, s) \<Rightarrow> (a # as, s)))"

definition rejected_attempt :: "attempt \<Rightarrow> bool" where
  "rejected_attempt a \<longleftrightarrow> (\<exists>e. at_result a = Some e \<and> forward_rejected e)"

text \<open>
  The waits that are expected when \<open>n\<close> attempts were rejected before: a rejected attempt waits 3,
  5, 10 and then always 30 seconds, and less than a second more; any other the configured time.
\<close>

definition reject_wait :: "nat \<Rightarrow> duration" where
  "reject_wait n = [3, 5, 10] ! (n - 1) * second"

fun expected_waits :: "Config \<Rightarrow> nat \<Rightarrow> attempt list \<Rightarrow> bool" where
  "expected_waits config n [] = True"
| "expected_waits config n (a # as) =
     (if rejected_attempt a
      then (let base = (if n < 3 then reject_wait (n + 1) else 30 * second)
            in base \<le> at_delay a \<and> at_delay a < base + second) \<and> expected_waits config (n + 1) as
      else at_delay a = seconds (ReconnectDelay config) \<and> expected_waits config n as)"

definition jitter_ok :: "round \<Rightarrow> bool" where
  "jitter_ok r \<longleftrightarrow> 0 \<le> rd_jitter r \<and> rd_jitter r < second"

lemma bindRejectBackoff_wait:
  "bindRejectBackoff (n + 1) j = (if n < 3 then reject_wait (n + 1) else 30 * second) + j"
proof -
  have "n = 0 \<or> n = 1 \<or> n = 2" if "n < 3" using that by auto
  then show ?thesis by (cases "n < 3") (auto simp: bindRejectBackoff_def reject_wait_def Let_def)
qed

definition quiet_round :: "round \<Rightarrow> bool" where
  "quiet_round r \<longleftrightarrow> \<not> rd_done r \<and> CtxDone \<notin> snd ` set (rd_events r)"

text \<open>The heartbeat goroutine touches nothing but \<open>LastRegisterTime\<close>.\<close>

lemma fold_ticks:
  "fold workerHeartbeatTick ts w = (if ts = [] then w else w\<lparr>wi_LastRegisterTime := Some (last ts)\<rparr>)"
  by (induction ts arbitrary: w) (auto simp: workerHeartbeatTick_def)

lemma worker_round_streak:
  assumes "worker_round config r (cache, w) = (a, cache', w')" "quiet_round r"
  shows "wi_BindRejectStreak w' = wi_BindRejectStreak w + (case a of Some a \<Rightarrow> if rejected_attempt a then 1 else 0 | None \<Rightarrow> 0) \<and>
    (\<forall>x. a = Some x \<longrightarrow>
       (if rejected_attempt x then at_delay x = bindRejectBackoff (wi_BindRejectStreak w + 1) (rd_jitter r) \<and> \<not> at_online x
        else at_delay x = seconds (ReconnectDelay config)))"
proof (cases "wi_StatsManager w")
  case None
  with assms(1) show ?thesis by (auto simp: worker_round_def)
next
  case (Some sm)
  obtain res t c where c: "ConnectAndTunnel (rd_start r) (rd_answers r) config cache sm (rd_events r) = ((res, t), c)"
    by (metis surj_pair)
  note cr = ConnectAndTunnel_result [OF c]
  have nz: "res \<noteq> Some None" using cr assms(2) by (auto simp: quiet_round_def)
  show ?thesis
    using assms Some c nz cr
    by (auto simp: worker_round_def after_tunnel_def rejected_attempt_def set_worker_status_def markWorkerEstablished_def
        quiet_round_def Let_def fold_ticks split: option.splits if_splits)
qed

lemma worker_rounds_streak:
  "worker_rounds config rs (cache, w) = (as, cache', w') \<Longrightarrow> list_all quiet_round rs \<Longrightarrow> list_all jitter_ok rs \<Longrightarrow>
   wi_BindRejectStreak w' = wi_BindRejectStreak w + length (filter rejected_attempt as) \<and>
   expected_waits config (wi_BindRejectStreak w) as"
proof (induction rs arbitrary: cache w as)
  case Nil
  then show ?case by simp
next
  case (Cons r rs)
  obtain a c1 w1 where r: "worker_round config r (cache, w) = (a, c1, w1)" by (metis prod_cases3)
  note s = worker_round_streak [OF r]
  show ?case
  proof (cases a)
    case None
    with Cons.prems r s show ?thesis by auto
  next
    case (Some x)
    obtain as1 where rs: "worker_rounds config rs (c1, w1) = (as1, cache', w')" and as: "as = x # as1"
      using Cons.prems(1) r Some by (auto split: prod.splits)
    have j: "jitter_ok r" using Cons.prems(3) by simp
    have ih: "wi_BindRejectStreak w' = wi_BindRejectStreak w1 + length (filter rejected_attempt as1)"
        "expected_waits config (wi_BindRejectStreak w1) as1"
      using Cons.IH [OF rs] Cons.prems(2,3) by simp_all
    have sx: "wi_BindRejectStreak w1 = wi_BindRejectStreak w + (if rejected_attempt x then 1 else 0)"
      and dx: "if rejected_attempt x then at_delay x = bindRejectBackoff (wi_BindRejectStreak w + 1) (rd_jitter r)
         else at_delay x = seconds (ReconnectDelay config)"
      using s Cons.prems(2) Some by (auto split: if_splits)
    show ?thesis
    proof (cases "rejected_attempt x")
      case True
      with dx have "at_delay x = (if wi_BindRejectStreak w < 3 then reject_wait (wi_BindRejectStreak w + 1) else 30 * second) + rd_jitter r"
        by (simp only: bindRejectBackoff_wait if_True)
      with True j ih sx as show ?thesis by (simp add: jitter_ok_def Let_def)
    next
      case False
      with dx ih sx as show ?thesis by simp
    qed
  qed
qed


section \<open>Keys of checked configurations\<close>

lemma hex_prefix_chars: "c \<in> set (hex_prefix s) \<Longrightarrow> hex_value c \<noteq> None"
  by (auto simp: hex_prefix_def dest: set_takeWhileD)

lemma at_not_hex: "hex_value (CHR ''@'') = None"
  by (simp add: hex_value_def)

lemma ipv4_no_at: "is_ipv4 s \<Longrightarrow> CHR ''@'' \<notin> set s"
proof
  assume ip: "is_ipv4 s" and at: "CHR ''@'' \<in> set s"
  have "\<exists>w\<in>set (split_on (CHR ''.'') s). CHR ''@'' \<in> set w"
    using at by (induction s) (auto split: list.splits)
  then obtain w where "w \<in> set (split_on (CHR ''.'') s)" "CHR ''@'' \<in> set w" by blast
  with ip have "is_digit (CHR ''@'')" by (simp add: is_ipv4_def octet_def list_all_iff)
  then show False by (simp add: is_digit_def)
qed

lemma hex_split: "s = hex_prefix s @ drop (length (hex_prefix s)) s"
  unfolding hex_prefix_def by (metis takeWhile_dropWhile_id dropWhile_eq_drop)

lemma hex_no_at:
  assumes "CHR ''@'' \<notin> set (drop (length (hex_prefix s)) s)"
  shows "CHR ''@'' \<notin> set s"
proof
  assume "CHR ''@'' \<in> set s"
  then have "CHR ''@'' \<in> set (hex_prefix s) \<union> set (drop (length (hex_prefix s)) s)"
    by (metis hex_split set_append)
  with assms hex_prefix_chars [of "CHR ''@''" s] at_not_hex show False by auto
qed

lemma ipv6_groups_no_at: "ipv6_groups ip el s = Some r \<Longrightarrow> CHR ''@'' \<notin> set s"
proof (induction ip el s arbitrary: r rule: ipv6_groups.induct)
  case (1 ip el s)
  show ?case
  proof (cases "length ip \<ge> 16")
    case True
    with "1.prems" show ?thesis by (simp add: ipv6_groups.simps split: if_splits)
  next
    case False
    define h where "h = hex_prefix s"
    define q where "q = drop (length h) s"
    note P = "1.prems" [unfolded ipv6_groups.simps [of ip el s] Let_def, folded h_def, folded q_def]
    show ?thesis
    proof (cases "q \<noteq> [] \<and> hd q = CHR ''.''")
      case True
      with P False have "is_ipv4 s" by (simp split: if_splits)
      then show ?thesis by (rule ipv4_no_at)
    next
      case F: False
      have "CHR ''@'' \<notin> set q"
      proof (cases q)
        case Nil
        then show ?thesis by simp
      next
        case (Cons c q1)
        with F False P have c: "c = CHR '':''" "q1 \<noteq> []" "h \<noteq> []" "\<not> length h > 4"
          by (simp split: if_splits)+
        obtain d q2 where q1: "q1 = d # q2" using c(2) by (cases q1) auto
        show ?thesis
        proof (cases "d = CHR '':''")
          case True
          show ?thesis
          proof (cases "q2 = []")
            case nonempty: False
            have rec: "el = None" "ipv6_groups (ip @ [hex_number h div 256, hex_number h mod 256]) (Some (length ip + 2)) q2 = Some r"
              using P False F Cons c q1 True nonempty by (simp split: if_splits)+
            have "CHR ''@'' \<notin> set q2"
              using "1.IH"(1) [OF False h_def q_def] rec F Cons c q1 True nonempty by simp
            with True c Cons q1 show ?thesis by simp
          qed (use True c Cons q1 in simp)
        next
          case D: False
          have rec: "ipv6_groups (ip @ [hex_number h div 256, hex_number h mod 256]) el q1 = Some r"
            using P False F Cons c q1 D by (simp split: if_splits)
          have "CHR ''@'' \<notin> set q1"
            using "1.IH"(2) [OF False h_def q_def] rec F Cons c q1 D by simp
          with c Cons show ?thesis by simp
        qed
      qed
      then show ?thesis using hex_no_at [of s] by (simp add: h_def q_def)
    qed
  qed
qed


lemma ParseIP_no_at:
  assumes "ParseIP s = IP4"
  shows "CHR ''@'' \<notin> set s"
proof -
  have "is_ipv4 s \<or> (\<exists>ip. ipv6_bytes s = Some ip)"
    using assms by (auto simp: ParseIP_def split: list.splits option.splits if_splits)
  then show ?thesis
  proof
    assume "is_ipv4 s"
    then show ?thesis by (rule ipv4_no_at)
  next
    assume "\<exists>ip. ipv6_bytes s = Some ip"
    then obtain ip where b: "ipv6_bytes s = Some ip" ..
    define lead where "lead \<longleftrightarrow> take 2 s = ''::''"
    define rest where "rest = (if lead then drop 2 s else s)"
    have r: "lead \<and> rest = [] \<or> CHR ''@'' \<notin> set rest"
    proof (rule disjCI)
      assume "\<not> CHR ''@'' \<notin> set rest"
      then have "ipv6_groups [] (if lead then Some 0 else None) rest = None"
        using ipv6_groups_no_at by (cases "ipv6_groups [] (if lead then Some 0 else None) rest") blast+
      with b [unfolded ipv6_bytes_def Let_def, folded lead_def, folded rest_def] show "lead \<and> rest = []"
        by (cases "lead \<and> rest = []") simp_all
    qed
    show ?thesis
    proof (cases lead)
      case True
      then have s: "s = ''::'' @ rest" using append_take_drop_id [of 2 s] by (simp add: lead_def rest_def)
      have "CHR ''@'' \<notin> set rest" using r by (cases "rest = []") simp_all
      then show ?thesis by (subst s) simp
    next
      case False
      with r show ?thesis by (simp add: rest_def)
    qed
  qed
qed

lemma domain_no_at:
  assumes "IsValidDomain s"
  shows "CHR ''@'' \<notin> set s"
proof
  assume at: "CHR ''@'' \<in> set s"
  have "\<exists>w\<in>set (split_on (CHR ''.'') s). CHR ''@'' \<in> set w"
    using at by (induction s) (auto split: list.splits)
  then obtain w where "w \<in> set (split_on (CHR ''.'') s)" "CHR ''@'' \<in> set w" by blast
  with assms have "domain_char (CHR ''@'')"
    by (auto simp: IsValidDomain_def list_all_iff Let_def split: if_splits)
  then show False by (simp add: domain_char_def)
qed

lemma validated_host: "validateConfig c = None \<Longrightarrow> CHR ''@'' \<notin> set (ServerHost c)"
  using ParseIP_no_at [of "ServerHost c"] domain_no_at [of "ServerHost c"]
  by (cases "ParseIP (ServerHost c)") (auto simp: validateConfig_def split: if_splits)

lemma last_separator:
  assumes "xs @ c # ys = xs' @ c # ys'" "c \<notin> set ys" "c \<notin> set ys'"
  shows "xs = xs' \<and> ys = ys'"
proof -
  have "takeWhile (\<lambda>x. x \<noteq> c) (rev (zs @ c # ws)) = rev ws" if "c \<notin> set ws" for zs ws
    using that by (auto simp: takeWhile_append)
  from this [OF assms(2), of xs] this [OF assms(3), of xs'] assms(1) have "ys = ys'" by (metis rev_rev_ident)
  with assms(1) show ?thesis by simp
qed

lemma generateProcessKey_inj:
  assumes "generateProcessKey u h p r = generateProcessKey u' h' p' r'" "CHR ''@'' \<notin> set h" "CHR ''@'' \<notin> set h'"
  shows "u = u' \<and> h = h' \<and> p = p' \<and> r = r'"
proof -
  have "(u @ ''@'' @ h @ '':'' @ itoa p) @ CHR '':'' # itoa r = (u' @ ''@'' @ h' @ '':'' @ itoa p') @ CHR '':'' # itoa r'"
    using assms(1) by (simp add: generateProcessKey_def)
  from last_separator [OF this] have 1: "(u @ ''@'' @ h) @ CHR '':'' # itoa p = (u' @ ''@'' @ h') @ CHR '':'' # itoa p'"
    and r: "itoa r = itoa r'" by simp_all
  from last_separator [OF 1] have 2: "u @ CHR ''@'' # h = u' @ CHR ''@'' # h'" and p: "itoa p = itoa p'" by simp_all
  from last_separator [OF 2 assms(2,3)] r p show ?thesis by (auto dest: itoa_inj)
qed

lemma parse_key:
  assumes "CHR ''@'' \<notin> set u" "CHR '':'' \<notin> set h"
    and "min_int \<le> p" "p \<le> max_int" "min_int \<le> r" "r \<le> max_int"
  shows "parseTargetSpec (generateProcessKey u h p r) =
    \<lparr>ts_Username = u, ts_Server = h, ts_ServerPort = p, ts_RemotePort = r, ts_Mode = Single\<rparr>"
proof -
  let ?srv = "h @ CHR '':'' # itoa p @ CHR '':'' # itoa r"
  have k: "generateProcessKey u h p r = u @ CHR ''@'' # ?srv" by (simp add: generateProcessKey_def)
  have s1: "split_n 2 (CHR ''@'') (u @ CHR ''@'' # ?srv) = [u, ?srv]"
    using split_n_append [OF assms(1), of 0 ?srv] by (simp add: numeral_2_eq_2)
  have s2: "split_n 3 (CHR '':'') ?srv = [h, itoa p, itoa r]"
    using split_n_append [OF assms(2), of 1 "itoa p @ CHR '':'' # itoa r"]
      split_n_append [of "CHR '':''" "itoa p" 0 "itoa r"] by (simp add: numeral_3_eq_3)
  have n: "?srv \<noteq> ''all''"
  proof
    assume "?srv = ''all''"
    then have "CHR '':'' \<in> set ''all''" by (metis in_set_conv_decomp)
    then show False by simp
  qed
  show ?thesis
    using n assms(3-6) unfolding k parseTargetSpec_def Let_def s1 nth_Cons_0 nth_Cons_Suc One_nat_def s2
    by (simp add: s1 s2 port_or_0_def Atoi_itoa)
qed


section \<open>The statistics of a connection\<close>

lemma bytes_record [simp]:
  "GetBytesTransferred (RecordConnection now sm) = GetBytesTransferred sm"
  "GetBytesTransferred (RecordFailure now sm) = GetBytesTransferred sm"
  "GetBytesTransferred (RecordDisconnection now sm) = GetBytesTransferred sm"
  by (simp_all add: GetBytesTransferred_def record_defs)

definition counted :: "tunnel \<Rightarrow> 64 word" where
  "counted t = GetBytesTransferred (tn_stats t)"

text \<open>
  What \<open>ConnectAndTunnel\<close> leaves alone: an observation of the tunnel that no single operation
  changes, for a given configuration, is at the end what it was for the new tunnel.
\<close>

locale tunnel_observable =
  fixes q :: "tunnel \<Rightarrow> 'q" and config :: Config
  assumes close: "q (close_client t) = q t" "q (close_transport t) = q t"
    and recorded: "q (record_failure now t) = q t" "q (record_disconnection now t) = q t"
    and torn: "q (tear_down now t) = q t" "q (tear_down_setup now t) = q t"
    and fields: "q (t\<lparr>tn_tcp := b\<rparr>) = q t" "q (t\<lparr>tn_udp := u\<rparr>) = q t" "q (t\<lparr>tn_online := b\<rparr>) = q t"
    and plane: "q (datagram_capability w t) = q t" "q (start_data_plane w t) = q t"
    and negotiate: "q (snd (negotiate_compression now w config t)) = q t"
    and opened: "q (snd (fst (open_connection now w config cache (new_tunnel sm)))) = q (new_tunnel sm)"
begin

lemmas kept [simp] = close recorded torn fields plane

lemma and_then_kept:
  assumes "and_then r f = (e, t)" "\<And>t0 e t. f t0 = (e, t) \<Longrightarrow> q t = q t0"
  shows "q t = q (snd r)"
  using assms(1) by (cases rule: and_then_cases) (auto dest: assms(2))

lemma setup_tcp_kept: "setup_tcp now w t = (e, t') \<Longrightarrow> q t' = q t"
  by (auto simp: setup_tcp_def setupTCPForward_def declareTCPForward_def split: prod.splits option.splits if_splits sum.splits)

lemma setup_udp_kept: "setup_udp now w config t = (e, t') \<Longrightarrow> q t' = q t"
  by (cases "fst (setupUDPForward (an_udp w) (an_udp_opens w) (UDPMaxPacketSize config) (tn_datagram t))")
    (auto simp: setup_udp_def)

lemma declare_kept: "declare_forwards now w config t = (e, t') \<Longrightarrow> q t' = q t"
  using and_then_kept [of "setup_tcp now w t" "setup_udp now w config" e t', OF _ setup_udp_kept]
    setup_udp_kept [of now w t e t'] setup_tcp_kept [of now w t]
  by (cases "setup_tcp now w t") (auto simp: declare_forwards_def split: if_splits)

lemma establish_kept:
  assumes "establish now w config cache sm = ((e, t), cache')"
  shows "q t = q (new_tunnel sm)"
proof -
  let ?decl = "\<lambda>t. declare_forwards now w config (datagram_capability w (start_data_plane w t))"
  obtain r c where o: "open_connection now w config cache (new_tunnel sm) = (r, c)" by fastforce
  let ?n = "and_then r (negotiate_compression now w config)"
  have neg: "q t' = q t0" if "negotiate_compression now w config t0 = (e', t')" for t0 e' t'
    using negotiate [of now w t0] that by simp
  have "q (snd ?n) = q (snd r)"
    using and_then_kept [of r "negotiate_compression now w config" "fst ?n" "snd ?n"] neg by simp
  moreover have "q (snd (and_then ?n ?decl)) = q (snd ?n)"
    using and_then_kept [of ?n ?decl "fst (and_then ?n ?decl)" "snd (and_then ?n ?decl)"] declare_kept by fastforce
  moreover have "q t = q (snd (and_then ?n ?decl))"
    using assms o and_then_kept [of "and_then ?n ?decl" "\<lambda>t. (None, t\<lparr>tn_online := True\<rparr>)" e t]
    by (auto simp: establish_def)
  ultimately show ?thesis using opened [of now w cache sm] o by simp
qed

lemma turn_kept: "loop_turn now config ev (pg, t) = (r, pg', t') \<Longrightarrow> q t' = q t"
  by (auto simp: loop_turn_def ping_turn_def Let_def split: tunnel_event.splits option.splits if_splits)

lemma loop_kept: "main_loop config evs (pg, t) = (r, pg', t') \<Longrightarrow> q t' = q t"
proof (induction evs arbitrary: pg t)
  case (Cons te evs)
  obtain r1 pg1 t1 where l: "loop_turn (fst te) config (snd te) (pg, t) = (r1, pg1, t1)" by (metis prod_cases3)
  with Cons.prems Cons.IH [of pg1 t1] turn_kept [OF l] show ?case
    by (cases te) (auto split: option.splits)
qed simp

lemma ConnectAndTunnel_kept:
  assumes "ConnectAndTunnel now w config cache sm evs = ((r, t), cache')"
  shows "q t = q (new_tunnel sm)"
proof -
  obtain e0 t0 c0 where e: "establish now w config cache sm = ((e0, t0), c0)" by (metis prod_cases3 surj_pair)
  show ?thesis
    using assms e establish_kept [OF e] loop_kept [of evs]
    by (fastforce simp: ConnectAndTunnel_def split: option.splits prod.splits)
qed

end

lemma open_connection_keeps:
  "GetBytesTransferred (tn_stats (snd (fst (open_connection now w config cache (new_tunnel sm))))) = GetBytesTransferred sm"
  "tn_compress (snd (fst (open_connection now w config cache (new_tunnel sm)))) = False"
  by (auto simp: open_connection_def new_tunnel_def tunnel_ops Let_def split: sum.splits prod.splits option.splits if_splits)

interpretation counted: tunnel_observable counted config for config
proof
  show "counted (snd (fst (open_connection now w config cache (new_tunnel sm)))) = counted (new_tunnel sm)" for now w cache sm
    using open_connection_keeps(1) by (simp add: counted_def new_tunnel_def)
qed (simp_all add: counted_def tunnel_ops datagram_capability_def start_data_plane_def negotiate_compression_def
      split: prod.split option.split)

interpretation uncompressed: tunnel_observable tn_compress "config\<lparr>Compress := False\<rparr>" for config
proof
  show "tn_compress (snd (fst (open_connection now w (config\<lparr>Compress := False\<rparr>) cache (new_tunnel sm)))) = tn_compress (new_tunnel sm)"
    for now w cache sm
    using open_connection_keeps(2) by (simp add: new_tunnel_def)
qed (simp_all add: tunnel_ops datagram_capability_def start_data_plane_def negotiate_compression_def
      split: prod.split option.split)

lemma ConnectAndTunnel_counts_nothing:
  assumes "ConnectAndTunnel now w config cache sm evs = ((r, t), cache')"
  shows "GetBytesTransferred (tn_stats t) = GetBytesTransferred sm"
  using counted.ConnectAndTunnel_kept [OF assms] by (simp add: counted_def new_tunnel_def)

lemma ConnectAndTunnel_uncompressed:
  assumes "ConnectAndTunnel now w config cache sm evs = ((r, t), cache')" "\<not> Compress config"
  shows "\<not> tn_compress t"
proof -
  have "config\<lparr>Compress := False\<rparr> = config" using assms(2) by simp
  with uncompressed.ConnectAndTunnel_kept [of now w config cache sm evs r t cache'] assms(1) show ?thesis
    by (simp add: new_tunnel_def)
qed


section \<open>Properties\<close>

text \<open>
  C38. A worker's id is an exact address: for a user name without @ and a host without colon, the
  target that a command gets by the id of a worker selects that worker's user, host and two
  ports, and, for ports other than 0, no worker that differs in one of them.
\<close>

theorem id_addresses_worker:
  assumes "CHR ''@'' \<notin> set (wi_Username p)" "CHR '':'' \<notin> set (wi_ServerHost p)" "wi_ServerHost p \<noteq> []"
    and "wi_ServerPort p \<in> {1..65535}" "wi_RemotePort p \<in> {1..65535}"
  shows "let spec = parseTargetSpec (generateProcessKey (wi_Username p) (wi_ServerHost p) (wi_ServerPort p) (wi_RemotePort p))
    in ts_Mode spec = Single \<and>
       (matches_spec spec p' \<longleftrightarrow>
          wi_Username p' = wi_Username p \<and> wi_ServerHost p' = wi_ServerHost p \<and>
          wi_ServerPort p' = wi_ServerPort p \<and> wi_RemotePort p' = wi_RemotePort p)"
proof -
  have "parseTargetSpec (generateProcessKey (wi_Username p) (wi_ServerHost p) (wi_ServerPort p) (wi_RemotePort p)) =
    \<lparr>ts_Username = wi_Username p, ts_Server = wi_ServerHost p, ts_ServerPort = wi_ServerPort p,
     ts_RemotePort = wi_RemotePort p, ts_Mode = Single\<rparr>"
    using assms by (intro parse_key) (simp_all add: min_int_def max_int_def)
  then show ?thesis using assms by (auto simp: matches_spec_def matches_all_def)
qed

abbreviation sample_worker :: WorkerInfo where
  "sample_worker \<equiv>
     \<lparr>wi_ID = ''u@h:22:80'', wi_cancel = None, wi_done = None, wi_Username = ''u'', wi_ServerHost = ''h'',
      wi_ServerPort = 22, wi_LocalHost = ''localhost'', wi_LocalPort = 80, wi_RemotePort = 80, wi_Password = [],
      wi_SSHKeyPath = [], wi_StartTime = 0, wi_Status = ''online'', wi_Proto = ''tcp'', wi_LastRegisterTime = None,
      wi_StatusChangeTime = None, wi_StatsManager = None, wi_LastConnectTime = None, wi_ReconnectNeeded = False,
      wi_Config = None, wi_OfflineCount = 0, wi_MaxLifetime = 0, wi_LastBytesCheck = 0, wi_LastCheckTime = None,
      wi_BindRejectStreak = 0\<rparr>"

theorem id_addresses_worker_witness:
  "\<not> matches_spec (parseTargetSpec (generateProcessKey ''u'' ''h'' 22 80)) (sample_worker\<lparr>wi_RemotePort := 81\<rparr>)"
  using id_addresses_worker [of sample_worker "sample_worker\<lparr>wi_RemotePort := 81\<rparr>"] by (simp add: Let_def)

text \<open>
  C39. What passes the check: the ports are between 1 and 65535, so that the port on the wire is
  the configured one, the local host is localhost or an IPv4 address, the server is no plain IPv6
  address; and the keys of two checked configurations differ unless user, host and both ports
  are the same.
\<close>

theorem validated_config:
  assumes "validateConfig c = None" "validateConfig c' = None"
  shows "{ServerPort c, LocalPort c, RemotePort c} \<subseteq> {1..65535} \<and>
    uint (word_of_int (RemotePort c) :: 32 word) = RemotePort c \<and>
    (LocalHost c = ''localhost'' \<or> ParseIP (LocalHost c) = IP4) \<and>
    (ParseIP (ServerHost c) = IP4 \<or> IsValidDomain (ServerHost c)) \<and>
    (generateProcessKey (Username c) (ServerHost c) (ServerPort c) (RemotePort c) =
       generateProcessKey (Username c') (ServerHost c') (ServerPort c') (RemotePort c') \<longleftrightarrow>
     Username c = Username c' \<and> ServerHost c = ServerHost c' \<and> ServerPort c = ServerPort c' \<and> RemotePort c = RemotePort c')"
proof -
  have ports: "{ServerPort c, LocalPort c, RemotePort c} \<subseteq> {1..65535}"
    and hosts: "LocalHost c = ''localhost'' \<or> ParseIP (LocalHost c) = IP4"
    using assms(1) by (auto simp: validateConfig_def port_ok_def split: if_splits)
  have server: "ParseIP (ServerHost c) = IP4 \<or> IsValidDomain (ServerHost c)"
    using assms(1) by (cases "ParseIP (ServerHost c)") (auto simp: validateConfig_def split: if_splits)
  have port: "uint (word_of_int (RemotePort c) :: 32 word) = RemotePort c"
    using ports by (simp add: uint_word_of_int take_bit_int_eq_self)
  show ?thesis
  proof (intro conjI ports port hosts server iffI; (elim conjE)?)
    assume "generateProcessKey (Username c) (ServerHost c) (ServerPort c) (RemotePort c) =
       generateProcessKey (Username c') (ServerHost c') (ServerPort c') (RemotePort c')"
    from generateProcessKey_inj [OF this validated_host [OF assms(1)] validated_host [OF assms(2)]]
    show "Username c = Username c'" "ServerHost c = ServerHost c'" "ServerPort c = ServerPort c'" "RemotePort c = RemotePort c'"
      by simp_all
  qed simp
qed

theorem validated_config_witness:
  "uint (word_of_int 8080 :: 32 word) = 8080"
proof -
  let ?c = "(base_config (\<lambda>_. []))\<lparr>ServerHost := ''a.b'', RemotePort := 8080\<rparr>"
  have "ParseIP ''a.b'' = NotIP" by code_simp
  moreover have "IsValidDomain ''a.b''" by code_simp
  ultimately have "validateConfig ?c = None"
    by (simp add: validateConfig_def base_config_def getEnvInt_def port_ok_def)
  from validated_config [OF this this] show ?thesis by simp
qed

text \<open>
  C21. The count of rejected declarations is never reset in the life of a worker: over any rounds
  in which the worker is not cancelled, it grows by the number of rejected attempts, however
  many tunnels were established in between. The first rejected attempt of its life waits 3
  seconds, the second 5, the third 10, and from the fourth on every one waits 30, each with less
  than a second of jitter on top; every other attempt waits the configured delay.
\<close>

theorem bind_streak_never_reset:
  assumes "worker_rounds config rs (cache, w) = (as, cache', w')"
    and "list_all quiet_round rs" "list_all jitter_ok rs"
  shows "wi_BindRejectStreak w' = wi_BindRejectStreak w + length (filter rejected_attempt as) \<and>
    expected_waits config (wi_BindRejectStreak w) as"
  using worker_rounds_streak [OF assms] .

abbreviation rejected_round :: "round" where
  "rejected_round \<equiv>
     \<lparr>rd_start = 0, rd_answers = sample_answers\<lparr>an_tcpip := ReqAnswer False\<rparr>, rd_events = [], rd_ticks = [], rd_end = 1,
      rd_done = False, rd_jitter = 0\<rparr>"

theorem bind_streak_never_reset_witness:
  "\<exists>as c w. worker_rounds sample_config [rejected_round] ([], worker_begin 0 sample_config sample_worker) = (as, c, w) \<and>
     wi_BindRejectStreak w = length (filter rejected_attempt as) \<and> expected_waits sample_config 0 as"
proof -
  obtain as c w where r: "worker_rounds sample_config [rejected_round] ([], worker_begin 0 sample_config sample_worker) = (as, c, w)"
    by (metis prod_cases3)
  have "wi_BindRejectStreak w = length (filter rejected_attempt as) \<and> expected_waits sample_config 0 as"
    using bind_streak_never_reset [OF r] by (simp add: quiet_round_def jitter_ok_def second_def worker_begin_def set_worker_status_def)
  with r show ?thesis by blast
qed

text \<open>
  C40. The lifetime check restarts busy workers. A worker is past its lifetime; between two checks
  one of the channels of its running tunnel delivers bytes to the local service or reads bytes
  from it. The handler that copies them holds the statistics and never counts a byte, and
  neither does the connection: so the first check takes the time, and the next one that comes 30
  seconds later or more asks for the restart, as if the worker were idle.
\<close>

theorem lifetime_restarts_busy_worker:
  assumes "ConnectAndTunnel now w config cache sm evs = ((None, t), cache')" "GetBytesTransferred sm = 0"
    and "hc_reach deflate tcp (tn_compress t) fw_ok (tn_stats t) h1" "(hc_step deflate tcp)\<^sup>*\<^sup>* h1 h2"
    and "length (hc_delivered h1) < length (hc_delivered h2) \<or> length (hc_from_local h1) < length (hc_from_local h2)"
    and "wi_StatsManager p = Some (hc_stats h1)" "wi_Status p = ''online''" "wi_Config p = Some config"
    and "0 < wi_MaxLifetime p" "seconds (wi_MaxLifetime p) \<le> t1 - wi_StartTime p" "wi_LastCheckTime p = None"
    and "CheckWorkerLifetime t1 key p = (r1, p1)" "t1 + 30 * second \<le> t2"
  shows "r1 = (False, []) \<and>
    fst (CheckWorkerLifetime t2 key (p1\<lparr>wi_StatsManager := Some (hc_stats h2)\<rparr>)) = (True, key)"
proof -
  have st: "hc_stats h1 = tn_stats t" "hc_stats h2 = tn_stats t"
    using hc_stats_reach [OF assms(3)] hc_stats_steps [OF assms(4)] by simp_all
  have b: "GetBytesTransferred (tn_stats t) = 0" using ConnectAndTunnel_counts_nothing [OF assms(1)] assms(2) by simp
  have "CheckWorkerLifetime t1 key p = ((False, []), p\<lparr>wi_LastCheckTime := Some t1, wi_LastBytesCheck := 0\<rparr>)"
    using assms(6-11) b st by (simp add: CheckWorkerLifetime_def)
  with assms(12) have c1: "r1 = (False, [])" "p1 = p\<lparr>wi_LastCheckTime := Some t1, wi_LastBytesCheck := 0\<rparr>" by simp_all
  have "seconds (wi_MaxLifetime p) \<le> t2 - wi_StartTime p" using assms(10,13) by (simp add: second_def)
  then show ?thesis
    using assms(6-9,13) b st unfolding c1 by (simp add: CheckWorkerLifetime_def)
qed

text \<open>A tunnel that runs, one of its channels delivering two bytes, a worker past its lifetime.\<close>

lemma sample_running:
  "\<exists>t c. ConnectAndTunnel 0 sample_answers sample_config [] (NewStatsManager 0 sample_config True) [] = ((None, t), c)"
proof -
  have "fst (fst (ConnectAndTunnel 0 sample_answers sample_config [] (NewStatsManager 0 sample_config True) [])) = None"
    by (simp add: ConnectAndTunnel_def establish_def open_connection_def auth_methods_def base_config_def getEnv_def
        dial_defs and_then_def negotiate_compression_def declare_forwards_def setup_tcp_def setupTCPForward_def
        declareTCPForward_def sendForwardRequestWithTimeout_def new_tunnel_def)
  then show ?thesis by (metis prod.collapse)
qed

lemma sample_copying:
  "\<exists>h. (hc_step deflate tcp)\<^sup>*\<^sup>* (handle_init compress fw_ok sm) h \<and> hc_delivered h = [1, 2]"
proof -
  let ?h0 = "handle_init compress fw_ok sm"
  let ?h1 = "?h0\<lparr>hc_from_ssh := [1, 2], hc_unsent := [1, 2]\<rparr>"
  have "hc_step deflate tcp ?h0 ?h1"
    using hc_step.up_copy [of ?h0 deflate tcp "[1, 2]"] by (simp add: handle_init_def)
  moreover have "hc_step deflate tcp ?h1 (?h1\<lparr>hc_delivered := [1, 2], hc_unsent := []\<rparr>)"
    using hc_step.sent [of ?h1 "[1, 2]" "[]"] by (simp add: handle_init_def)
  ultimately have "(hc_step deflate tcp)\<^sup>*\<^sup>* ?h0 (?h1\<lparr>hc_delivered := [1, 2], hc_unsent := []\<rparr>)"
    by (meson converse_rtranclp_into_rtranclp rtranclp.rtrancl_refl)
  then show ?thesis by (intro exI conjI) (assumption, simp)
qed

theorem lifetime_restarts_busy_worker_witness:
  "\<exists>t c h. ConnectAndTunnel 0 sample_answers sample_config [] (NewStatsManager 0 sample_config True) [] = ((None, t), c) \<and>
     hc_reach (\<lambda>b. Inr (0 # b)) True (tn_compress t) True (tn_stats t) h \<and> hc_delivered h = [1, 2] \<and>
     fst (CheckWorkerLifetime (200 * second) ''k'' ((snd (CheckWorkerLifetime (100 * second) ''k''
       (sample_worker\<lparr>wi_StatsManager := Some (tn_stats t), wi_Config := Some sample_config, wi_MaxLifetime := 60\<rparr>)))
         \<lparr>wi_StatsManager := Some (hc_stats h)\<rparr>)) = (True, ''k'')"
proof -
  let ?d = "\<lambda>b. Inr (0 # b)"
  obtain t c where r: "ConnectAndTunnel 0 sample_answers sample_config [] (NewStatsManager 0 sample_config True) [] = ((None, t), c)"
    using sample_running by blast
  let ?h0 = "handle_init (tn_compress t) True (tn_stats t)"
  obtain h where h: "(hc_step ?d True)\<^sup>*\<^sup>* ?h0 h" "hc_delivered h = [1, 2]" using sample_copying by blast
  have busy: "length (hc_delivered ?h0) < length (hc_delivered h) \<or> length (hc_from_local ?h0) < length (hc_from_local h)"
    by (simp add: h(2) handle_init_def)
  let ?p = "sample_worker\<lparr>wi_StatsManager := Some (tn_stats t), wi_Config := Some sample_config, wi_MaxLifetime := 60\<rparr>"
  have past: "seconds (wi_MaxLifetime ?p) \<le> 100 * second - wi_StartTime ?p" by (simp add: seconds_def second_def to_int_64)
  have z: "GetBytesTransferred (NewStatsManager 0 sample_config True) = 0" by (simp add: NewStatsManager_def GetBytesTransferred_def)
  have st: "wi_StatsManager ?p = Some (hc_stats ?h0)" by (simp add: handle_init_def)
  have "fst (CheckWorkerLifetime (200 * second) ''k'' ((snd (CheckWorkerLifetime (100 * second) ''k'' ?p))
      \<lparr>wi_StatsManager := Some (hc_stats h)\<rparr>)) = (True, ''k'')"
    using lifetime_restarts_busy_worker [OF r z hc_reach.init h(1) busy st _ _ _ past _ surjective_pairing, of "200 * second" "''k''"]
    by (simp add: second_def)
  with r h hc_reach_steps [OF hc_reach.init h(1)] show ?thesis by blast
qed

end
