(* ===== verification/Daemon.thy ===== *)
theory Daemon
  imports Worker
begin

text \<open>
  The daemon (\<open>daemon/daemon.go\<close>): the table of workers, the commands that arrive over the local
  transport, and the supervisor's tick. Workers are objects in a heap, the table files them under
  their key; a command first collects workers and then acts on them, so an action can meet a
  table that has changed in between. The closures that \<open>processLoop\<close> executes are functions on the
  state; they run one after the other. Go leaves the order of a map's entries open: the model
  takes the order of the list, and no property depends on it. Replies are values of a datatype
  that stand for the JSON that is sent.
\<close>

section \<open>State\<close>

record Daemon =
  dm_workers :: "(string \<times> nat) list"
  dm_heap :: "WorkerInfo list"
  dm_idleStartTime :: gotime
  dm_version :: string
  dm_pid :: int

definition NewDaemon :: "string \<Rightarrow> int \<Rightarrow> Daemon" where
  "NewDaemon version pid =
     \<lparr>dm_workers = [], dm_heap = [], dm_idleStartTime = None, dm_version = version, dm_pid = pid\<rparr>"

abbreviation worker_at :: "Daemon \<Rightarrow> nat \<Rightarrow> WorkerInfo" where
  "worker_at d a \<equiv> dm_heap d ! a"

definition upd_worker :: "nat \<Rightarrow> (WorkerInfo \<Rightarrow> WorkerInfo) \<Rightarrow> Daemon \<Rightarrow> Daemon" where
  "upd_worker a f d = d\<lparr>dm_heap := (dm_heap d)[a := f (worker_at d a)]\<rparr>"

definition worker_key :: "WorkerInfo \<Rightarrow> string" where
  "worker_key p = generateProcessKey (wi_Username p) (wi_ServerHost p) (wi_ServerPort p) (wi_RemotePort p)"

definition config_key :: "Config \<Rightarrow> string" where
  "config_key c = generateProcessKey (Username c) (ServerHost c) (ServerPort c) (RemotePort c)"


section \<open>Starting and stopping\<close>

text \<open>
  \<open>CancelFunc\<close>, if there is one; and the end of \<open>runWorker\<close>, which closes \<open>DoneChan\<close>: after a
  \<open>ConnectAndTunnel\<close> whose context is done, while it waits for the next attempt, or by a panic.
\<close>

datatype exit_path = AfterTunnel | WhileWaiting | Panicking

definition cancel_worker :: "nat \<Rightarrow> Daemon \<Rightarrow> Daemon" where
  "cancel_worker a = upd_worker a (\<lambda>w. if wi_cancel w = None then w else w\<lparr>wi_cancel := Some True\<rparr>)"

definition exit_status :: "exit_path \<Rightarrow> instant \<Rightarrow> WorkerInfo \<Rightarrow> WorkerInfo" where
  "exit_status path now w =
     (case path of
        AfterTunnel \<Rightarrow> set_worker_status now ''offline'' (w\<lparr>wi_LastConnectTime := Some now\<rparr>)
      | WhileWaiting \<Rightarrow> w
      | Panicking \<Rightarrow> set_worker_status now ''crashed'' w)"

definition worker_exit :: "exit_path \<Rightarrow> instant \<Rightarrow> nat \<Rightarrow> Daemon \<Rightarrow> Daemon" where
  "worker_exit path now a =
     upd_worker a (\<lambda>w. if wi_done w = Some False then (exit_status path now w)\<lparr>wi_done := Some True\<rparr> else w)"

definition new_worker :: "instant \<Rightarrow> Config \<Rightarrow> WorkerInfo" where
  "new_worker now config =
     \<lparr>wi_ID = config_key config, wi_cancel = Some False, wi_done = Some False, wi_Username = Username config,
      wi_ServerHost = ServerHost config, wi_ServerPort = ServerPort config, wi_LocalHost = LocalHost config,
      wi_LocalPort = LocalPort config, wi_RemotePort = RemotePort config, wi_Password = Password config,
      wi_SSHKeyPath = SSHKeyPath config, wi_StartTime = now, wi_Status = ''offline'',
      wi_Proto = NormalizeProto (Proto config), wi_LastRegisterTime = None, wi_StatusChangeTime = None,
      wi_StatsManager = None, wi_LastConnectTime = None, wi_ReconnectNeeded = False, wi_Config = Some config,
      wi_OfflineCount = 0, wi_MaxLifetime = MaxLifetime config, wi_LastBytesCheck = 0, wi_LastCheckTime = None,
      wi_BindRejectStreak = 0\<rparr>"

definition startWorker :: "instant \<Rightarrow> Config \<Rightarrow> Daemon \<Rightarrow> Daemon" where
  "startWorker now config d =
     (let key = config_key config;
          d = (case map_of (dm_workers d) key of None \<Rightarrow> d | Some a \<Rightarrow> cancel_worker a d);
          a = length (dm_heap d)
      in d\<lparr>dm_heap := dm_heap d @ [worker_begin now config (new_worker now config)],
           dm_workers := AList.update key a (dm_workers d), dm_idleStartTime := None\<rparr>)"

text \<open>The last part of \<open>stopWorker\<close>, executed by \<open>processLoop\<close>.\<close>

definition stop_delete :: "instant \<Rightarrow> string \<Rightarrow> Daemon \<Rightarrow> Daemon" where
  "stop_delete now key d =
     (let d = d\<lparr>dm_workers := AList.delete key (dm_workers d)\<rparr>
      in if dm_workers d = [] then d\<lparr>dm_idleStartTime := Some now\<rparr> else d)"

text \<open>
  \<open>stopWorker\<close> when nothing else happens between its parts, for a worker that is in
  \<open>ConnectAndTunnel\<close> when it is cancelled.
\<close>

definition stopWorker :: "instant \<Rightarrow> nat \<Rightarrow> string \<Rightarrow> Daemon \<Rightarrow> Daemon" where
  "stopWorker now a key d = stop_delete now key (worker_exit AfterTunnel now a (cancel_worker a d))"

datatype action = StopAction | KillAction | RestartAction | OtherAction

datatype reply_error =
    WorkerNotFound string string int
  | MultipleWorkers string "(string \<times> string \<times> int \<times> int) list"
  | NoProcesses string string int
  | UnknownAction
  | UnknownCommand
  | NothingToStop
  | MissingUsername
  | InvalidConfig config_error
  | LogNotFound
  | AuthenticationFailed

datatype reply =
    ErrorReply reply_error
  | ActionReply string string string
  | ActionsReply action nat "(string \<times> string \<times> string) list"
  | StartReply string string bool
  | StoppedAll nat
  | Registered
  | ListReply int string "WorkerInfo list"
  | PidReply int
  | VersionReply string
  | StopDaemonReply int
  | LogReply string string
  | CommandReply string string string string
  | CommandsReply "(string \<times> string \<times> string \<times> string \<times> string) list"
  | ExportReply string int "WorkerInfo list"
  | StoppedReply

definition restart_config :: "WorkerInfo \<Rightarrow> Config" where
  "restart_config w =
     (case wi_Config w of
        Some config \<Rightarrow> config
      | None \<Rightarrow>
          \<lparr>ServerHost = wi_ServerHost w, ServerPort = wi_ServerPort w, Username = wi_Username w,
           Password = wi_Password w, SSHKeyPath = wi_SSHKeyPath w, LocalHost = wi_LocalHost w,
           LocalPort = wi_LocalPort w, RemotePort = wi_RemotePort w, ReconnectDelay = 30, MaxOfflineCount = 0,
           MaxLifetime = 0, Transport = [], Proto = [], Compress = False, UDPSocketBuffer = 0,
           UDPMaxPacketSize = 0, UDPFlowIdleTimeout = 0, Version = []\<rparr>)"

text \<open>A restart sleeps one second between stopping and starting.\<close>

definition performAction :: "instant \<Rightarrow> action \<Rightarrow> nat \<Rightarrow> string \<Rightarrow> Daemon \<Rightarrow> reply \<times> Daemon" where
  "performAction now action a key d =
     (let w = worker_at d a
      in case action of
           StopAction \<Rightarrow> (ActionReply (wi_Username w) (wi_ID w) ''stopped'', stopWorker now a key d)
         | KillAction \<Rightarrow> (ActionReply (wi_Username w) (wi_ID w) ''killed'', stopWorker now a key d)
         | RestartAction \<Rightarrow> (ActionReply (wi_Username w) key ''restarted'',
             startWorker (now + second) (restart_config w) (stopWorker now a key d))
         | OtherAction \<Rightarrow> (ErrorReply UnknownAction, d))"


section \<open>Commands on workers\<close>

definition matching :: "TargetSpec \<Rightarrow> Daemon \<Rightarrow> nat list" where
  "matching spec d = filter (\<lambda>a. matches_spec spec (worker_at d a)) (map snd (dm_workers d))"

definition matching_all :: "string \<Rightarrow> string \<Rightarrow> int \<Rightarrow> Daemon \<Rightarrow> (string \<times> nat) list" where
  "matching_all username server serverPort d =
     filter (\<lambda>(key, a). matches_all username server serverPort (worker_at d a)) (dm_workers d)"

text \<open>What an ambiguous target is answered with of each worker.\<close>

definition worker_line :: "WorkerInfo \<Rightarrow> string \<times> string \<times> int \<times> int" where
  "worker_line w = (wi_Username w, wi_ServerHost w, wi_ServerPort w, wi_RemotePort w)"

definition handleAllProcessesAction ::
  "instant \<Rightarrow> action \<Rightarrow> string \<Rightarrow> string \<Rightarrow> int \<Rightarrow> Daemon \<Rightarrow> reply \<times> Daemon" where
  "handleAllProcessesAction now action username server serverPort d =
     (let ps = matching_all username server serverPort d
      in if ps = [] then (ErrorReply (NoProcesses username server serverPort), d)
         else let d' = fold (\<lambda>(key, a) d. snd (performAction now action a key d)) ps d;
                  done = (if action = OtherAction then [] else map (\<lambda>(key, a). let w = worker_at d a in
                    (wi_Username w, wi_ID w, wi_ServerHost w @ '':'' @ itoa (wi_ServerPort w))) ps)
              in (ActionsReply action (length done) done, d'))"

definition handleProcessAction :: "instant \<Rightarrow> string \<Rightarrow> action \<Rightarrow> Daemon \<Rightarrow> reply \<times> Daemon" where
  "handleProcessAction now target action d =
     (let spec = parseTargetSpec target
      in if ts_Mode spec = All
         then handleAllProcessesAction now action (ts_Username spec) (ts_Server spec) (ts_ServerPort spec) d
         else case matching spec d of
                [] \<Rightarrow> (ErrorReply (WorkerNotFound (ts_Username spec) (ts_Server spec) (ts_ServerPort spec)), d)
              | [a] \<Rightarrow> performAction now action a (worker_key (worker_at d a)) d
              | a # b # ps \<Rightarrow>
                  if ts_Server spec \<noteq> [] then performAction now action a (worker_key (worker_at d a)) d
                  else (ErrorReply (MultipleWorkers (ts_Username spec) (map (\<lambda>a. worker_line (worker_at d a)) (a # b # ps))), d))"

definition handleStart :: "instant \<Rightarrow> params \<Rightarrow> Daemon \<Rightarrow> reply \<times> Daemon" where
  "handleStart now params d =
     (let config = configFromStartParams params
      in case validateConfig config of
           Some e \<Rightarrow> (ErrorReply (InvalidConfig e), d)
         | None \<Rightarrow>
             (let processKey = config_key config; old = map_of (dm_workers d) processKey;
                  d = (case old of None \<Rightarrow> d | Some a \<Rightarrow> cancel_worker a d)
              in (StartReply processKey (Username config) (old \<noteq> None), startWorker now config d)))"

definition handleStopAll :: "instant \<Rightarrow> Daemon \<Rightarrow> reply \<times> Daemon" where
  "handleStopAll now d =
     (let ps = dm_workers d
      in if ps = [] then (ErrorReply NothingToStop, d)
         else let d = fold (\<lambda>(key, a). cancel_worker a) ps d;
                  d = d\<lparr>dm_workers := fold (\<lambda>(key, a). AList.delete key) ps (dm_workers d)\<rparr>;
                  d = (if dm_workers d = [] then d\<lparr>dm_idleStartTime := Some now\<rparr> else d)
              in (StoppedAll (length ps), d))"


text \<open>
  A registration, the heartbeat of a client process: it updates the entry of its key or adds one
  that has neither a context nor a configuration. \<open>rfc3339\<close> is the parsing of a time.
\<close>

definition register_time :: "(string \<Rightarrow> instant option) \<Rightarrow> string \<Rightarrow> instant \<Rightarrow> instant" where
  "register_time rfc3339 s def =
     (if s = [] then def else case rfc3339 s of Some t \<Rightarrow> t | None \<Rightarrow> def)"

definition register_status :: "instant \<Rightarrow> (string \<Rightarrow> instant option) \<Rightarrow> params \<Rightarrow> WorkerInfo \<Rightarrow> WorkerInfo" where
  "register_status now rfc3339 params w =
     (let status = (if params ''status'' = [] then ''offline'' else params ''status'');
          changed = params ''last_status_change_time'';
          at = (if changed \<noteq> [] then rfc3339 changed else Some now)
      in case at of
           None \<Rightarrow> w
         | Some t \<Rightarrow> if wi_Status w \<noteq> status then set_worker_status t status w else w)"

definition register_credentials :: "params \<Rightarrow> WorkerInfo \<Rightarrow> WorkerInfo" where
  "register_credentials params w =
     (let w = (if params ''password'' \<noteq> [] then w\<lparr>wi_Password := params ''password''\<rparr> else w);
          w = (if params ''ssh_key'' \<noteq> [] then w\<lparr>wi_SSHKeyPath := params ''ssh_key''\<rparr> else w)
      in if params ''proto'' \<noteq> [] then w\<lparr>wi_Proto := NormalizeProto (params ''proto'')\<rparr> else w)"

definition register_existing :: "instant \<Rightarrow> (string \<Rightarrow> instant option) \<Rightarrow> params \<Rightarrow> WorkerInfo \<Rightarrow> WorkerInfo" where
  "register_existing now rfc3339 params w =
     (let started = params ''start_time'';
          w = w\<lparr>wi_LastRegisterTime := Some now\<rparr>;
          w = (case (if started = [] then None else rfc3339 started) of
                 Some t \<Rightarrow> w\<lparr>wi_StartTime := t\<rparr> | None \<Rightarrow> w)
      in register_credentials params (register_status now rfc3339 params w))"

definition register_new :: "instant \<Rightarrow> (string \<Rightarrow> instant option) \<Rightarrow> params \<Rightarrow> WorkerInfo" where
  "register_new now rfc3339 params =
     (let status = (if params ''status'' = [] then ''offline'' else params ''status'')
      in \<lparr>wi_ID = generateProcessKey (params ''username'') (params ''server_host'') (parseInt (params ''server_port''))
            (parseInt (params ''remote_port'')),
          wi_cancel = None, wi_done = None, wi_Username = params ''username'', wi_ServerHost = params ''server_host'',
          wi_ServerPort = parseInt (params ''server_port''), wi_LocalHost = params ''local_host'',
          wi_LocalPort = parseInt (params ''local_port''), wi_RemotePort = parseInt (params ''remote_port''),
          wi_Password = params ''password'', wi_SSHKeyPath = params ''ssh_key'',
          wi_StartTime = register_time rfc3339 (params ''start_time'') now, wi_Status = status,
          wi_Proto = NormalizeProto (params ''proto''), wi_LastRegisterTime = Some now,
          wi_StatusChangeTime = Some (register_time rfc3339 (params ''last_status_change_time'') now),
          wi_StatsManager = None, wi_LastConnectTime = None, wi_ReconnectNeeded = False, wi_Config = None,
          wi_OfflineCount = 0, wi_MaxLifetime = 0, wi_LastBytesCheck = 0, wi_LastCheckTime = None,
          wi_BindRejectStreak = 0\<rparr>)"

definition handleRegister :: "instant \<Rightarrow> (string \<Rightarrow> instant option) \<Rightarrow> params \<Rightarrow> Daemon \<Rightarrow> reply \<times> Daemon" where
  "handleRegister now rfc3339 params d =
     (if params ''username'' = [] then (ErrorReply MissingUsername, d)
      else let w = register_new now rfc3339 params; key = wi_ID w
           in (Registered,
               case map_of (dm_workers d) key of
                 Some a \<Rightarrow> upd_worker a (register_existing now rfc3339 params) d
               | None \<Rightarrow> d\<lparr>dm_heap := dm_heap d @ [w], dm_workers := AList.update key (length (dm_heap d)) (dm_workers d)\<rparr>))"


section \<open>Queries\<close>

definition table_workers :: "Daemon \<Rightarrow> WorkerInfo list" where
  "table_workers d = map (\<lambda>(key, a). worker_at d a) (dm_workers d)"

definition handleList :: "Daemon \<Rightarrow> reply" where
  "handleList d = ListReply (dm_pid d) (dm_version d) (table_workers d)"

definition handleGetDaemonPID :: "Daemon \<Rightarrow> reply" where "handleGetDaemonPID d = PidReply (dm_pid d)"
definition handleGetVersion :: "Daemon \<Rightarrow> reply" where "handleGetVersion d = VersionReply (dm_version d)"

definition handleLog :: "params \<Rightarrow> Daemon \<Rightarrow> reply" where
  "handleLog params d =
     (case filter (\<lambda>w. wi_Username w = params ''username'') (table_workers d) of
        [] \<Rightarrow> ErrorReply LogNotFound
      | w # _ \<Rightarrow> LogReply (wi_ID w) (wi_Status w))"

text \<open>The command line that starts a worker again.\<close>

definition worker_command :: "WorkerInfo \<Rightarrow> string" where
  "worker_command w =
     (let base = ''nssh -R '' @ itoa (wi_RemotePort w) @ '':'' @ wi_LocalHost w @ '':'' @ itoa (wi_LocalPort w) @ '' ''
            @ wi_Username w @ ''@'' @ wi_ServerHost w @ '' -p '' @ itoa (wi_ServerPort w) @ '' --passwd '' @ wi_Password w;
          cmd = (if wi_SSHKeyPath w \<noteq> [] then base @ '' -i '' @ wi_SSHKeyPath w @ '' --daemon'' else base @ '' --daemon'');
          proto = NormalizeProto (wi_Proto w)
      in if proto = ''udp'' \<or> proto = ''both'' then cmd @ '' --proto '' @ proto else cmd)"

definition formatCommandResponse :: "WorkerInfo \<Rightarrow> reply" where
  "formatCommandResponse w = CommandReply (wi_Username w) (worker_command w) (wi_ID w) (NormalizeProto (wi_Proto w))"

definition formatAllCommandsResponse :: "string \<Rightarrow> string \<Rightarrow> int \<Rightarrow> Daemon \<Rightarrow> reply" where
  "formatAllCommandsResponse username server serverPort d =
     (case matching_all username server serverPort d of
        [] \<Rightarrow> ErrorReply (NoProcesses username server serverPort)
      | ps \<Rightarrow> CommandsReply (map (\<lambda>(key, a). (let w = worker_at d a in (wi_Username w, wi_ID w,
                wi_ServerHost w @ '':'' @ itoa (wi_ServerPort w), worker_command w, NormalizeProto (wi_Proto w)))) ps))"

definition handleGetCommand :: "string \<Rightarrow> Daemon \<Rightarrow> reply" where
  "handleGetCommand target d =
     (let spec = parseTargetSpec target
      in if ts_Mode spec = All then formatAllCommandsResponse (ts_Username spec) (ts_Server spec) (ts_ServerPort spec) d
         else case matching spec d of
                [] \<Rightarrow> ErrorReply (WorkerNotFound (ts_Username spec) (ts_Server spec) (ts_ServerPort spec))
              | [a] \<Rightarrow> formatCommandResponse (worker_at d a)
              | a # b # ps \<Rightarrow>
                  if ts_Server spec \<noteq> [] then formatCommandResponse (worker_at d a)
                  else ErrorReply (MultipleWorkers (ts_Username spec) (map (\<lambda>a. worker_line (worker_at d a)) (a # b # ps))))"


section \<open>Takeover and dispatch\<close>

text \<open>
  The digest of the takeover key is a parameter (\<open>crypto/sha256\<close> and hexadecimal): a request is
  accepted when it carries the digest of its own time stamp.
\<close>

definition TakeoverKey :: string where "TakeoverKey = ''nssh_takeover_secret_v1''"

definition EncryptKeyWithTime :: "(string \<Rightarrow> string) \<Rightarrow> int \<Rightarrow> string" where
  "EncryptKeyWithTime sha timestamp = sha (TakeoverKey @ ''_'' @ itoa timestamp)"

definition VerifyKeyWithTime :: "(string \<Rightarrow> string) \<Rightarrow> int \<Rightarrow> string \<Rightarrow> bool" where
  "VerifyKeyWithTime sha timestamp encryptedKey \<longleftrightarrow> EncryptKeyWithTime sha timestamp = encryptedKey"

definition handleTakeoverExport :: "Daemon \<Rightarrow> reply" where
  "handleTakeoverExport d = ExportReply (dm_version d) (dm_pid d) (table_workers d)"

text \<open>The workers become \<open>migrating\<close>, after five seconds they are cancelled and the table is emptied.\<close>

definition handleTakeoverStop :: "Daemon \<Rightarrow> Daemon" where
  "handleTakeoverStop d =
     (let d = fold (\<lambda>(key, a). upd_worker a (\<lambda>w. w\<lparr>wi_ReconnectNeeded := False, wi_Status := ''migrating''\<rparr>)) (dm_workers d) d;
          d = fold (\<lambda>(key, a). cancel_worker a) (dm_workers d) d
      in d\<lparr>dm_workers := []\<rparr>)"

definition handleTakeover :: "(string \<Rightarrow> string) \<Rightarrow> params \<Rightarrow> string \<Rightarrow> int \<Rightarrow> Daemon \<Rightarrow> reply \<times> Daemon" where
  "handleTakeover sha params key timestamp d =
     (if \<not> VerifyKeyWithTime sha timestamp key then (ErrorReply AuthenticationFailed, d)
      else if params ''action'' = ''stop'' then (StoppedReply, handleTakeoverStop d)
      else (handleTakeoverExport d, d))"

definition CMD_START :: int where "CMD_START = 0x01"
definition CMD_STOP :: int where "CMD_STOP = 0x02"
definition CMD_RESTART :: int where "CMD_RESTART = 0x04"
definition CMD_LIST :: int where "CMD_LIST = 0x05"
definition CMD_LOG :: int where "CMD_LOG = 0x06"
definition CMD_STOP_ALL :: int where "CMD_STOP_ALL = 0x08"
definition CMD_REGISTER :: int where "CMD_REGISTER = 0x0A"
definition CMD_GET_COMMAND :: int where "CMD_GET_COMMAND = 0x0C"
definition CMD_GET_DAEMON_PID :: int where "CMD_GET_DAEMON_PID = 0x0D"
definition CMD_GET_VERSION :: int where "CMD_GET_VERSION = 0x0E"
definition CMD_STOP_DAEMON :: int where "CMD_STOP_DAEMON = 0x0F"
definition CMD_TAKEOVER :: int where "CMD_TAKEOVER = 0x20"

lemmas cmd_defs = CMD_START_def CMD_STOP_def CMD_RESTART_def CMD_LIST_def CMD_LOG_def CMD_STOP_ALL_def
  CMD_REGISTER_def CMD_GET_COMMAND_def CMD_GET_DAEMON_PID_def CMD_GET_VERSION_def CMD_STOP_DAEMON_def CMD_TAKEOVER_def

definition handleTransportCommand ::
  "(string \<Rightarrow> string) \<Rightarrow> (string \<Rightarrow> instant option) \<Rightarrow> instant \<Rightarrow> int \<Rightarrow> params \<Rightarrow> string \<Rightarrow> int \<Rightarrow> Daemon \<Rightarrow> reply \<times> Daemon" where
  "handleTransportCommand sha rfc3339 now cmd params key timestamp d =
     (if cmd = CMD_START then handleStart now params d
      else if cmd = CMD_STOP then handleProcessAction now (params ''username'') StopAction d
      else if cmd = CMD_STOP_ALL then handleStopAll now d
      else if cmd = CMD_RESTART then handleProcessAction now (params ''username'') RestartAction d
      else if cmd = CMD_LIST then (handleList d, d)
      else if cmd = CMD_LOG then (handleLog params d, d)
      else if cmd = CMD_REGISTER then handleRegister now rfc3339 params d
      else if cmd = CMD_GET_COMMAND then (handleGetCommand (params ''username'') d, d)
      else if cmd = CMD_GET_DAEMON_PID then (handleGetDaemonPID d, d)
      else if cmd = CMD_GET_VERSION then (handleGetVersion d, d)
      else if cmd = CMD_STOP_DAEMON then (StopDaemonReply (dm_pid d), d)
      else if cmd = CMD_TAKEOVER then handleTakeover sha params key timestamp d
      else (ErrorReply UnknownCommand, d))"


section \<open>The supervisor\<close>

text \<open>
  One worker in a tick of 30 seconds: what the tick starts for it, and its new record. A restart
  for want of progress, the count of offline ticks, the deletion, the lifetime check.
\<close>

definition noProgressRestartTimeout :: duration where "noProgressRestartTimeout = 2 * minute"

datatype order = StartAgain Config | StopIt string | RestartIt string

definition mark_lost :: "instant \<Rightarrow> string \<Rightarrow> WorkerInfo \<Rightarrow> order list \<times> WorkerInfo" where
  "mark_lost now key p =
     (let p = (set_worker_status now ''offline'' p)\<lparr>wi_ReconnectNeeded := True, wi_OfflineCount := wi_OfflineCount p + 1\<rparr>;
          maxOfflineCount = (case wi_Config p of
             Some c \<Rightarrow> if MaxOfflineCount c > 0 then nat (MaxOfflineCount c) else 14400 | None \<Rightarrow> 14400)
      in (if wi_OfflineCount p \<ge> maxOfflineCount then [StopIt key] else [], p))"

definition check_alive :: "instant \<Rightarrow> string \<Rightarrow> WorkerInfo \<Rightarrow> order list \<times> WorkerInfo" where
  "check_alive now key p =
     (case wi_LastRegisterTime p of
        None \<Rightarrow> ([], p)
      | Some t \<Rightarrow>
          if now - t > 1 * minute then mark_lost now key p
          else let p = (if wi_Status p = ''online'' \<and> wi_OfflineCount p > 0 then p\<lparr>wi_OfflineCount := 0\<rparr> else p)
               in case CheckWorkerLifetime now key p of
                    ((True, restartKey), p) \<Rightarrow> ([RestartIt restartKey], p)
                  | ((False, _), p) \<Rightarrow> ([], p))"

definition supervise_worker :: "instant \<Rightarrow> string \<Rightarrow> WorkerInfo \<Rightarrow> order list \<times> WorkerInfo" where
  "supervise_worker now key p =
     (case wi_Config p of
        None \<Rightarrow> check_alive now key p
      | Some config \<Rightarrow>
          if wi_Status p = ''offline'' \<and> wi_ReconnectNeeded p
          then ([StartAgain config], p\<lparr>wi_ReconnectNeeded := False\<rparr>)
          else if wi_Status p \<noteq> ''online''
          then (case wi_LastConnectTime p of
                  None \<Rightarrow> check_alive now key (p\<lparr>wi_LastConnectTime := Some now\<rparr>)
                | Some t \<Rightarrow>
                    if now - t > noProgressRestartTimeout
                    then ([StartAgain config], p\<lparr>wi_LastConnectTime := Some now\<rparr>)
                    else check_alive now key p)
          else check_alive now key p)"

text \<open>
  The tick over the table, and whether the daemon ends because it had no worker for ten minutes.
  The orders are carried out by other goroutines, after the tick.
\<close>

definition supervise_entries :: "instant \<Rightarrow> Daemon \<Rightarrow> (nat \<times> order) list \<times> Daemon" where
  "supervise_entries now d =
     fold (\<lambda>(key, a) (os, d). case supervise_worker now key (worker_at d a) of
             (new, w) \<Rightarrow> (os @ map (Pair a) new, upd_worker a (\<lambda>_. w) d)) (dm_workers d) ([], d)"

definition supervise :: "instant \<Rightarrow> Daemon \<Rightarrow> bool \<times> (nat \<times> order) list \<times> Daemon" where
  "supervise now d =
     (case supervise_entries now d of
        (os, d) \<Rightarrow>
          if dm_workers d = []
          then (case dm_idleStartTime d of
                  None \<Rightarrow> (False, os, d\<lparr>dm_idleStartTime := Some now\<rparr>)
                | Some t \<Rightarrow> (now - t > 10 * minute, os, d))
          else (False, os, d\<lparr>dm_idleStartTime := None\<rparr>))"


section \<open>Interleavings\<close>

text \<open>
  The daemon with the stops that are under way: the worker that is waited for, if any, and the
  key that will be deleted. The ghost \<open>dy_raced\<close> says that such a deletion has hit the entry of
  a live worker, one that runs and is not cancelled.
\<close>

record daemon_sys =
  dy_d :: Daemon
  dy_stops :: "(nat option \<times> string) list"
  dy_raced :: bool

definition live :: "Daemon \<Rightarrow> nat \<Rightarrow> bool" where
  "live d a \<longleftrightarrow> a < length (dm_heap d) \<and> wi_done (worker_at d a) = Some False \<and> wi_cancel (worker_at d a) = Some False"

definition keeps_identity :: "(WorkerInfo \<Rightarrow> WorkerInfo) \<Rightarrow> bool" where
  "keeps_identity f \<longleftrightarrow>
     (\<forall>w. worker_key (f w) = worker_key w \<and> wi_ID (f w) = wi_ID w \<and> wi_cancel (f w) = wi_cancel w \<and> wi_done (f w) = wi_done w)"

inductive dm_step :: "daemon_sys \<Rightarrow> daemon_sys \<Rightarrow> bool" where
  start: "dm_step s (s\<lparr>dy_d := startWorker now config (dy_d s)\<rparr>)"
| register: "dm_step s (s\<lparr>dy_d := snd (handleRegister now rfc3339 params (dy_d s))\<rparr>)"
| cancel: "a < length (dm_heap (dy_d s)) \<Longrightarrow> dm_step s (s\<lparr>dy_d := cancel_worker a (dy_d s)\<rparr>)"
| exit: "a < length (dm_heap (dy_d s)) \<Longrightarrow> dm_step s (s\<lparr>dy_d := worker_exit path now a (dy_d s)\<rparr>)"
| update: "a < length (dm_heap (dy_d s)) \<Longrightarrow> keeps_identity f \<Longrightarrow> dm_step s (s\<lparr>dy_d := upd_worker a f (dy_d s)\<rparr>)"
| idle: "dm_step s (s\<lparr>dy_d := (dy_d s)\<lparr>dm_idleStartTime := t\<rparr>\<rparr>)"
| stop_begin: "map_of (dm_workers (dy_d s)) key = Some a \<Longrightarrow>
    dm_step s (s\<lparr>dy_d := cancel_worker a (dy_d s), dy_stops := (Some a, key) # dy_stops s\<rparr>)"
| stop_all_begin: "map_of (dm_workers (dy_d s)) key = Some a \<Longrightarrow>
    dm_step s (s\<lparr>dy_d := cancel_worker a (dy_d s), dy_stops := (None, key) # dy_stops s\<rparr>)"
| stop_end: "(w, key) \<in> set (dy_stops s) \<Longrightarrow>
    (case w of None \<Rightarrow> True | Some a \<Rightarrow> wi_done (worker_at (dy_d s) a) \<noteq> Some False) \<Longrightarrow>
    dm_step s (s\<lparr>dy_d := stop_delete now key (dy_d s), dy_stops := remove1 (w, key) (dy_stops s),
      dy_raced := (dy_raced s \<or> (case map_of (dm_workers (dy_d s)) key of None \<Rightarrow> False | Some b \<Rightarrow> live (dy_d s) b))\<rparr>)"

inductive dm_reach :: "daemon_sys \<Rightarrow> bool" where
  init: "dm_reach \<lparr>dy_d = NewDaemon version pid, dy_stops = [], dy_raced = False\<rparr>"
| step: "dm_reach s \<Longrightarrow> dm_step s s' \<Longrightarrow> dm_reach s'"

definition entry :: "Daemon \<Rightarrow> string \<Rightarrow> nat option" where
  "entry d = map_of (dm_workers d)"

definition daemon_inv :: "Daemon \<Rightarrow> bool" where
  "daemon_inv d \<longleftrightarrow> distinct_keys (dm_workers d) \<and>
     (\<forall>key a. entry d key = Some a \<longrightarrow> a < length (dm_heap d) \<and> worker_key (worker_at d a) = key \<and> wi_ID (worker_at d a) = key)"

definition filed :: "Daemon \<Rightarrow> bool" where
  "filed d \<longleftrightarrow> (\<forall>a. live d a \<longrightarrow> entry d (worker_key (worker_at d a)) = Some a)"

lemma daemon_invD:
  "daemon_inv d \<Longrightarrow> entry d key = Some a \<Longrightarrow>
   a < length (dm_heap d) \<and> worker_key (worker_at d a) = key \<and> wi_ID (worker_at d a) = key"
  by (simp add: daemon_inv_def)

lemma upd_worker_sel [simp]:
  "length (dm_heap (upd_worker a f d)) = length (dm_heap d)" "dm_workers (upd_worker a f d) = dm_workers d"
  "entry (upd_worker a f d) = entry d"
  "a < length (dm_heap d) \<Longrightarrow> worker_at (upd_worker a f d) b = (if b = a then f (worker_at d a) else worker_at d b)"
  by (simp_all add: upd_worker_def entry_def)

lemma daemon_inv_upd:
  assumes "daemon_inv d" "a < length (dm_heap d)"
    and "worker_key (f (worker_at d a)) = worker_key (worker_at d a)" "wi_ID (f (worker_at d a)) = wi_ID (worker_at d a)"
  shows "daemon_inv (upd_worker a f d)"
  using assms by (simp add: daemon_inv_def)

lemma filed_upd:
  assumes "filed d" "a < length (dm_heap d)" "worker_key (f (worker_at d a)) = worker_key (worker_at d a)"
    and "live (upd_worker a f d) a \<Longrightarrow> live d a"
  shows "filed (upd_worker a f d)"
  unfolding filed_def
proof (intro allI impI)
  fix b assume b: "live (upd_worker a f d) b"
  have "live d b"
  proof (cases "b = a")
    case True
    with b assms(4) show ?thesis by simp
  next
    case False
    with b assms(2) show ?thesis by (simp add: live_def)
  qed
  with assms(1) have "entry d (worker_key (worker_at d b)) = Some b" by (simp add: filed_def)
  with assms(2,3) show "entry (upd_worker a f d) (worker_key (worker_at (upd_worker a f d) b)) = Some b"
    by (cases "b = a") simp_all
qed

lemma worker_key_fields [simp]:
  "worker_key (w\<lparr>wi_cancel := x\<rparr>) = worker_key w" "worker_key (w\<lparr>wi_done := x\<rparr>) = worker_key w"
  "worker_key (set_worker_status now st w) = worker_key w" "wi_ID (set_worker_status now st w) = wi_ID w"
  "wi_done (set_worker_status now st w) = wi_done w" "wi_cancel (set_worker_status now st w) = wi_cancel w"
  by (simp_all add: worker_key_def set_worker_status_def)

lemma cancel_worker_inv:
  assumes "a < length (dm_heap d)"
  shows "(daemon_inv d \<longrightarrow> daemon_inv (cancel_worker a d)) \<and> (filed d \<longrightarrow> filed (cancel_worker a d)) \<and>
    \<not> live (cancel_worker a d) a \<and> length (dm_heap (cancel_worker a d)) = length (dm_heap d) \<and>
    entry (cancel_worker a d) = entry d \<and> dm_workers (cancel_worker a d) = dm_workers d"
  unfolding cancel_worker_def using assms
  by (intro conjI impI daemon_inv_upd filed_upd) (auto simp: live_def split: if_splits)

lemma exit_status_sel [simp]:
  "worker_key (exit_status path now w) = worker_key w" "wi_ID (exit_status path now w) = wi_ID w"
  "wi_done (exit_status path now w) = wi_done w" "wi_cancel (exit_status path now w) = wi_cancel w"
  by (cases path; simp add: exit_status_def worker_key_def set_worker_status_def)+

lemma worker_exit_inv:
  assumes "a < length (dm_heap d)"
  shows "(daemon_inv d \<longrightarrow> daemon_inv (worker_exit path now a d)) \<and> (filed d \<longrightarrow> filed (worker_exit path now a d))"
  unfolding worker_exit_def using assms
  by (intro conjI impI daemon_inv_upd filed_upd) (auto simp: live_def split: if_splits)

text \<open>A new object under a key whose old entry, if any, is not live.\<close>

definition file_new :: "WorkerInfo \<Rightarrow> Daemon \<Rightarrow> Daemon" where
  "file_new w d =
     d\<lparr>dm_heap := dm_heap d @ [w], dm_workers := AList.update (worker_key w) (length (dm_heap d)) (dm_workers d)\<rparr>"

lemma file_new_entry: "entry (file_new w d) k = (if k = worker_key w then Some (length (dm_heap d)) else entry d k)"
  by (simp add: entry_def file_new_def store_simps)

lemma file_new_at: "a < length (dm_heap d) \<Longrightarrow> worker_at (file_new w d) a = worker_at d a"
  "worker_at (file_new w d) (length (dm_heap d)) = w" "length (dm_heap (file_new w d)) = Suc (length (dm_heap d))"
  by (simp_all add: file_new_def nth_append)

lemma file_new_inv:
  assumes "daemon_inv d" "wi_ID w = worker_key w"
  shows "daemon_inv (file_new w d)"
  unfolding daemon_inv_def
proof (intro conjI allI impI)
  show "distinct_keys (dm_workers (file_new w d))"
    using assms(1) by (simp add: file_new_def daemon_inv_def distinct_update)
next
  fix key a assume e: "entry (file_new w d) key = Some a"
  then have "(key = worker_key w \<and> a = length (dm_heap d)) \<or> (key \<noteq> worker_key w \<and> entry d key = Some a)"
    by (simp add: file_new_entry split: if_splits)
  then have "a < length (dm_heap (file_new w d)) \<and> worker_key (worker_at (file_new w d) a) = key \<and> wi_ID (worker_at (file_new w d) a) = key"
    using assms by (fastforce simp: file_new_at daemon_inv_def)
  then show "a < length (dm_heap (file_new w d))" "worker_key (worker_at (file_new w d) a) = key"
    "wi_ID (worker_at (file_new w d) a) = key" by simp_all
qed

lemma file_new_filed:
  assumes "filed d" "\<And>b. entry d (worker_key w) = Some b \<Longrightarrow> \<not> live d b"
  shows "filed (file_new w d)"
  unfolding filed_def
proof (intro allI impI)
  fix a assume l: "live (file_new w d) a"
  show "entry (file_new w d) (worker_key (worker_at (file_new w d) a)) = Some a"
  proof (cases "a = length (dm_heap d)")
    case True
    then show ?thesis by (simp add: file_new_entry file_new_at)
  next
    case False
    with l have a: "a < length (dm_heap d)" "live d a" by (auto simp: live_def file_new_at)
    with assms(1) have "entry d (worker_key (worker_at d a)) = Some a" by (simp add: filed_def)
    with a assms(2) show ?thesis by (auto simp: file_new_entry file_new_at)
  qed
qed


lemma config_key_new: "worker_key (worker_begin now config (new_worker now config)) = config_key config"
  "wi_ID (worker_begin now config (new_worker now config)) = config_key config"
  by (simp_all add: worker_key_def config_key_def worker_begin_def new_worker_def set_worker_status_def)

lemma startWorker_file:
  "startWorker now config d =
     (file_new (worker_begin now config (new_worker now config))
        (case entry d (config_key config) of None \<Rightarrow> d | Some a \<Rightarrow> cancel_worker a d))\<lparr>dm_idleStartTime := None\<rparr>"
  by (cases "map_of (dm_workers d) (config_key config)")
    (simp_all add: startWorker_def file_new_def entry_def Let_def config_key_new cancel_worker_def)

lemma idle_irrelevant [simp]:
  "daemon_inv (d\<lparr>dm_idleStartTime := t\<rparr>) = daemon_inv d" "filed (d\<lparr>dm_idleStartTime := t\<rparr>) = filed d"
  "live (d\<lparr>dm_idleStartTime := t\<rparr>) = live d" "entry (d\<lparr>dm_idleStartTime := t\<rparr>) = entry d"
  by (simp_all add: daemon_inv_def filed_def live_def entry_def fun_eq_iff)

lemma startWorker_inv:
  assumes "daemon_inv d"
  shows "daemon_inv (startWorker now config d) \<and> (filed d \<longrightarrow> filed (startWorker now config d))"
proof (cases "entry d (config_key config)")
  case None
  with assms show ?thesis
    by (auto simp: startWorker_file config_key_new intro!: file_new_inv file_new_filed)
next
  case (Some a)
  with assms have a: "a < length (dm_heap d)" by (simp add: daemon_inv_def)
  note c = cancel_worker_inv [OF a]
  show ?thesis
    using assms c Some by (auto simp: startWorker_file config_key_new intro!: file_new_inv file_new_filed)
qed

lemma register_keeps_identity: "keeps_identity (register_existing now rfc3339 params)"
proof -
  have "keeps_identity (register_credentials params)"
    by (simp add: keeps_identity_def register_credentials_def worker_key_def Let_def)
  moreover have "keeps_identity (register_status now rfc3339 params)"
    by (simp add: keeps_identity_def register_status_def Let_def split: option.split)
  ultimately show ?thesis
    by (simp add: keeps_identity_def register_existing_def Let_def split: option.split) (simp add: worker_key_def)
qed

lemma register_new_sel: "wi_ID (register_new now rfc3339 params) = worker_key (register_new now rfc3339 params)"
  "wi_done (register_new now rfc3339 params) = None"
  by (simp_all add: register_new_def worker_key_def Let_def)

lemma keeps_identity_inv:
  assumes "keeps_identity f" "a < length (dm_heap d)"
  shows "(daemon_inv d \<longrightarrow> daemon_inv (upd_worker a f d)) \<and> (filed d \<longrightarrow> filed (upd_worker a f d))"
  using assms by (intro conjI impI daemon_inv_upd filed_upd) (simp_all add: live_def keeps_identity_def)

lemma handleRegister_inv:
  assumes "daemon_inv d"
  shows "daemon_inv (snd (handleRegister now rfc3339 params d)) \<and>
    (filed d \<longrightarrow> filed (snd (handleRegister now rfc3339 params d)))"
proof (cases "params ''username'' = []")
  case True
  with assms show ?thesis by (simp add: handleRegister_def)
next
  case False
  define w where "w = register_new now rfc3339 params"
  show ?thesis
  proof (cases "entry d (wi_ID w)")
    case None
    then have "snd (handleRegister now rfc3339 params d) = file_new w d"
      using False register_new_sel(1) [of now rfc3339 params]
      by (simp add: handleRegister_def entry_def Let_def file_new_def w_def)
    with None assms show ?thesis
      using register_new_sel(1) [of now rfc3339 params] by (auto simp: w_def intro!: file_new_inv file_new_filed)
  next
    case (Some a)
    then have "snd (handleRegister now rfc3339 params d) = upd_worker a (register_existing now rfc3339 params) d"
      using False by (simp add: handleRegister_def entry_def Let_def w_def)
    moreover have "a < length (dm_heap d)" using Some assms by (simp add: daemon_inv_def)
    ultimately show ?thesis using keeps_identity_inv [OF register_keeps_identity] assms by simp
  qed
qed

lemma stop_delete_workers: "dm_workers (stop_delete now key d) = AList.delete key (dm_workers d)"
  by (simp add: stop_delete_def Let_def)

lemma stop_delete_sel:
  "entry (stop_delete now key d) k = (if k = key then None else entry d k)" "dm_heap (stop_delete now key d) = dm_heap d"
  "live (stop_delete now key d) = live d"
  by (simp_all add: stop_delete_workers entry_def store_simps) (simp_all add: stop_delete_def Let_def live_def fun_eq_iff)

lemma stop_delete_inv:
  assumes "daemon_inv d"
  shows "daemon_inv (stop_delete now key d) \<and>
    (filed d \<and> (case entry d key of None \<Rightarrow> True | Some b \<Rightarrow> \<not> live d b) \<longrightarrow> filed (stop_delete now key d))"
proof -
  have "distinct_keys (dm_workers (stop_delete now key d))"
    using assms by (simp add: stop_delete_workers daemon_inv_def distinct_delete)
  then have "daemon_inv (stop_delete now key d)"
    using assms by (simp add: daemon_inv_def stop_delete_sel)
  moreover have "filed (stop_delete now key d)" if "filed d" "case entry d key of None \<Rightarrow> True | Some b \<Rightarrow> \<not> live d b"
    using that by (auto simp: filed_def stop_delete_sel split: option.splits)
  ultimately show ?thesis by blast
qed

lemma dm_step_inv:
  assumes "dm_step s s'" "daemon_inv (dy_d s)" "\<not> dy_raced s \<longrightarrow> filed (dy_d s)"
  shows "daemon_inv (dy_d s') \<and> (\<not> dy_raced s' \<longrightarrow> filed (dy_d s'))"
  using assms(1)
proof cases
  case (start now config)
  then show ?thesis using startWorker_inv assms(2,3) by simp
next
  case (register now rfc3339 params)
  then show ?thesis using handleRegister_inv assms(2,3) by simp
next
  case (cancel a)
  then show ?thesis using cancel_worker_inv assms(2,3) by simp
next
  case (exit a path now)
  then show ?thesis using worker_exit_inv assms(2,3) by simp
next
  case (update a f)
  then show ?thesis using keeps_identity_inv assms(2,3) by simp
next
  case (idle t)
  then show ?thesis using assms(2,3) by simp
next
  case (stop_begin key a)
  moreover from this assms(2) have "a < length (dm_heap (dy_d s))" by (simp add: daemon_inv_def entry_def)
  ultimately show ?thesis using cancel_worker_inv assms(2,3) by simp
next
  case (stop_all_begin key a)
  moreover from this assms(2) have "a < length (dm_heap (dy_d s))" by (simp add: daemon_inv_def entry_def)
  ultimately show ?thesis using cancel_worker_inv assms(2,3) by simp
next
  case (stop_end w key now)
  then show ?thesis
    using stop_delete_inv [OF assms(2), of now key] assms(3) by (auto simp: entry_def split: option.splits)
qed

lemma dm_reach_inv: "dm_reach s \<Longrightarrow> daemon_inv (dy_d s) \<and> (\<not> dy_raced s \<longrightarrow> filed (dy_d s))"
proof (induction rule: dm_reach.induct)
  case (init version pid)
  then show ?case by (simp add: NewDaemon_def daemon_inv_def filed_def live_def entry_def)
next
  case (step s s')
  then show ?case using dm_step_inv by blast
qed


section \<open>Stopping by id\<close>

lemma filter_single:
  assumes "(k, a) \<in> set m" "distinct_keys m" "P a" "\<And>k' b. (k', b) \<in> set m \<Longrightarrow> P b \<Longrightarrow> k' = k"
  shows "filter P (map snd m) = [a]"
proof -
  obtain ys zs where m: "m = ys @ (k, a) # zs" using split_list [OF assms(1)] by blast
  have "\<not> P b" if "(k', b) \<in> set ys \<union> set zs" for k' b
    using that assms(2) assms(4) [of k' b] m by force
  then have "filter P (map snd ys) = []" "filter P (map snd zs) = []" by (fastforce simp: filter_empty_conv)+
  with assms(3) show ?thesis by (simp add: m)
qed

lemma matching_by_id:
  assumes "daemon_inv d" "entry d key = Some a"
    and "CHR ''@'' \<notin> set (wi_Username (worker_at d a))" "CHR '':'' \<notin> set (wi_ServerHost (worker_at d a))"
    and "wi_ServerPort (worker_at d a) \<in> {1..65535}" "wi_RemotePort (worker_at d a) \<in> {1..65535}"
    and "wi_ServerHost (worker_at d a) \<noteq> []"
  shows "matching (parseTargetSpec key) d = [a] \<and> ts_Mode (parseTargetSpec key) = Single"
proof -
  let ?w = "worker_at d a"
  from assms(1,2) have k: "worker_key ?w = key" and dk: "distinct_keys (dm_workers d)" by (auto simp: daemon_inv_def)
  have spec: "parseTargetSpec key = \<lparr>ts_Username = wi_Username ?w, ts_Server = wi_ServerHost ?w,
      ts_ServerPort = wi_ServerPort ?w, ts_RemotePort = wi_RemotePort ?w, ts_Mode = Single\<rparr>"
    using parse_key [OF assms(3,4), of "wi_ServerPort ?w" "wi_RemotePort ?w"] assms(5,6) k
    by (simp add: worker_key_def min_int_def max_int_def)
  have "filter (\<lambda>b. matches_spec (parseTargetSpec key) (worker_at d b)) (map snd (dm_workers d)) = [a]"
  proof (rule filter_single [OF _ dk])
    show "(key, a) \<in> set (dm_workers d)" using assms(2) dk by (simp add: entry_def)
    show "matches_spec (parseTargetSpec key) ?w" by (simp add: spec matches_spec_def matches_all_def)
    fix k' b
    assume "(k', b) \<in> set (dm_workers d)" and m: "matches_spec (parseTargetSpec key) (worker_at d b)"
    then have "worker_key (worker_at d b) = k'" using assms(1) dk by (simp add: daemon_inv_def entry_def)
    moreover have "worker_key (worker_at d b) = worker_key ?w"
      using m assms(5-7) by (auto simp: spec matches_spec_def matches_all_def worker_key_def)
    ultimately show "k' = key" using k by simp
  qed
  then show ?thesis by (simp add: matching_def spec)
qed

lemma stopWorker_sel:
  assumes "a < length (dm_heap d)"
  shows "entry (stopWorker now a key d) k = (if k = key then None else entry d k)"
    "b \<noteq> a \<Longrightarrow> worker_at (stopWorker now a key d) b = worker_at d b"
    "\<not> live (stopWorker now a key d) a"
proof -
  show "entry (stopWorker now a key d) k = (if k = key then None else entry d k)"
    by (simp add: stopWorker_def stop_delete_sel worker_exit_def cancel_worker_def)
  show "b \<noteq> a \<Longrightarrow> worker_at (stopWorker now a key d) b = worker_at d b"
    using assms by (simp add: stopWorker_def stop_delete_sel worker_exit_def cancel_worker_def)
  show "\<not> live (stopWorker now a key d) a"
    using assms by (simp add: stopWorker_def stop_delete_sel) (auto simp: worker_exit_def cancel_worker_def live_def)
qed


section \<open>Workers that fail fast\<close>

lemma worker_round_keeps:
  assumes "worker_round config r (cache, w) = (Some a, cache', w')" "rd_ticks r = []"
  shows "wi_LastRegisterTime w' = wi_LastRegisterTime w \<and> wi_Config w' = wi_Config w \<and>
    wi_ReconnectNeeded w' = wi_ReconnectNeeded w \<and> wi_OfflineCount w' = wi_OfflineCount w \<and>
    wi_Status w' = ''offline'' \<and> wi_LastConnectTime w' = Some (rd_end r)"
  using assms
  by (auto simp: worker_round_def after_tunnel_def set_worker_status_def markWorkerEstablished_def Let_def
      split: option.splits prod.splits if_splits)

lemma worker_round_waits:
  "wi_StatsManager w = Some sm \<Longrightarrow>
   ConnectAndTunnel (rd_start r) (rd_answers r) config cache sm (rd_events r) = ((Some (Some e), t), c) \<Longrightarrow>
   \<not> rd_done r \<Longrightarrow> \<exists>a w'. worker_round config r (cache, w) = (Some a, c, w')"
  by (simp add: worker_round_def after_tunnel_def Let_def)

text \<open>An attempt of less than 30 seconds is over before its ticker fires.\<close>

definition fails_fast :: "round \<Rightarrow> bool" where
  "fails_fast r \<longleftrightarrow> rd_start r \<le> rd_end r \<and> rd_end r < rd_start r + 30 * second"

lemma fast_no_tick: "ticks_ok r \<Longrightarrow> fails_fast r \<Longrightarrow> rd_ticks r = []"
  by (cases "rd_ticks r") (auto simp: ticks_ok_def fails_fast_def)

lemma worker_rounds_keep:
  "worker_rounds config rs (cache, w) = (as, cache', w') \<Longrightarrow> length as = length rs \<Longrightarrow> rs \<noteq> [] \<Longrightarrow>
   list_all ticks_ok rs \<Longrightarrow> list_all fails_fast rs \<Longrightarrow>
   wi_LastRegisterTime w' = wi_LastRegisterTime w \<and> wi_Config w' = wi_Config w \<and>
   wi_ReconnectNeeded w' = wi_ReconnectNeeded w \<and> wi_OfflineCount w' = wi_OfflineCount w \<and>
   wi_Status w' = ''offline'' \<and> wi_LastConnectTime w' = Some (rd_end (last rs))"
proof (induction rs arbitrary: cache w as)
  case (Cons r rs)
  obtain a c1 w1 where r: "worker_round config r (cache, w) = (a, c1, w1)" by (metis prod_cases3)
  with Cons.prems obtain x as1 where x: "a = Some x" "worker_rounds config rs (c1, w1) = (as1, cache', w')" "as = x # as1"
    by (auto split: option.splits prod.splits)
  have "rd_ticks r = []" using fast_no_tick Cons.prems(4,5) by simp
  note k = worker_round_keeps [OF r [unfolded x(1)] this]
  show ?case
  proof (cases "rs = []")
    case True
    with k x show ?thesis by simp
  next
    case False
    with Cons.IH [OF x(2)] Cons.prems(2,4,5) x(3) k show ?thesis by simp
  qed
qed simp


section \<open>Properties\<close>

text \<open>
  C6. Every live worker is filed under its key, so there is at most one per key and every command
  finds it: this holds in all interleavings of starts, registrations, cancellations, exits,
  stops and supervision, unless the deletion that ends a stop has hit the entry of a live
  worker. The keys of the table are always distinct and the ids of its workers.
\<close>

theorem live_worker_filed:
  assumes "dm_reach s" "\<not> dy_raced s" "live (dy_d s) a"
  shows "entry (dy_d s) (worker_key (worker_at (dy_d s) a)) = Some a \<and>
    (\<forall>b. live (dy_d s) b \<and> worker_key (worker_at (dy_d s) b) = worker_key (worker_at (dy_d s) a) \<longrightarrow> b = a) \<and>
    distinct_keys (dm_workers (dy_d s)) \<and> wi_ID (worker_at (dy_d s) a) = worker_key (worker_at (dy_d s) a)"
proof -
  from dm_reach_inv [OF assms(1)] assms(2) have inv: "daemon_inv (dy_d s)" "filed (dy_d s)" by simp_all
  from inv(2) have f: "live (dy_d s) b \<Longrightarrow> entry (dy_d s) (worker_key (worker_at (dy_d s) b)) = Some b" for b
    by (simp add: filed_def)
  have "b = a" if "live (dy_d s) b" "worker_key (worker_at (dy_d s) b) = worker_key (worker_at (dy_d s) a)" for b
    using f [OF that(1)] f [OF assms(3)] that(2) by (metis option.inject)
  moreover have "distinct_keys (dm_workers (dy_d s))" using inv(1) unfolding daemon_inv_def by (rule conjunct1)
  moreover have "wi_ID (worker_at (dy_d s) a) = worker_key (worker_at (dy_d s) a)"
    using daemon_invD [OF inv(1) f [OF assms(3)]] by (rule conjunct2 [THEN conjunct2])
  ultimately show ?thesis using f [OF assms(3)] by blast
qed

abbreviation empty_daemon :: daemon_sys where
  "empty_daemon \<equiv> \<lparr>dy_d = NewDaemon [] 0, dy_stops = [], dy_raced = False\<rparr>"

abbreviation started :: "instant \<Rightarrow> WorkerInfo" where
  "started t \<equiv> worker_begin t sample_config (new_worker t sample_config)"

lemmas daemon_ops = startWorker_def cancel_worker_def worker_exit_def upd_worker_def NewDaemon_def
  stop_delete_def Let_def

lemma one_started:
  "startWorker 0 sample_config (NewDaemon [] 0) =
     \<lparr>dm_workers = [(config_key sample_config, 0)], dm_heap = [started 0], dm_idleStartTime = None, dm_version = [], dm_pid = 0\<rparr>"
  by (simp add: daemon_ops)

lemma started_sel [simp]: "wi_done (started t) = Some False" "wi_cancel (started t) = Some False"
  "worker_key (started t) = config_key sample_config"
  by (simp_all add: worker_begin_def new_worker_def set_worker_status_def worker_key_def config_key_def)

theorem live_worker_filed_witness:
  "entry (startWorker 0 sample_config (NewDaemon [] 0)) (config_key sample_config) = Some 0"
proof -
  have "dm_reach (empty_daemon\<lparr>dy_d := startWorker 0 sample_config (NewDaemon [] 0)\<rparr>)"
    using dm_reach.step [OF dm_reach.init dm_step.start] by simp
  from live_worker_filed [OF this, of 0] show ?thesis by (simp add: one_started live_def)
qed

text \<open>
  C31. A stop can orphan a worker: while \<open>stopWorker\<close> waits for the old worker, a start can file a
  new one under the same key; the deletion by key then removes the new worker's entry. The
  worker goes on running, and no command can reach it any more: to stop all finds nothing.
\<close>

theorem stop_can_orphan:
  "\<exists>s a. dm_reach s \<and> dy_stops s = [] \<and> live (dy_d s) a \<and> dm_workers (dy_d s) = [] \<and>
     handleStopAll now (dy_d s) = (ErrorReply NothingToStop, dy_d s)"
proof -
  let ?k = "config_key sample_config"
  let ?D = "\<lambda>ws h i. \<lparr>dm_workers = ws, dm_heap = h, dm_idleStartTime = i, dm_version = [], dm_pid = 0\<rparr>"
  let ?S = "\<lambda>d st r. \<lparr>dy_d = d, dy_stops = st, dy_raced = r\<rparr>"
  define w1 where "w1 = (started 0)\<lparr>wi_cancel := Some True\<rparr>"
  define w2 where "w2 = (exit_status AfterTunnel 2 w1)\<lparr>wi_done := Some True\<rparr>"
  have w: "wi_cancel w1 = Some True" "wi_done w1 = Some False" "wi_done w2 = Some True" "wi_cancel w2 = Some True"
    "w2\<lparr>wi_cancel := Some True\<rparr> = w2"
    by (simp_all add: w1_def w2_def exit_status_def set_worker_status_def)
  have 1: "dm_reach (?S (?D [(?k, 0)] [started 0] None) [] False)"
    using dm_reach.step [OF dm_reach.init [of "[]" 0] dm_step.start [of _ 0 sample_config]] by (simp add: one_started)
  have 2: "dm_reach (?S (?D [(?k, 0)] [w1] None) [(Some 0, ?k)] False)"
    using dm_reach.step [OF 1 dm_step.stop_begin [of _ ?k 0]] by (simp add: daemon_ops w1_def)
  have 3: "dm_reach (?S (?D [(?k, 0)] [w2] None) [(Some 0, ?k)] False)"
    using dm_reach.step [OF 2 dm_step.exit [of 0 _ AfterTunnel 2]] w by (simp add: daemon_ops w2_def)
  have 4: "dm_reach (?S (?D [(?k, 1)] [w2, started 3] None) [(Some 0, ?k)] False)"
    using dm_reach.step [OF 3 dm_step.start [of _ 3 sample_config]] w by (simp add: daemon_ops)
  let ?s = "?S (?D [] [w2, started 3] (Some 4)) [] True"
  have 5: "dm_reach ?s"
    using dm_reach.step [OF 4 dm_step.stop_end [of "Some 0" ?k _ 4]] w by (simp add: daemon_ops live_def)
  have "live (dy_d ?s) 1" by (simp add: live_def)
  with 5 show ?thesis by (intro exI [of _ ?s] exI [of _ 1]) (simp add: handleStopAll_def)
qed

text \<open>
  C14. Stopping by id is exact: in every reachable state, the stop command for the id of a worker
  (user without @, host without colon, as the checks of a start give them) answers for that
  worker, leaves it dead, removes its entry, and changes no other entry and no other worker.
\<close>

theorem stop_by_id_exact:
  assumes "dm_reach s" "entry (dy_d s) key = Some a"
    and "CHR ''@'' \<notin> set (wi_Username (worker_at (dy_d s) a))" "CHR '':'' \<notin> set (wi_ServerHost (worker_at (dy_d s) a))"
    and "wi_ServerPort (worker_at (dy_d s) a) \<in> {1..65535}" "wi_RemotePort (worker_at (dy_d s) a) \<in> {1..65535}"
    and "wi_ServerHost (worker_at (dy_d s) a) \<noteq> []" "handleProcessAction now key StopAction (dy_d s) = (r, d')"
  shows "r = ActionReply (wi_Username (worker_at (dy_d s) a)) key ''stopped'' \<and> \<not> live d' a \<and>
    (\<forall>k. entry d' k = (if k = key then None else entry (dy_d s) k)) \<and>
    (\<forall>b. b \<noteq> a \<longrightarrow> worker_at d' b = worker_at (dy_d s) b)"
proof -
  let ?d = "dy_d s"
  have inv: "daemon_inv ?d" using dm_reach_inv [OF assms(1)] by simp
  with assms(2) have a: "a < length (dm_heap ?d)" "worker_key (worker_at ?d a) = key" "wi_ID (worker_at ?d a) = key"
    by (auto simp: daemon_inv_def)
  from matching_by_id [OF inv assms(2-7)] have "handleProcessAction now key StopAction ?d = performAction now StopAction a key ?d"
    by (simp add: handleProcessAction_def a)
  with assms(8) have r: "r = ActionReply (wi_Username (worker_at ?d a)) key ''stopped''" "d' = stopWorker now a key ?d"
    by (simp_all add: performAction_def a)
  then show ?thesis using stopWorker_sel [OF a(1)] by auto
qed

theorem stop_by_id_exact_witness:
  "\<exists>r d'. handleProcessAction 5 (config_key sample_config) StopAction (startWorker 0 sample_config (NewDaemon [] 0)) = (r, d') \<and>
     \<not> live d' 0 \<and> entry d' (config_key sample_config) = None"
proof -
  obtain r d' where h: "handleProcessAction 5 (config_key sample_config) StopAction (startWorker 0 sample_config (NewDaemon [] 0)) = (r, d')"
    by fastforce
  have s: "dm_reach (empty_daemon\<lparr>dy_d := startWorker 0 sample_config (NewDaemon [] 0)\<rparr>)"
    using dm_reach.step [OF dm_reach.init dm_step.start] by simp
  have "wi_Username (started 0) = []" "wi_ServerHost (started 0) = ''0.0.0.0''" "wi_ServerPort (started 0) = 20022"
    "wi_RemotePort (started 0) = 8000"
    by (simp_all add: worker_begin_def new_worker_def set_worker_status_def base_config_def getEnv_def getEnvInt_def)
  with stop_by_id_exact [OF s, of "config_key sample_config" 0 5 r d'] h show ?thesis
    by (simp add: one_started entry_def)
qed

text \<open>
  C30. A worker whose attempts fail fast is restarted although it makes progress: its liveness
  time is only set at the start and by a ticker whose first tick comes 30 seconds after the
  start of an attempt, and every attempt is over before that; so a minute after the start a
  tick of the supervisor marks it as lost, even when its last attempt is recent, and the next
  tick starts a new worker, whose count of offline ticks is zero again.
\<close>

theorem fast_failures_restarted:
  assumes "worker_rounds config rs (cache, worker_begin t0 config (new_worker t0 config)) = (as, cache', p)"
    and "length as = length rs" "rs \<noteq> []"
    and "list_all ticks_ok rs" "list_all fails_fast rs"
    and "t0 + minute < t" "t \<le> rd_end (last rs) + 2 * minute"
  shows "\<exists>os p1. supervise_worker t key p = (os, p1) \<and> wi_OfflineCount p1 = 1 \<and>
    (\<forall>t'. fst (supervise_worker t' key p1) = [StartAgain config]) \<and>
    wi_OfflineCount (worker_begin t' config (new_worker t' config)) = 0"
proof -
  have p: "wi_LastRegisterTime p = Some t0" "wi_Config p = Some config" "\<not> wi_ReconnectNeeded p" "wi_OfflineCount p = 0"
    "wi_Status p = ''offline''" "wi_LastConnectTime p = Some (rd_end (last rs))"
    using worker_rounds_keep [OF assms(1-5)] by (simp_all add: worker_begin_def new_worker_def set_worker_status_def)
  have "supervise_worker t key p = mark_lost t key p"
    using p assms(6,7) by (simp add: supervise_worker_def check_alive_def noProgressRestartTimeout_def)
  then obtain os p1 where s: "supervise_worker t key p = (os, p1)" "mark_lost t key p = (os, p1)" by (metis surj_pair)
  then have "wi_OfflineCount p1 = 1" "wi_Status p1 = ''offline''" "wi_ReconnectNeeded p1" "wi_Config p1 = Some config"
    using p by (auto simp: mark_lost_def set_worker_status_def Let_def)
  with s(1) show ?thesis
    by (intro exI [of _ os] exI [of _ p1]) (simp add: supervise_worker_def worker_begin_def new_worker_def set_worker_status_def)
qed

abbreviation later_round :: "round" where
  "later_round \<equiv> rejected_round\<lparr>rd_start := 50 * second, rd_end := 51 * second\<rparr>"

theorem fast_failures_restarted_witness:
  "\<exists>os p1. fst (supervise_worker (91 * second) ''k'' p1) = [StartAgain sample_config] \<and>
     supervise_worker (61 * second) ''k''
       (snd (snd (worker_rounds sample_config [later_round] ([], worker_begin 0 sample_config (new_worker 0 sample_config))))) = (os, p1)"
proof -
  let ?st = "([], worker_begin 0 sample_config (new_worker 0 sample_config))"
  obtain as c p where r: "worker_rounds sample_config [later_round] ?st = (as, c, p)" by (metis prod_cases3)
  have "length as = 1"
  proof -
    obtain t c0 where ct: "ConnectAndTunnel (rd_start later_round) (rd_answers later_round) sample_config []
        (NewStatsManager 0 sample_config True) (rd_events later_round) = ((Some (Some (TCPForwardFailed TcpForwardRejected)), t), c0)"
      by (simp add: ConnectAndTunnel_def establish_def open_connection_def auth_methods_def base_config_def getEnv_def
          dial_defs and_then_def negotiate_compression_def declare_forwards_def setup_tcp_def setupTCPForward_def
          declareTCPForward_def sendForwardRequestWithTimeout_def new_tunnel_def)
    have st: "wi_StatsManager (snd ?st) = Some (NewStatsManager 0 sample_config True)" by (simp add: worker_begin_def)
    from worker_round_waits [OF st ct] obtain a w' where "worker_round sample_config later_round ?st = (Some a, c0, w')" by auto
    with r show ?thesis by auto
  qed
  with fast_failures_restarted [OF r, of "61 * second" "''k''"] r show ?thesis
    by (fastforce simp: duration_defs ticks_ok_def fails_fast_def)
qed

end
