(* ===== verification/Local_Transport.thy ===== *)
theory Local_Transport
  imports Daemon
begin

text \<open>
  The transport between the command line and the daemon: the request and its one line of reply
  (\<open>daemon/transport_unix.go\<close>, \<open>daemon/transport_windows.go\<close>, \<open>daemon/transport_common.go\<close>), the
  place of the socket and the check whether a daemon runs (\<open>base_core/daemon_check*.go\<close>), the
  start and stop of the server on Unix as steps of several processes on one socket file, and
  the accept loop of the named pipe on Windows. Here the JSON codec of the requests and of the
  replies is a parameter; \<open>Wire\<close> gives it. Reading, writing and dialling a socket are system calls and atomic steps.
\<close>

section \<open>Requests and replies\<close>

record Request =
  rq_Cmd :: int
  rq_Params :: params
  rq_Timestamp :: int
  rq_Key :: string

abbreviation nl :: char where "nl \<equiv> CHR 0x0A"

text \<open>\<open>ReadString\<close> of a newline, and the line without it: nothing when the reply has no newline.\<close>

definition read_line :: "string \<Rightarrow> string option" where
  "read_line s = (if nl \<in> set s then Some (takeWhile (\<lambda>c. c \<noteq> nl) s) else None)"

text \<open>
  The server's side of a connection. The daemon answers with the JSON of its reply and a newline,
  \<open>handleConnection\<close> adds another one; a request that cannot be decoded gets no answer.
\<close>

definition handleConnection ::
  "(string \<Rightarrow> Request option) \<Rightarrow> (int \<Rightarrow> params \<Rightarrow> string \<Rightarrow> int \<Rightarrow> 's \<Rightarrow> string \<times> 's) \<Rightarrow> string \<Rightarrow> 's \<Rightarrow> string \<times> 's" where
  "handleConnection dec handler input s =
     (case dec input of
        None \<Rightarrow> ([], s)
      | Some req \<Rightarrow>
          (case handler (rq_Cmd req) (rq_Params req) (rq_Key req) (rq_Timestamp req) s of
             (response, s) \<Rightarrow> (response @ [nl], s)))"

text \<open>What the outside does to an attempt to send: the dial or the write can fail.\<close>

datatype link = DialFails string | WriteFails string | Linked

definition SendCommand ::
  "(string \<Rightarrow> string) \<Rightarrow> (Request \<Rightarrow> string) \<Rightarrow> link \<Rightarrow> (string \<Rightarrow> 's \<Rightarrow> string \<times> 's) \<Rightarrow>
   int \<Rightarrow> params \<Rightarrow> int \<Rightarrow> 's \<Rightarrow> (io_error + string) \<times> 's" where
  "SendCommand sha enc link srv cmd params timestamp s =
     (case link of
        DialFails e \<Rightarrow> (Inl (Errorf e), s)
      | WriteFails e \<Rightarrow> (Inl (Errorf e), s)
      | Linked \<Rightarrow>
          (let req = \<lparr>rq_Cmd = cmd, rq_Params = params, rq_Timestamp = timestamp, rq_Key = EncryptKeyWithTime sha timestamp\<rparr>
           in case srv (enc req @ [nl]) s of
                (out, s) \<Rightarrow> (case read_line out of None \<Rightarrow> (Inl EOF, s) | Some line \<Rightarrow> (Inr line, s))))"

definition SendCommand_windows ::
  "(string \<Rightarrow> string) \<Rightarrow> (Request \<Rightarrow> string) \<Rightarrow> link list \<Rightarrow> (string \<Rightarrow> 's \<Rightarrow> string \<times> 's) \<Rightarrow>
   int \<Rightarrow> params \<Rightarrow> int \<Rightarrow> 's \<Rightarrow> (io_error + string) \<times> 's" where
  "SendCommand_windows sha enc tries srv cmd params timestamp s =
     (case dropWhile (\<lambda>l. l = DialFails ''ERROR_PIPE_BUSY'') (take 10 tries) of
        [] \<Rightarrow> (Inl (Errorf ''ERROR_PIPE_BUSY''), s)
      | DialFails e # _ \<Rightarrow> (Inl (Errorf e), s)
      | WriteFails e # _ \<Rightarrow> (Inl (Errorf e), s)
      | Linked # _ \<Rightarrow>
          (let req = \<lparr>rq_Cmd = cmd, rq_Params = params, rq_Timestamp = timestamp, rq_Key = EncryptKeyWithTime sha timestamp\<rparr>
           in case srv (enc req) s of
                (out, s) \<Rightarrow> (case read_line out of None \<Rightarrow> (Inl EOF, s) | Some line \<Rightarrow> (Inr line, s))))"

text \<open>The daemon behind the transport: the JSON of a reply is \<open>render\<close>.\<close>

definition daemon_handler ::
  "(string \<Rightarrow> string) \<Rightarrow> (string \<Rightarrow> instant option) \<Rightarrow> (reply \<Rightarrow> string) \<Rightarrow> instant \<Rightarrow>
   int \<Rightarrow> params \<Rightarrow> string \<Rightarrow> int \<Rightarrow> Daemon \<Rightarrow> string \<times> Daemon" where
  "daemon_handler sha rfc3339 render now cmd params key timestamp d =
     (case handleTransportCommand sha rfc3339 now cmd params key timestamp d of (r, d) \<Rightarrow> (render r @ [nl], d))"

lemma read_line_append [simp]: "nl \<notin> set s \<Longrightarrow> read_line (s @ nl # r) = Some s"
proof -
  assume "nl \<notin> set s"
  then have "takeWhile (\<lambda>c. c \<noteq> nl) (s @ nl # r) = s" by (induction s) auto
  then show ?thesis by (simp add: read_line_def)
qed

lemma SendCommand_served:
  assumes "dec (enc req @ [nl]) = Some req"
    and "req = \<lparr>rq_Cmd = cmd, rq_Params = params, rq_Timestamp = timestamp, rq_Key = EncryptKeyWithTime sha timestamp\<rparr>"
    and "nl \<notin> set line" "handler cmd params (EncryptKeyWithTime sha timestamp) timestamp s = (line @ [nl], s')"
  shows "SendCommand sha enc Linked (handleConnection dec handler) cmd params timestamp s = (Inr line, s')"
  using assms by (simp add: SendCommand_def handleConnection_def)


section \<open>Where the socket and the PID file are\<close>

text \<open>
  \<open>filepath.Clean\<close> and \<open>filepath.Join\<close> of two names, with slashes. \<open>home\<close> is the result of
  \<open>os.UserHomeDir\<close> (empty for an error), \<open>mkdir\<close> tells whether \<open>os.MkdirAll\<close> succeeds.
\<close>

fun clean_parts :: "bool \<Rightarrow> string list \<Rightarrow> string list \<Rightarrow> string list" where
  "clean_parts rooted st [] = rev st"
| "clean_parts rooted st (p # ps) =
     (if p = [] \<or> p = ''.'' then clean_parts rooted st ps
      else if p = ''..''
      then if st \<noteq> [] \<and> hd st \<noteq> ''..'' then clean_parts rooted (tl st) ps
           else if rooted then clean_parts rooted st ps else clean_parts rooted (p # st) ps
      else clean_parts rooted (p # st) ps)"

definition Clean :: "string \<Rightarrow> string" where
  "Clean path =
     (if path = [] then ''.''
      else let rooted = hd path = CHR ''/'';
               out = join_with (CHR ''/'') (clean_parts rooted [] (split_on (CHR ''/'') path))
           in if rooted then CHR ''/'' # out else if out = [] then ''.'' else out)"

definition Join2 :: "string \<Rightarrow> string \<Rightarrow> string" where
  "Join2 a b = (if a = [] \<and> b = [] then [] else if a = [] then Clean b else if b = [] then Clean a else Clean (a @ ''/'' @ b))"

definition getUserSocketPath :: "string \<Rightarrow> (string \<Rightarrow> bool) \<Rightarrow> string" where
  "getUserSocketPath home mkdir =
     (if home = [] \<or> home = ''/'' then ''/tmp/nssh_daemon.sock''
      else let socketDir = Join2 home ''.nssh''
           in if \<not> mkdir socketDir then ''/tmp/nssh_daemon.sock'' else Join2 socketDir ''daemon.sock'')"

definition GetDaemonSocketPath :: "env \<Rightarrow> string \<Rightarrow> string \<Rightarrow> (string \<Rightarrow> bool) \<Rightarrow> string" where
  "GetDaemonSocketPath env goos home mkdir =
     (let path = env ''NSSH_SOCKET_PATH''
      in if path \<noteq> [] then path
         else if goos \<in> {''darwin'', ''freebsd''} then getUserSocketPath home mkdir
         else if goos = ''linux'' then getUserSocketPath home mkdir
         else if goos = ''windows'' then [CHR 0x5C, CHR 0x5C, CHR ''.'', CHR 0x5C] @ ''pipe'' @ [CHR 0x5C] @ ''nssh_daemon''
         else ''/tmp/nssh_daemon.sock'')"

definition GetDaemonPIDFilePath_unix :: "env \<Rightarrow> string \<Rightarrow> string" where
  "GetDaemonPIDFilePath_unix env home =
     (let path = env ''NSSH_PID_FILE''
      in if path \<noteq> [] then path
         else if home = [] \<or> home = ''/'' then ''/tmp/nssh_daemon.pid''
         else let pidDir = Join2 home ''.nssh'' in Join2 pidDir ''daemon.pid'')"

lemma default_socket_path:
  "GetDaemonSocketPath (\<lambda>_. []) ''linux'' ''/home/me/'' (\<lambda>_. True) = ''/home/me/.nssh/daemon.sock''"
  "GetDaemonPIDFilePath_unix (\<lambda>_. []) ''/home/me/'' = ''/home/me/.nssh/daemon.pid''"
  by code_simp+


section \<open>Several daemons on one socket file\<close>

text \<open>
  The file at the socket path: none, one left behind by a process that is gone, or one on which a
  process listens. The phases of a process in \<open>StartServer\<close> and \<open>Stop\<close> between two system calls;
  \<open>os.Remove\<close> ignores that there is no file, and closing a listener removes the file at its path.
\<close>

datatype sock = NoFile | Stale | Bound nat

datatype phase =
    Begin       \<comment> \<open>before \<open>os.Stat\<close>\<close>
  | Dialing     \<comment> \<open>the file exists, before \<open>net.Dial\<close>\<close>
  | Removing    \<comment> \<open>the dial failed, before \<open>os.Remove\<close>\<close>
  | Binding     \<comment> \<open>before \<open>net.Listen\<close>\<close>
  | Serving     \<comment> \<open>\<open>StartServer\<close> returned nil, connections are accepted\<close>
  | Refused     \<comment> \<open>\<open>StartServer\<close> returned an error\<close>
  | Closing     \<comment> \<open>\<open>Stop\<close> has closed the listener, before \<open>os.Remove\<close>\<close>
  | Gone        \<comment> \<open>stopped or dead\<close>

record host =
  ho_sock :: sock
  ho_procs :: "phase list"
  ho_hit :: bool     \<comment> \<open>the file of another listening process has been removed\<close>
  ho_calm :: bool    \<comment> \<open>no daemon has been stopped or died so far\<close>

definition sock_remove :: "nat \<Rightarrow> host \<Rightarrow> host" where
  "sock_remove i h =
     h\<lparr>ho_hit := (ho_hit h \<or> (case ho_sock h of Bound j \<Rightarrow> j \<noteq> i | _ \<Rightarrow> False)), ho_sock := NoFile\<rparr>"

definition set_phase :: "nat \<Rightarrow> phase \<Rightarrow> host \<Rightarrow> host" where
  "set_phase i p h = h\<lparr>ho_procs := (ho_procs h)[i := p]\<rparr>"

definition StartServer_turn :: "nat \<Rightarrow> host \<Rightarrow> host" where
  "StartServer_turn i h =
     (case ho_procs h ! i of
        Begin \<Rightarrow> set_phase i (if ho_sock h = NoFile then Binding else Dialing) h
      | Dialing \<Rightarrow> (case ho_sock h of Bound j \<Rightarrow> set_phase i Refused h | _ \<Rightarrow> set_phase i Removing h)
      | Removing \<Rightarrow> set_phase i Binding (sock_remove i h)
      | Binding \<Rightarrow>
          if ho_sock h = NoFile then set_phase i Serving (h\<lparr>ho_sock := Bound i\<rparr>) else set_phase i Refused h
      | _ \<Rightarrow> h)"

definition Stop_turn :: "nat \<Rightarrow> host \<Rightarrow> host" where
  "Stop_turn i h =
     (case ho_procs h ! i of
        Serving \<Rightarrow> set_phase i Closing (sock_remove i h)
      | Closing \<Rightarrow> set_phase i Gone (sock_remove i h)
      | _ \<Rightarrow> h)"

definition die :: "nat \<Rightarrow> host \<Rightarrow> host" where
  "die i h = set_phase i Gone (if ho_sock h = Bound i then h\<lparr>ho_sock := Stale\<rparr> else h)"

inductive host_step :: "host \<Rightarrow> host \<Rightarrow> bool" where
  spawn: "host_step h (h\<lparr>ho_procs := ho_procs h @ [Begin]\<rparr>)"
| turn: "i < length (ho_procs h) \<Longrightarrow> host_step h (StartServer_turn i h)"
| stop: "i < length (ho_procs h) \<Longrightarrow> host_step h (Stop_turn i (h\<lparr>ho_calm := False\<rparr>))"
| death: "i < length (ho_procs h) \<Longrightarrow> host_step h (die i (h\<lparr>ho_calm := False\<rparr>))"

definition fresh_host :: host where
  "fresh_host = \<lparr>ho_sock = NoFile, ho_procs = [], ho_hit = False, ho_calm = True\<rparr>"

inductive host_reach :: "host \<Rightarrow> bool" where
  init: "host_reach fresh_host"
| step: "host_reach h \<Longrightarrow> host_step h h' \<Longrightarrow> host_reach h'"

text \<open>\<open>CheckDaemonStatus\<close> on Unix and what uses it.\<close>

datatype DaemonStatus = DaemonNotExist | DaemonRunning | DaemonDead

definition CheckDaemonStatus :: "host \<Rightarrow> DaemonStatus" where
  "CheckDaemonStatus h = (case ho_sock h of NoFile \<Rightarrow> DaemonNotExist | Stale \<Rightarrow> DaemonDead | Bound i \<Rightarrow> DaemonRunning)"

definition IsDaemonRunning :: "host \<Rightarrow> bool" where
  "IsDaemonRunning h \<longleftrightarrow> CheckDaemonStatus h = DaemonRunning"

definition CleanupDeadDaemon :: "string \<Rightarrow> host \<Rightarrow> host" where
  "CleanupDeadDaemon goos h =
     (if CheckDaemonStatus h = DaemonDead then if goos = ''windows'' then h else h\<lparr>ho_sock := NoFile\<rparr> else h)"

definition servers :: "host \<Rightarrow> nat set" where
  "servers h = {i. i < length (ho_procs h) \<and> ho_procs h ! i = Serving}"

definition owner :: "host \<Rightarrow> nat set" where
  "owner h = (case ho_sock h of Bound i \<Rightarrow> {i} | _ \<Rightarrow> {})"

definition host_inv :: "host \<Rightarrow> bool" where
  "host_inv h \<longleftrightarrow>
     owner h \<subseteq> servers h \<and> (\<not> ho_hit h \<longrightarrow> servers h = owner h) \<and>
     (ho_calm h \<longrightarrow> \<not> ho_hit h \<and> ho_sock h \<noteq> Stale \<and> Removing \<notin> set (ho_procs h) \<and> Closing \<notin> set (ho_procs h) \<and>
        (Dialing \<in> set (ho_procs h) \<longrightarrow> ho_sock h \<noteq> NoFile))"

lemma procs_set_phase [simp]:
  "ho_sock (set_phase i p h) = ho_sock h" "ho_hit (set_phase i p h) = ho_hit h" "ho_calm (set_phase i p h) = ho_calm h"
  "length (ho_procs (set_phase i p h)) = length (ho_procs h)" "owner (set_phase i p h) = owner h"
  "i < length (ho_procs h) \<Longrightarrow> servers (set_phase i p h) = (if p = Serving then insert i (servers h) else servers h - {i})"
  by (auto simp: set_phase_def servers_def owner_def nth_list_update split: if_splits)

lemma phase_kept [dest]: "q \<in> set (ho_procs (set_phase i p h)) \<Longrightarrow> q = p \<or> q \<in> set (ho_procs h)"
  by (auto simp: set_phase_def dest: set_update_subset_insert [THEN subsetD])

lemma sock_remove_sel [simp]:
  "ho_sock (sock_remove i h) = NoFile" "ho_procs (sock_remove i h) = ho_procs h" "ho_calm (sock_remove i h) = ho_calm h"
  "servers (sock_remove i h) = servers h" "owner (sock_remove i h) = {}"
  "ho_hit (sock_remove i h) \<longleftrightarrow> ho_hit h \<or> \<not> owner h \<subseteq> {i}"
  by (auto simp: sock_remove_def servers_def owner_def split: sock.splits)

lemma field_sel [simp]:
  "ho_sock (h\<lparr>ho_calm := b\<rparr>) = ho_sock h" "ho_procs (h\<lparr>ho_calm := b\<rparr>) = ho_procs h"
  "servers (h\<lparr>ho_calm := b\<rparr>) = servers h" "servers (h\<lparr>ho_sock := f\<rparr>) = servers h" "owner (h\<lparr>ho_calm := b\<rparr>) = owner h"
  "owner (h\<lparr>ho_sock := NoFile\<rparr>) = {}" "owner (h\<lparr>ho_sock := Stale\<rparr>) = {}" "owner (h\<lparr>ho_sock := Bound i\<rparr>) = {i}"
  "ho_hit (h\<lparr>ho_calm := b\<rparr>) = ho_hit h" "host_inv h \<Longrightarrow> host_inv (h\<lparr>ho_calm := False\<rparr>)"
  by (simp_all add: servers_def owner_def host_inv_def)

lemma sock_owner: "ho_sock h = Bound i \<longleftrightarrow> owner h = {i}" "ho_sock h = NoFile \<Longrightarrow> owner h = {}" "ho_sock h = Stale \<Longrightarrow> owner h = {}"
  by (auto simp: owner_def split: sock.splits)

lemma phase_in_set: "i < length (ho_procs h) \<Longrightarrow> ho_procs h ! i = p \<Longrightarrow> p \<in> set (ho_procs h)"
  by (metis nth_mem)

lemma not_server: "ho_procs h ! i = p \<Longrightarrow> p \<noteq> Serving \<Longrightarrow> i \<notin> servers h"
  by (simp add: servers_def)

lemma StartServer_turn_inv:
  assumes "host_inv h" "i < length (ho_procs h)"
  shows "host_inv (StartServer_turn i h)"
proof (cases "ho_procs h ! i")
  case Begin
  with assms not_server [OF Begin] show ?thesis by (auto simp: StartServer_turn_def host_inv_def)
next
  case Dialing
  with assms not_server [OF Dialing] phase_in_set [OF assms(2) Dialing] show ?thesis
    by (auto simp: StartServer_turn_def host_inv_def split: sock.splits)
next
  case Removing
  with assms not_server [OF Removing] phase_in_set [OF assms(2) Removing] show ?thesis
    by (auto simp: StartServer_turn_def host_inv_def)
next
  case Binding
  with assms not_server [OF Binding] sock_owner(2) [of h] show ?thesis
    by (auto simp: StartServer_turn_def host_inv_def)
qed (use assms in \<open>simp_all add: StartServer_turn_def\<close>)

lemma Stop_turn_inv:
  assumes "host_inv h" "i < length (ho_procs h)" "\<not> ho_calm h"
  shows "host_inv (Stop_turn i h)"
proof (cases "ho_procs h ! i")
  case Serving
  with assms show ?thesis by (auto simp: Stop_turn_def host_inv_def)
next
  case Closing
  with assms not_server [OF Closing] show ?thesis by (auto simp: Stop_turn_def host_inv_def)
qed (use assms in \<open>simp_all add: Stop_turn_def\<close>)

lemma die_inv: "host_inv h \<Longrightarrow> i < length (ho_procs h) \<Longrightarrow> \<not> ho_calm h \<Longrightarrow> host_inv (die i h)"
  by (cases "ho_sock h") (auto simp: die_def host_inv_def sock_owner)

lemma spawn_inv: "host_inv h \<Longrightarrow> host_inv (h\<lparr>ho_procs := ho_procs h @ [Begin]\<rparr>)"
proof -
  have "servers (h\<lparr>ho_procs := ho_procs h @ [Begin]\<rparr>) = servers h" by (auto simp: servers_def nth_append)
  moreover have "owner (h\<lparr>ho_procs := ho_procs h @ [Begin]\<rparr>) = owner h" by (simp add: owner_def)
  ultimately show "host_inv h \<Longrightarrow> ?thesis" by (auto simp: host_inv_def)
qed

lemma host_reach_inv: "host_reach h \<Longrightarrow> host_inv h"
proof (induction rule: host_reach.induct)
  case init
  then show ?case by (simp add: host_inv_def fresh_host_def servers_def owner_def)
next
  case (step h h')
  from step(2) step.IH show ?case
    by cases (simp_all add: spawn_inv StartServer_turn_inv Stop_turn_inv die_inv)
qed


section \<open>The named pipe on Windows\<close>

text \<open>
  The accept loop makes one pipe instance after the other (the system allows one at a time) and a
  goroutine per instance waits for a client; \<open>Stop\<close> closes the stop channel and waits for all of
  them. The waiting group counts the goroutines that have begun and have not ended.
\<close>

datatype acceptor = AccStart | AccCheck | AccCreate | AccSleep | AccDone
datatype pipe_handler = Connecting | Handling | HandlerDone
datatype stopper = NotStopped | WaitingGroup | StopReturned

record pipe_server =
  ps_acceptor :: acceptor
  ps_handlers :: "pipe_handler list"
  ps_ready :: bool
  ps_stop :: stopper

definition wg_count :: "pipe_server \<Rightarrow> nat" where
  "wg_count s = (if ps_acceptor s \<in> {AccStart, AccDone} then 0 else 1) + length (filter (\<lambda>h. h \<noteq> HandlerDone) (ps_handlers s))"

definition acceptLoop_turn :: "bool \<Rightarrow> pipe_server \<Rightarrow> pipe_server" where
  "acceptLoop_turn created s =
     (case ps_acceptor s of
        AccStart \<Rightarrow> s\<lparr>ps_acceptor := AccCheck\<rparr>
      | AccCheck \<Rightarrow> s\<lparr>ps_acceptor := (if ps_stop s \<noteq> NotStopped then AccDone else AccCreate)\<rparr>
      | AccCreate \<Rightarrow>
          if created \<and> list_all (\<lambda>h. h = HandlerDone) (ps_handlers s)
          then s\<lparr>ps_acceptor := AccCheck, ps_handlers := ps_handlers s @ [Connecting], ps_ready := True\<rparr>
          else s\<lparr>ps_acceptor := AccSleep\<rparr>
      | AccSleep \<Rightarrow> s\<lparr>ps_acceptor := AccCheck\<rparr>
      | AccDone \<Rightarrow> s)"

text \<open>\<open>ConnectNamedPipe\<close> returns when a client has connected; then the request is handled.\<close>

definition handleNamedPipe_turn :: "nat \<Rightarrow> pipe_server \<Rightarrow> pipe_server" where
  "handleNamedPipe_turn i s =
     s\<lparr>ps_handlers := (ps_handlers s)[i := (case ps_handlers s ! i of Connecting \<Rightarrow> Handling | _ \<Rightarrow> HandlerDone)]\<rparr>"

inductive pipe_step :: "bool \<Rightarrow> pipe_server \<Rightarrow> pipe_server \<Rightarrow> bool" where
  accept: "pipe_step False s (acceptLoop_turn created s)"
| client: "i < length (ps_handlers s) \<Longrightarrow> ps_handlers s ! i = Connecting \<Longrightarrow> pipe_step True s (handleNamedPipe_turn i s)"
| handled: "i < length (ps_handlers s) \<Longrightarrow> ps_handlers s ! i = Handling \<Longrightarrow> pipe_step False s (handleNamedPipe_turn i s)"
| stop: "ps_stop s = NotStopped \<Longrightarrow> pipe_step False s (s\<lparr>ps_stop := WaitingGroup\<rparr>)"
| stopped: "ps_stop s = WaitingGroup \<Longrightarrow> wg_count s = 0 \<Longrightarrow> pipe_step False s (s\<lparr>ps_stop := StopReturned\<rparr>)"

definition new_pipe :: pipe_server where
  "new_pipe = \<lparr>ps_acceptor = AccStart, ps_handlers = [], ps_ready = False, ps_stop = NotStopped\<rparr>"

inductive pipe_run :: "bool list \<Rightarrow> pipe_server \<Rightarrow> pipe_server \<Rightarrow> bool" where
  none: "pipe_run [] s s"
| more: "pipe_run cs s s' \<Longrightarrow> pipe_step c s' s'' \<Longrightarrow> pipe_run (cs @ [c]) s s''"

inductive_cases pipe_run_snocE: "pipe_run (cs @ [c]) s s''"

lemma wg_count_connecting: "Connecting \<in> set (ps_handlers s) \<Longrightarrow> wg_count s \<noteq> 0"
  by (auto simp: wg_count_def filter_empty_conv)

lemma acceptLoop_keeps: "Connecting \<in> set (ps_handlers s) \<Longrightarrow> Connecting \<in> set (ps_handlers (acceptLoop_turn c s)) \<and> ps_stop (acceptLoop_turn c s) = ps_stop s"
  by (auto simp: acceptLoop_turn_def split: acceptor.splits)

lemma update_other_keeps: "x \<in> set xs \<Longrightarrow> xs ! i \<noteq> x \<Longrightarrow> x \<in> set (xs[i := y])"
  by (metis in_set_conv_nth length_list_update nth_list_update_neq)

lemma pipe_step_keeps:
  assumes "pipe_step False s s'" "Connecting \<in> set (ps_handlers s)" "ps_stop s \<noteq> StopReturned"
  shows "Connecting \<in> set (ps_handlers s') \<and> ps_stop s' \<noteq> StopReturned"
  using assms
proof (cases rule: pipe_step.cases)
  case (handled i)
  with assms show ?thesis by (auto simp: handleNamedPipe_turn_def intro!: update_other_keeps)
qed (use assms wg_count_connecting acceptLoop_keeps in auto)


section \<open>Properties\<close>

text \<open>Runs of the hosts as lists of moves, to evaluate one.\<close>

datatype host_move = Spawn | Turn nat | StopIt nat | Die nat

fun move :: "host_move \<Rightarrow> host \<Rightarrow> host" where
  "move Spawn h = h\<lparr>ho_procs := ho_procs h @ [Begin]\<rparr>"
| "move (Turn i) h = (if i < length (ho_procs h) then StartServer_turn i h else h)"
| "move (StopIt i) h = (if i < length (ho_procs h) then Stop_turn i (h\<lparr>ho_calm := False\<rparr>) else h)"
| "move (Die i) h = (if i < length (ho_procs h) then die i (h\<lparr>ho_calm := False\<rparr>) else h)"

lemma host_reach_move: "host_reach h \<Longrightarrow> host_reach (move m h)"
  by (cases m) (auto intro: host_reach.step host_step.intros)

lemma host_reach_moves: "host_reach h \<Longrightarrow> host_reach (fold move ms h)"
  by (induction ms arbitrary: h) (auto intro: host_reach_move)

lemma servers_finite_list: "servers h = set (filter (\<lambda>i. ho_procs h ! i = Serving) [0..<length (ho_procs h)])"
  by (auto simp: servers_def)

text \<open>
  C11. One daemon per socket: in every interleaving of any number of processes that start, stop and
  die, as long as no process has removed the file of another one that listens, at most one
  process serves, and it is the one that a client reaches; without stops and deaths no file of
  another process is ever removed.
\<close>

theorem one_daemon:
  assumes "host_reach h"
  shows "(ho_calm h \<longrightarrow> \<not> ho_hit h) \<and>
    (\<not> ho_hit h \<longrightarrow> (\<forall>i \<in> servers h. servers h = {i} \<and> ho_sock h = Bound i) \<and> (IsDaemonRunning h \<longleftrightarrow> servers h \<noteq> {}))"
proof (intro conjI impI)
  show "\<not> ho_hit h" if "ho_calm h" using host_reach_inv [OF assms] that by (auto simp: host_inv_def)
  assume "\<not> ho_hit h"
  with host_reach_inv [OF assms] have "servers h = owner h" by (simp add: host_inv_def)
  then show "\<forall>i \<in> servers h. servers h = {i} \<and> ho_sock h = Bound i" "IsDaemonRunning h \<longleftrightarrow> servers h \<noteq> {}"
    by (cases "ho_sock h"; simp add: owner_def IsDaemonRunning_def CheckDaemonStatus_def)+
qed

theorem one_daemon_witness:
  "servers (fold move [Spawn, Spawn, Turn 0, Turn 1, Turn 1, Turn 0] fresh_host) = {1}"
proof -
  let ?h = "fold move [Spawn, Spawn, Turn 0, Turn 1, Turn 1, Turn 0] fresh_host"
  have r: "host_reach ?h" by (rule host_reach_moves) (rule host_reach.init)
  have "ho_calm ?h \<and> 1 \<in> servers ?h" unfolding servers_finite_list by code_simp
  with one_daemon [OF r] show ?thesis by blast
qed

text \<open>
  C32. Two daemons can serve at once. After a daemon has died and left its file, two processes that
  both find the stale file both remove a file before they listen, so the second removes the
  socket of the first. And a daemon that stops removes the file twice, the second time possibly
  that of its successor, after which a third process listens too.
\<close>

theorem two_daemons:
  "(\<exists>h. host_reach h \<and> servers h = {1, 2} \<and> ho_sock h = Bound 2 \<and> ho_procs h ! 0 = Gone \<and> length (ho_procs h) = 3) \<and>
   (\<exists>h. host_reach h \<and> servers h = {1, 2} \<and> ho_sock h = Bound 2 \<and> Refused \<notin> set (ho_procs h) \<and> h = fold move
      [Spawn, Turn 0, Turn 0, StopIt 0, Spawn, Turn 1, Turn 1, StopIt 0, Spawn, Turn 2, Turn 2] fresh_host)"
proof
  let ?h = "fold move [Spawn, Turn 0, Turn 0, Die 0, Spawn, Spawn, Turn 1, Turn 2, Turn 1, Turn 2, Turn 1, Turn 1, Turn 2, Turn 2] fresh_host"
  have "host_reach ?h" by (rule host_reach_moves) (rule host_reach.init)
  moreover have "servers ?h = {1, 2} \<and> ho_sock ?h = Bound 2 \<and> ho_procs ?h ! 0 = Gone \<and> length (ho_procs ?h) = 3"
    unfolding servers_finite_list by code_simp
  ultimately show "\<exists>h. host_reach h \<and> servers h = {1, 2} \<and> ho_sock h = Bound 2 \<and> ho_procs h ! 0 = Gone \<and> length (ho_procs h) = 3"
    by blast
next
  let ?h = "fold move [Spawn, Turn 0, Turn 0, StopIt 0, Spawn, Turn 1, Turn 1, StopIt 0, Spawn, Turn 2, Turn 2] fresh_host"
  have "host_reach ?h" by (rule host_reach_moves) (rule host_reach.init)
  moreover have "servers ?h = {1, 2} \<and> ho_sock ?h = Bound 2 \<and> Refused \<notin> set (ho_procs ?h)"
    unfolding servers_finite_list by code_simp
  ultimately show "\<exists>h. host_reach h \<and> servers h = {1, 2} \<and> ho_sock h = Bound 2 \<and> Refused \<notin> set (ho_procs h) \<and> h = ?h" by blast
qed

text \<open>
  C26. On Windows \<open>Stop\<close> does not return on its own: once the stop has begun while an instance waits
  for a client, it goes on waiting for its goroutines until some client connects, whatever else
  happens.
\<close>

theorem windows_stop_needs_client:
  assumes "pipe_run cs s s'" "True \<notin> set cs" "Connecting \<in> set (ps_handlers s)" "ps_stop s = WaitingGroup"
  shows "ps_stop s' = WaitingGroup \<and> wg_count s' \<noteq> 0"
proof -
  have "Connecting \<in> set (ps_handlers s') \<and> ps_stop s' = WaitingGroup"
    using assms
  proof (induction rule: pipe_run.induct)
    case (more cs s s' c s'')
    then have c: "c = False" and IH: "Connecting \<in> set (ps_handlers s')" "ps_stop s' = WaitingGroup" by auto
    with more.hyps(2) have "Connecting \<in> set (ps_handlers s'')" "ps_stop s'' \<noteq> StopReturned"
      using pipe_step_keeps by auto
    moreover have "ps_stop s'' \<noteq> NotStopped"
      using more.hyps(2) IH(2) by cases (auto simp: acceptLoop_turn_def handleNamedPipe_turn_def split: acceptor.splits)
    ultimately show ?case by (cases "ps_stop s''") auto
  qed simp
  then show ?thesis using wg_count_connecting by simp
qed

lemma ready_pipe:
  "pipe_run [False, False, False] new_pipe
     \<lparr>ps_acceptor = AccCheck, ps_handlers = [Connecting], ps_ready = True, ps_stop = NotStopped\<rparr>"
proof -
  let ?s1 = "new_pipe\<lparr>ps_acceptor := AccCheck\<rparr>"
  let ?s2 = "new_pipe\<lparr>ps_acceptor := AccCreate\<rparr>"
  have "pipe_step False new_pipe ?s1" using pipe_step.accept [of new_pipe True] by (simp add: acceptLoop_turn_def new_pipe_def)
  moreover have "pipe_step False ?s1 ?s2" using pipe_step.accept [of ?s1 True] by (simp add: acceptLoop_turn_def new_pipe_def)
  moreover have "pipe_step False ?s2 \<lparr>ps_acceptor = AccCheck, ps_handlers = [Connecting], ps_ready = True, ps_stop = NotStopped\<rparr>"
    using pipe_step.accept [of ?s2 True] by (simp add: acceptLoop_turn_def new_pipe_def)
  ultimately show ?thesis
    using pipe_run.more [OF pipe_run.more [OF pipe_run.more [OF pipe_run.none]]] by fastforce
qed

theorem windows_stop_needs_client_witness:
  "\<exists>s. pipe_run [False, False, False] new_pipe (s\<lparr>ps_stop := NotStopped\<rparr>) \<and> pipe_step False (s\<lparr>ps_stop := NotStopped\<rparr>) s \<and>
     ps_stop s = WaitingGroup \<and> ps_stop (acceptLoop_turn True s) = WaitingGroup \<and> wg_count (acceptLoop_turn True s) \<noteq> 0"
proof -
  let ?s = "\<lparr>ps_acceptor = AccCheck, ps_handlers = [Connecting], ps_ready = True, ps_stop = WaitingGroup\<rparr>"
  have "pipe_run [False] ?s (acceptLoop_turn True ?s)" using pipe_run.more [OF pipe_run.none pipe_step.accept] by fastforce
  from windows_stop_needs_client [OF this] have "ps_stop (acceptLoop_turn True ?s) = WaitingGroup \<and> wg_count (acceptLoop_turn True ?s) \<noteq> 0"
    by simp
  moreover have "pipe_step False (?s\<lparr>ps_stop := NotStopped\<rparr>) ?s" using pipe_step.stop [of "?s\<lparr>ps_stop := NotStopped\<rparr>"] by simp
  ultimately show ?thesis using ready_pipe by (intro exI [of _ ?s]) simp
qed

end
