(* ===== verification/Cli.thy ===== *)
theory Cli
  imports Local_Transport "HOL-Library.Multiset"
begin

text \<open>
  The command line (\<open>main.go\<close>): the flags and the positional argument, the choice of what to do,
  the configuration of a new tunnel, and the commands it sends to the daemon. The parsing of the
  flags is that of the package pflag: the model starts from the values of the flags and the
  positional arguments. Printing is a value of a datatype; starting and killing processes and the
  sleeps are not modelled.
\<close>

section \<open>Flags and the positional argument\<close>

record flags =
  fg_version :: bool
  fg_daemon :: bool
  fg_daemon_inner :: bool
  fg_list :: bool
  fg_list_json :: bool
  fg_restart :: string
  fg_stop :: string
  fg_log :: string
  fg_stop_all :: bool
  fg_stop_daemon :: bool
  fg_restart_all :: bool
  fg_takeover :: bool
  fg_takeover_force :: bool
  fg_remote :: string
  fg_port :: int
  fg_passwd :: string
  fg_identity :: string
  fg_reconnect :: int
  fg_max_lifetime :: int
  fg_transport :: string
  fg_proto :: string
  fg_compress :: bool

definition default_flags :: flags where
  "default_flags =
     \<lparr>fg_version = False, fg_daemon = False, fg_daemon_inner = False, fg_list = False, fg_list_json = False,
      fg_restart = [], fg_stop = [], fg_log = [], fg_stop_all = False, fg_stop_daemon = False, fg_restart_all = False,
      fg_takeover = False, fg_takeover_force = False, fg_remote = [], fg_port = 0, fg_passwd = [], fg_identity = [],
      fg_reconnect = 30, fg_max_lifetime = 172800, fg_transport = ''auto'', fg_proto = ''both'', fg_compress = True\<rparr>"

text \<open>The environment that the flags are put into, where a variable is not set yet.\<close>

definition set_default :: "string \<Rightarrow> string \<Rightarrow> env \<Rightarrow> env" where
  "set_default key v env = (if env key = [] then env(key := v) else env)"

definition flag_env :: "flags \<Rightarrow> env \<Rightarrow> env" where
  "flag_env f env =
     set_default ''NSSH_COMPRESS'' (if fg_compress f then ''true'' else ''false'')
       (set_default ''NSSH_PROTO'' (fg_proto f) (set_default ''NSSH_TRANSPORT'' (fg_transport f) env))"

definition host_and_port :: "string \<Rightarrow> string \<times> int" where
  "host_and_port s =
     (if CHR '':'' \<in> set s
      then let hostPort = split_n 2 (CHR '':'') s in (hostPort ! 0, port_or_0 (hostPort ! 1))
      else (s, 0))"

definition parsePositionalArgs :: "string list \<Rightarrow> string \<times> string \<times> int" where
  "parsePositionalArgs args =
     (case args of
        [] \<Rightarrow> ([], [], 0)
      | userHost # _ \<Rightarrow>
          if CHR ''@'' \<in> set userHost
          then let parts = split_n 2 (CHR ''@'') userHost in (parts ! 0, host_and_port (parts ! 1))
          else ([], host_and_port userHost))"


section \<open>The configuration of a tunnel\<close>

text \<open>\<open>log.Fatal\<close> ends the program: an error value.\<close>

datatype cli_fatal = LoadFatal fatal | PortConflict | ConfigFatal config_error | TakeoverConflict

text \<open>The copy of the daemon's check that the command line has; it gives the same verdicts.\<close>

definition cli_validateConfig :: "Config \<Rightarrow> config_error option" where
  "cli_validateConfig config =
     (if ServerHost config = [] then Some EmptyServerHost
      else case ParseIP (ServerHost config) of
             IP6 \<Rightarrow> Some ServerHostIPv6
           | ip \<Rightarrow>
               if ip = NotIP \<and> \<not> IsValidDomain (ServerHost config) then Some BadServerHost
               else if \<not> port_ok (ServerPort config) then Some BadServerPort
               else if \<not> port_ok (LocalPort config) then Some BadLocalPort
               else if \<not> port_ok (RemotePort config) then Some BadRemotePort
               else if LocalHost config = [] then Some EmptyLocalHost
               else if LocalHost config \<noteq> ''localhost''
               then if ParseIP (LocalHost config) = IP4 then None else Some BadLocalHost
               else None)"

lemma cli_validateConfig_eq [simp]: "cli_validateConfig = validateConfig"
  by (rule ext) (simp add: cli_validateConfig_def validateConfig_def split: ip_class.split)

definition apply_positional :: "string \<times> string \<times> int \<Rightarrow> Config \<Rightarrow> Config" where
  "apply_positional = (\<lambda>(username, serverHost, serverPort) config.
     (let config = (if username \<noteq> [] then config\<lparr>Username := username\<rparr> else config);
          config = (if serverHost \<noteq> [] then config\<lparr>ServerHost := serverHost\<rparr> else config)
      in if serverPort > 0 then config\<lparr>ServerPort := serverPort\<rparr> else config))"

definition cli_config :: "env \<Rightarrow> string list \<Rightarrow> string \<Rightarrow> flags \<Rightarrow> cli_fatal + Config" where
  "cli_config env args build f =
     (case LoadConfig env args build (fg_remote f) (fg_port f) (fg_passwd f) (fg_identity f) (fg_reconnect f) of
        Inl e \<Rightarrow> Inl (LoadFatal e)
      | Inr config \<Rightarrow>
          (let config = config\<lparr>MaxLifetime := fg_max_lifetime f\<rparr>; pos = parsePositionalArgs args
           in if fg_port f > 0 \<and> snd (snd pos) > 0 then Inl PortConflict
              else let config = apply_positional pos config
                   in case cli_validateConfig config of Some e \<Rightarrow> Inl (ConfigFatal e) | None \<Rightarrow> Inr config))"


section \<open>What to do\<close>

datatype mode =
    FatalExit cli_fatal
  | DaemonInner
  | TakeoverMode bool
  | SendStart Config       \<comment> \<open>the daemon runs\<close>
  | StartDaemonAndSend Config
  | DaemonAlreadyRunning
  | RunDaemon
  | ShowVersion
  | ListJSON
  | ListTarget string
  | ListAll
  | RestartTarget string
  | StopTarget string
  | StopAll
  | StopDaemon
  | RestartAll
  | LogTarget string
  | MissingRemote
  | Foreground Config

text \<open>The block that stands twice in \<open>main\<close>: \<open>--daemon\<close> without a tunnel, and its unreachable copy.\<close>

definition daemon_block :: "bool \<Rightarrow> env \<Rightarrow> string list \<Rightarrow> string \<Rightarrow> flags \<Rightarrow> mode" where
  "daemon_block running env args build f =
     (case cli_config env args build f of
        Inl e \<Rightarrow> FatalExit e
      | Inr config \<Rightarrow>
          if fg_remote f = [] then if running then DaemonAlreadyRunning else RunDaemon else SendStart config)"

definition manage :: "string list \<Rightarrow> flags \<Rightarrow> mode option" where
  "manage args f =
     (if fg_version f then Some ShowVersion
      else if fg_list_json f then Some ListJSON
      else if fg_list f then Some (case args of [] \<Rightarrow> ListAll | a # _ \<Rightarrow> ListTarget a)
      else if fg_restart f \<noteq> [] then Some (RestartTarget (fg_restart f))
      else if fg_stop f \<noteq> [] then Some (StopTarget (fg_stop f))
      else if fg_stop_all f then Some StopAll
      else if fg_stop_daemon f then Some StopDaemon
      else if fg_restart_all f then Some RestartAll
      else if fg_log f \<noteq> [] then Some (LogTarget (fg_log f))
      else None)"

definition main_mode :: "bool \<Rightarrow> env \<Rightarrow> string list \<Rightarrow> string \<Rightarrow> flags \<Rightarrow> mode" where
  "main_mode running env args build f =
     (let env = flag_env f env
      in if fg_daemon_inner f then DaemonInner
         else if fg_takeover f \<or> fg_takeover_force f
         then if fg_takeover f \<and> fg_takeover_force f then FatalExit TakeoverConflict else TakeoverMode (fg_takeover_force f)
         else if fg_daemon f \<and> fg_remote f \<noteq> []
         then (case cli_config env args build f of
                 Inl e \<Rightarrow> FatalExit e
               | Inr config \<Rightarrow> if running then SendStart config else StartDaemonAndSend config)
         else if fg_daemon f then daemon_block running env args build f
         else case manage args f of
                Some m \<Rightarrow> m
              | None \<Rightarrow>
                  if fg_daemon f then daemon_block running env args build f
                  else if fg_remote f = [] then MissingRemote
                  else (case cli_config env args build f of Inl e \<Rightarrow> FatalExit e | Inr config \<Rightarrow> Foreground config))"


section \<open>Starting a tunnel in the daemon\<close>

definition buildStartParams :: "Config \<Rightarrow> params" where
  "buildStartParams config =
     (\<lambda>_. [])(''username'' := Username config, ''server_host'' := ServerHost config,
       ''server_port'' := itoa (ServerPort config), ''local_host'' := LocalHost config,
       ''local_port'' := itoa (LocalPort config), ''remote_port'' := itoa (RemotePort config),
       ''password'' := Password config, ''ssh_key'' := SSHKeyPath config,
       ''reconnect_delay'' := itoa (ReconnectDelay config), ''max_lifetime'' := itoa (MaxLifetime config),
       ''proto'' := Proto config, ''transport'' := Transport config)"

text \<open>What a command prints; \<open>parse\<close> reads the JSON of a reply.\<close>

datatype printed =
    CommandError io_error
  | ParseError
  | ReplyFailed reply_error
  | ReplyShown reply

definition shown :: "(string \<Rightarrow> reply option) \<Rightarrow> io_error + string \<Rightarrow> printed" where
  "shown parse res =
     (case res of
        Inl e \<Rightarrow> CommandError e
      | Inr line \<Rightarrow>
          (case parse line of None \<Rightarrow> ParseError | Some (ErrorReply e) \<Rightarrow> ReplyFailed e | Some r \<Rightarrow> ReplyShown r))"

text \<open>A channel to the daemon: the link, the digest, the codecs, and the daemon's own side.\<close>

record channel =
  ch_sha :: "string \<Rightarrow> string"
  ch_enc :: "Request \<Rightarrow> string"
  ch_dec :: "string \<Rightarrow> Request option"
  ch_render :: "reply \<Rightarrow> string"
  ch_parse :: "string \<Rightarrow> reply option"
  ch_rfc3339 :: "string \<Rightarrow> instant option"

definition ask :: "channel \<Rightarrow> link \<Rightarrow> instant \<Rightarrow> int \<Rightarrow> params \<Rightarrow> int \<Rightarrow> Daemon \<Rightarrow> (io_error + string) \<times> Daemon" where
  "ask ch link now cmd params timestamp d =
     SendCommand (ch_sha ch) (ch_enc ch) link
       (handleConnection (ch_dec ch) (daemon_handler (ch_sha ch) (ch_rfc3339 ch) (ch_render ch) now)) cmd params timestamp d"

definition sendStartCommand :: "channel \<Rightarrow> link \<Rightarrow> instant \<Rightarrow> int \<Rightarrow> Config \<Rightarrow> Daemon \<Rightarrow> printed \<times> Daemon" where
  "sendStartCommand ch link now timestamp config d =
     (case ask ch link now CMD_START (buildStartParams config) timestamp d of (res, d) \<Rightarrow> (shown (ch_parse ch) res, d))"

definition user_params :: "string \<Rightarrow> params" where
  "user_params username = (\<lambda>_. [])(''username'' := username)"

definition sendManagementCommand :: "channel \<Rightarrow> link \<Rightarrow> instant \<Rightarrow> int \<Rightarrow> int \<Rightarrow> string \<Rightarrow> Daemon \<Rightarrow> printed \<times> Daemon" where
  "sendManagementCommand ch link now timestamp cmd username d =
     (case ask ch link now cmd (user_params username) timestamp d of (res, d) \<Rightarrow> (shown (ch_parse ch) res, d))"

definition sendGetCommand :: "channel \<Rightarrow> link \<Rightarrow> instant \<Rightarrow> int \<Rightarrow> string \<Rightarrow> Daemon \<Rightarrow> printed \<times> Daemon" where
  "sendGetCommand ch link now timestamp username d =
     (case ask ch link now CMD_GET_COMMAND (user_params username) timestamp d of (res, d) \<Rightarrow> (shown (ch_parse ch) res, d))"


section \<open>What the daemon makes of a start command\<close>

text \<open>The configuration that arrives in the daemon.\<close>

definition daemon_config :: "Config \<Rightarrow> Config" where
  "daemon_config c =
     c\<lparr>ReconnectDelay := (if ReconnectDelay c \<le> 0 then 30 else ReconnectDelay c), MaxOfflineCount := 0,
       Transport := NormalizeTransport (Transport c), Proto := NormalizeProto (Proto c), Compress := False,
       UDPSocketBuffer := 0, UDPMaxPacketSize := 0, UDPFlowIdleTimeout := 0, Version := []\<rparr>"

definition int_range :: "int \<Rightarrow> bool" where
  "int_range i \<longleftrightarrow> min_int \<le> i \<and> i \<le> max_int"

lemma port_int_range: "port_ok p \<Longrightarrow> int_range p"
  by (simp add: port_ok_def int_range_def min_int_def max_int_def)

lemma parseInt_itoa: "int_range i \<Longrightarrow> parseInt (itoa i) = i"
  by (simp add: parseInt_def int_range_def Atoi_itoa)

lemma validated_ports:
  "validateConfig c = None \<Longrightarrow> port_ok (ServerPort c) \<and> port_ok (LocalPort c) \<and> port_ok (RemotePort c)"
  by (simp add: validateConfig_def split: if_splits)

lemma start_params_config:
  assumes "int_range (ServerPort c)" "int_range (LocalPort c)" "int_range (RemotePort c)"
    and "int_range (ReconnectDelay c)" "int_range (MaxLifetime c)"
  shows "configFromStartParams (buildStartParams c) = daemon_config c"
  using assms by (simp add: configFromStartParams_def buildStartParams_def parseInt_itoa daemon_config_def Let_def)

lemma daemon_config_sel [simp]:
  "validateConfig (daemon_config c) = validateConfig c" "config_key (daemon_config c) = config_key c"
  "Username (daemon_config c) = Username c"
  by (simp_all add: daemon_config_def validateConfig_def config_key_def)

text \<open>
  A request is carried when the codec gives it back on the other side, a reply when it is one
  line that is read back: JSON does so for strings in UTF-8.
\<close>

definition request :: "channel \<Rightarrow> int \<Rightarrow> params \<Rightarrow> int \<Rightarrow> Request" where
  "request ch cmd params timestamp =
     \<lparr>rq_Cmd = cmd, rq_Params = params, rq_Timestamp = timestamp, rq_Key = EncryptKeyWithTime (ch_sha ch) timestamp\<rparr>"

definition carried :: "channel \<Rightarrow> Request \<Rightarrow> bool" where
  "carried ch req \<longleftrightarrow> ch_dec ch (ch_enc ch req @ [nl]) = Some req"

definition answers_with :: "channel \<Rightarrow> reply \<Rightarrow> reply \<Rightarrow> bool" where
  "answers_with ch r r' \<longleftrightarrow> nl \<notin> set (ch_render ch r) \<and> ch_parse ch (ch_render ch r) = Some r'"

definition printed_of :: "reply \<Rightarrow> printed" where
  "printed_of r = (case r of ErrorReply e \<Rightarrow> ReplyFailed e | _ \<Rightarrow> ReplyShown r)"

lemma shown_answer: "answers_with ch r r' \<Longrightarrow> shown (ch_parse ch) (Inr (ch_render ch r)) = printed_of r'"
  by (cases r') (simp_all add: shown_def answers_with_def printed_of_def)

text \<open>One command, seen from the command line: the handler runs once, on the parameters as sent.\<close>

lemma ask_served:
  assumes "carried ch (request ch cmd params timestamp)"
    and "handleTransportCommand (ch_sha ch) (ch_rfc3339 ch) now cmd params (EncryptKeyWithTime (ch_sha ch) timestamp) timestamp d = (r, d')"
    and "answers_with ch r r'"
  shows "ask ch Linked now cmd params timestamp d = (Inr (ch_render ch r), d')"
  unfolding ask_def
proof (rule SendCommand_served)
  show "ch_dec ch (ch_enc ch (request ch cmd params timestamp) @ [nl]) = Some (request ch cmd params timestamp)"
    using assms(1) by (simp add: carried_def)
  show "nl \<notin> set (ch_render ch r)" using assms(3) by (simp add: answers_with_def)
  show "daemon_handler (ch_sha ch) (ch_rfc3339 ch) (ch_render ch) now cmd params (EncryptKeyWithTime (ch_sha ch) timestamp) timestamp d =
      (ch_render ch r @ [nl], d')"
    using assms(2) by (simp add: daemon_handler_def)
qed (simp add: request_def)

lemma ask_failed: "link \<noteq> Linked \<Longrightarrow> \<exists>e. ask ch link now cmd params timestamp d = (Inl e, d)"
  by (cases link) (simp_all add: ask_def SendCommand_def)

lemma handleStart_config:
  assumes "configFromStartParams params = c" "validateConfig c = None"
  shows "handleStart now params d =
    (StartReply (config_key c) (Username c) (entry d (config_key c) \<noteq> None),
     startWorker now c (case entry d (config_key c) of None \<Rightarrow> d | Some a \<Rightarrow> cancel_worker a d))"
  using assms by (simp add: handleStart_def Let_def entry_def)

lemma startWorker_files:
  assumes "daemon_inv d"
  shows "entry (startWorker now c d) k = (if k = config_key c then Some (length (dm_heap d)) else entry d k)"
    "worker_at (startWorker now c d) (length (dm_heap d)) = worker_begin now c (new_worker now c)"
    "length (dm_heap (startWorker now c d)) = Suc (length (dm_heap d))"
    "b < length (dm_heap d) \<Longrightarrow> entry d (config_key c) \<noteq> Some b \<Longrightarrow> worker_at (startWorker now c d) b = worker_at d b"
    "entry d (config_key c) = Some b \<Longrightarrow> \<not> live (startWorker now c d) b"
proof -
  define d1 where "d1 = (case entry d (config_key c) of None \<Rightarrow> d | Some a \<Rightarrow> cancel_worker a d)"
  have bound: "a < length (dm_heap d)" if "entry d (config_key c) = Some a" for a
    using daemon_invD [OF assms that] by simp
  have d1: "entry d1 = entry d" "length (dm_heap d1) = length (dm_heap d)"
    using cancel_worker_inv [OF bound] by (auto simp: d1_def split: option.splits)
  have s: "startWorker now c d = (file_new (worker_begin now c (new_worker now c)) d1)\<lparr>dm_idleStartTime := None\<rparr>"
    unfolding d1_def by (rule startWorker_file)
  show "entry (startWorker now c d) k = (if k = config_key c then Some (length (dm_heap d)) else entry d k)"
    by (simp add: s file_new_entry config_key_new d1)
  show "worker_at (startWorker now c d) (length (dm_heap d)) = worker_begin now c (new_worker now c)"
    using file_new_at(2) [of "worker_begin now c (new_worker now c)" d1] by (simp add: s d1)
  show "length (dm_heap (startWorker now c d)) = Suc (length (dm_heap d))" by (simp add: s file_new_at d1)
  show "worker_at (startWorker now c d) b = worker_at d b"
    if "b < length (dm_heap d)" "entry d (config_key c) \<noteq> Some b"
    using that file_new_at(1) [of b d1] bound
    by (auto simp: s d1) (auto simp: d1_def cancel_worker_def split: option.splits)
  show "\<not> live (startWorker now c d) b" if e: "entry d (config_key c) = Some b"
  proof -
    have "\<not> live d1 b" using cancel_worker_inv [OF bound [OF e]] e by (simp add: d1_def)
    then show ?thesis using bound [OF e] file_new_at(1) [of b d1] by (simp add: s live_def d1 file_new_at)
  qed
qed


lemma cancelled_inv:
  assumes "daemon_inv d"
  shows "daemon_inv (case entry d k of None \<Rightarrow> d | Some a \<Rightarrow> cancel_worker a d)"
    "entry (case entry d k of None \<Rightarrow> d | Some a \<Rightarrow> cancel_worker a d) = entry d"
    "length (dm_heap (case entry d k of None \<Rightarrow> d | Some a \<Rightarrow> cancel_worker a d)) = length (dm_heap d)"
  using assms cancel_worker_inv daemon_invD [OF assms] by (auto split: option.splits)

lemma handleStart_effect:
  assumes "daemon_inv d" "configFromStartParams params = c" "validateConfig c = None" "handleStart now params d = (r, d')"
  shows "r = StartReply (config_key c) (Username c) (entry d (config_key c) \<noteq> None) \<and> daemon_inv d' \<and>
    entry d' (config_key c) = Some (length (dm_heap d)) \<and> (\<forall>k. k \<noteq> config_key c \<longrightarrow> entry d' k = entry d k) \<and>
    worker_at d' (length (dm_heap d)) = worker_begin now c (new_worker now c) \<and> live d' (length (dm_heap d)) \<and>
    length (dm_heap d') = Suc (length (dm_heap d)) \<and>
    (\<forall>b. b < length (dm_heap d) \<and> entry d (config_key c) \<noteq> Some b \<longrightarrow> worker_at d' b = worker_at d b) \<and>
    (\<forall>b. entry d (config_key c) = Some b \<longrightarrow> \<not> live d' b)"
proof -
  define d1 where "d1 = (case entry d (config_key c) of None \<Rightarrow> d | Some a \<Rightarrow> cancel_worker a d)"
  note inv = cancelled_inv [OF assms(1), of "config_key c", folded d1_def]
  have r: "r = StartReply (config_key c) (Username c) (entry d (config_key c) \<noteq> None)" "d' = startWorker now c d1"
    using handleStart_config [OF assms(2,3)] assms(4) by (simp_all add: d1_def)
  note f = startWorker_files [OF inv(1), where now = now and c = c, unfolded inv(2,3)]
  have "live d' (length (dm_heap d))"
    using f(2,3) by (simp add: r live_def worker_begin_def new_worker_def set_worker_status_def)
  moreover have "worker_at d1 b = worker_at d b" if "b < length (dm_heap d)" "entry d (config_key c) \<noteq> Some b" for b
    using that daemon_invD [OF assms(1)] by (auto simp: d1_def cancel_worker_def split: option.splits)
  ultimately show ?thesis using r f startWorker_inv [OF inv(1)] by simp
qed


section \<open>Restarting all tunnels\<close>

definition succeeded :: "printed \<Rightarrow> bool" where
  "succeeded p \<longleftrightarrow> (case p of ReplyShown _ \<Rightarrow> True | _ \<Rightarrow> False)"

text \<open>The restarts one after the other: the links and times of each, the counts of successes and failures.\<close>

fun restart_each ::
  "channel \<Rightarrow> (nat \<Rightarrow> link) \<Rightarrow> (nat \<Rightarrow> instant) \<Rightarrow> int \<Rightarrow> nat \<Rightarrow> string list \<Rightarrow> Daemon \<Rightarrow> (nat \<times> nat) \<times> Daemon" where
  "restart_each ch links nows ts i [] d = ((0, 0), d)"
| "restart_each ch links nows ts i (target # targets) d =
     (case ask ch (links i) (nows i) CMD_RESTART (user_params target) ts d of
        (res, d) \<Rightarrow>
          (case restart_each ch links nows ts (Suc i) targets d of
             ((successCount, failCount), d) \<Rightarrow>
               (if succeeded (shown (ch_parse ch) res) then (Suc successCount, failCount) else (successCount, Suc failCount), d)))"

datatype restart_output = ListFailed printed | NoProcessesShown | NothingToRestart | RestartComplete nat nat

definition restartAllProcesses ::
  "channel \<Rightarrow> link \<Rightarrow> instant \<Rightarrow> (nat \<Rightarrow> link) \<Rightarrow> (nat \<Rightarrow> instant) \<Rightarrow> int \<Rightarrow> Daemon \<Rightarrow> restart_output \<times> Daemon" where
  "restartAllProcesses ch link now links nows ts d =
     (case ask ch link now CMD_LIST (\<lambda>_. []) ts d of
        (res, d) \<Rightarrow>
          (case shown (ch_parse ch) res of
             ReplyShown (ListReply pid version processes) \<Rightarrow>
               if processes = [] then (NothingToRestart, d)
               else (case restart_each ch links nows ts 0 (map wi_ID processes) d of
                       ((successCount, failCount), d) \<Rightarrow> (RestartComplete successCount failCount, d))
           | ReplyShown _ \<Rightarrow> (NoProcessesShown, d)
           | p \<Rightarrow> (ListFailed p, d)))"

text \<open>A worker that its id addresses and that starts again under the same key.\<close>

definition addressable :: "WorkerInfo \<Rightarrow> bool" where
  "addressable w \<longleftrightarrow> CHR ''@'' \<notin> set (wi_Username w) \<and> CHR '':'' \<notin> set (wi_ServerHost w) \<and> wi_ServerHost w \<noteq> [] \<and>
     wi_ServerPort w \<in> {1..65535} \<and> wi_RemotePort w \<in> {1..65535} \<and>
     (case wi_Config w of None \<Rightarrow> True | Some c \<Rightarrow> config_key c = worker_key w)"

lemma restart_config_key: "addressable w \<Longrightarrow> config_key (restart_config w) = worker_key w"
  by (auto simp: addressable_def restart_config_def config_key_def worker_key_def split: option.splits)

lemma stopWorker_inv:
  assumes "daemon_inv d" "entry d key = Some a"
  shows "daemon_inv (stopWorker now a key d)" "length (dm_heap (stopWorker now a key d)) = length (dm_heap d)"
proof -
  have a: "a < length (dm_heap d)" using daemon_invD [OF assms] by simp
  have c: "daemon_inv (cancel_worker a d)" "length (dm_heap (cancel_worker a d)) = length (dm_heap d)"
    using cancel_worker_inv [OF a] assms(1) by auto
  have e: "daemon_inv (worker_exit AfterTunnel now a (cancel_worker a d))" using worker_exit_inv [of a "cancel_worker a d" AfterTunnel now] a c by simp
  show "daemon_inv (stopWorker now a key d)" using stop_delete_inv [OF e] by (simp add: stopWorker_def)
  show "length (dm_heap (stopWorker now a key d)) = length (dm_heap d)"
    using c by (simp add: stopWorker_def stop_delete_sel worker_exit_def)
qed

definition restarted :: "string \<Rightarrow> nat \<Rightarrow> Daemon \<Rightarrow> Daemon \<Rightarrow> bool" where
  "restarted key a d d' \<longleftrightarrow>
     (\<exists>a'. entry d' key = Some a' \<and> length (dm_heap d) \<le> a' \<and> live d' a' \<and>
        wi_Config (worker_at d' a') = Some (restart_config (worker_at d a)) \<and> \<not> live d' a)"

lemma restart_by_id:
  assumes "daemon_inv d" "entry d key = Some a" "addressable (worker_at d a)"
    and "handleProcessAction now key RestartAction d = (r, d')"
  shows "r = ActionReply (wi_Username (worker_at d a)) key ''restarted''" "daemon_inv d'"
    "length (dm_heap d') = Suc (length (dm_heap d))" "entry d' key = Some (length (dm_heap d))"
    "\<And>k. k \<noteq> key \<Longrightarrow> entry d' k = entry d k"
    "\<And>b. b < length (dm_heap d) \<Longrightarrow> b \<noteq> a \<Longrightarrow> worker_at d' b = worker_at d b"
    "restarted key a d d'"
proof -
  let ?w = "worker_at d a" and ?d1 = "stopWorker now a key d"
  let ?c = "restart_config ?w"
  from daemon_invD [OF assms(1,2)] have a: "a < length (dm_heap d)" "worker_key ?w = key" by simp_all
  have key: "config_key ?c = key" using restart_config_key [OF assms(3)] a by simp
  have "handleProcessAction now key RestartAction d = performAction now RestartAction a key d"
    using matching_by_id [OF assms(1,2)] assms(3) a by (simp add: handleProcessAction_def addressable_def)
  with assms(4) have r: "r = ActionReply (wi_Username ?w) key ''restarted''" "d' = startWorker (now + second) ?c ?d1"
    by (simp_all add: performAction_def Let_def)
  note s = stopWorker_sel [OF a(1), where now = now and key = key]
  note i = stopWorker_inv [OF assms(1,2), where now = now]
  note f = startWorker_files [OF i(1), where now = "now + second" and c = ?c, unfolded key i(2)]
  show "r = ActionReply (wi_Username ?w) key ''restarted''" by (rule r)
  show "daemon_inv d'" using startWorker_inv [OF i(1)] by (simp add: r)
  show "length (dm_heap d') = Suc (length (dm_heap d))" by (simp add: r f(3))
  show e: "entry d' key = Some (length (dm_heap d))" by (simp add: r f(1))
  show "entry d' k = entry d k" if "k \<noteq> key" for k using that s(1) by (simp add: r f(1))
  have kept: "worker_at d' b = worker_at ?d1 b" if "b < length (dm_heap d)" for b using that s(1) by (simp add: r f(4))
  then show "worker_at d' b = worker_at d b" if "b < length (dm_heap d)" "b \<noteq> a" for b using that s(2) by simp
  have "\<not> live d' a" using s(3) kept [OF a(1)] a(1) i(2) by (simp add: live_def r f(3))
  moreover have "live d' (length (dm_heap d))" "wi_Config (worker_at d' (length (dm_heap d))) = Some ?c"
    using f(2,3) by (simp_all add: r live_def worker_begin_def new_worker_def set_worker_status_def)
  ultimately show "restarted key a d d'" using e by (auto simp: restarted_def)
qed

lemma restarted_later:
  assumes "restarted key a d d1" "\<And>b. b < length (dm_heap d1) \<Longrightarrow> entry d1 key = Some b \<or> b = a \<Longrightarrow> worker_at d2 b = worker_at d1 b"
    and "entry d2 key = entry d1 key" "length (dm_heap d1) \<le> length (dm_heap d2)" "a < length (dm_heap d1)"
  shows "restarted key a d d2"
  using assms by (fastforce simp: restarted_def live_def)

lemma restart_asked:
  assumes "handleProcessAction now key RestartAction d = (ActionReply u key ''restarted'', d')"
    and "carried ch (request ch CMD_RESTART (user_params key) ts)"
    and "answers_with ch (ActionReply u key ''restarted'') (ActionReply u key ''restarted'')"
  shows "ask ch Linked now CMD_RESTART (user_params key) ts d = (Inr (ch_render ch (ActionReply u key ''restarted'')), d') \<and>
    succeeded (shown (ch_parse ch) (Inr (ch_render ch (ActionReply u key ''restarted''))))"
proof -
  have "handleTransportCommand (ch_sha ch) (ch_rfc3339 ch) now CMD_RESTART (user_params key) (EncryptKeyWithTime (ch_sha ch) ts) ts d =
      (ActionReply u key ''restarted'', d')"
    using assms(1) by (simp add: handleTransportCommand_def cmd_defs user_params_def)
  from ask_served [OF assms(2) this assms(3)] shown_answer [OF assms(3)] show ?thesis
    by (simp add: succeeded_def printed_of_def)
qed

lemma same_worker_same_key: "daemon_inv d \<Longrightarrow> entry d k = Some a \<Longrightarrow> entry d k' = Some a \<Longrightarrow> k = k'"
  using daemon_invD by metis

lemma restart_each_all:
  assumes "daemon_inv d" "distinct ids" "\<And>key. key \<in> set ids \<Longrightarrow> \<exists>a. entry d key = Some a \<and> addressable (worker_at d a)"
    and "\<And>j. links j = Linked" "\<And>key. key \<in> set ids \<Longrightarrow> carried ch (request ch CMD_RESTART (user_params key) ts)"
    and "\<And>key a. key \<in> set ids \<Longrightarrow> entry d key = Some a \<Longrightarrow>
      answers_with ch (ActionReply (wi_Username (worker_at d a)) key ''restarted'') (ActionReply (wi_Username (worker_at d a)) key ''restarted'')"
  shows "\<exists>d'. restart_each ch links nows ts i ids d = ((length ids, 0), d') \<and> length (dm_heap d) \<le> length (dm_heap d') \<and>
    (\<forall>key a. key \<in> set ids \<longrightarrow> entry d key = Some a \<longrightarrow> restarted key a d d') \<and>
    (\<forall>k. k \<notin> set ids \<longrightarrow> entry d' k = entry d k) \<and>
    (\<forall>b. b < length (dm_heap d) \<longrightarrow> (\<forall>key\<in>set ids. entry d key \<noteq> Some b) \<longrightarrow> worker_at d' b = worker_at d b)"
  using assms
proof (induction ids arbitrary: d i)
  case Nil
  then show ?case by simp
next
  case (Cons key ids)
  from Cons.prems(3) obtain a where a: "entry d key = Some a" "addressable (worker_at d a)" by force
  obtain r d1 where h: "handleProcessAction (nows i) key RestartAction d = (r, d1)" by fastforce
  note one = restart_by_id [OF Cons.prems(1) a h]
  note asked = restart_asked [OF h [unfolded one(1)] Cons.prems(5) [OF list.set_intros(1)] Cons.prems(6) [OF list.set_intros(1) a(1)]]
  have bound: "b < length (dm_heap d)" if "entry d k = Some b" for k b using daemon_invD [OF Cons.prems(1) that] by simp
  have other: "entry d1 k = entry d k" "b \<noteq> a" if "k \<in> set ids" "entry d k = Some b" for k b
    using that Cons.prems(2) one(5) [of k] same_worker_same_key [OF Cons.prems(1) a(1)] by auto
  have "\<exists>b. entry d1 k = Some b \<and> addressable (worker_at d1 b)" if k: "k \<in> set ids" for k
  proof -
    from k Cons.prems(3) obtain b where b: "entry d k = Some b" "addressable (worker_at d b)" by force
    with one(6) [OF bound [OF b(1)] other(2) [OF k b(1)]] other(1) [OF k b(1)] show ?thesis by auto
  qed
  moreover have "distinct ids" using Cons.prems(2) by simp
  moreover note Cons.prems(5) [OF list.set_intros(2)]
  moreover have "answers_with ch (ActionReply (wi_Username (worker_at d1 b)) k ''restarted'') (ActionReply (wi_Username (worker_at d1 b)) k ''restarted'')"
    if "k \<in> set ids" "entry d1 k = Some b" for k b
  proof -
    have e: "entry d k = Some b" using that Cons.prems(2) one(5) [of k] by (metis distinct.simps(2))
    with one(6) [OF bound [OF e] other(2) [OF that(1) e]] Cons.prems(6) [of k b] that(1) show ?thesis by simp
  qed
  ultimately obtain d2 where d2:
    "restart_each ch links nows ts (Suc i) ids d1 = ((length ids, 0), d2)" "length (dm_heap d1) \<le> length (dm_heap d2)"
    "\<And>k b. k \<in> set ids \<Longrightarrow> entry d1 k = Some b \<Longrightarrow> restarted k b d1 d2" "\<And>k. k \<notin> set ids \<Longrightarrow> entry d2 k = entry d1 k"
    "\<And>b. b < length (dm_heap d1) \<Longrightarrow> (\<And>k. k \<in> set ids \<Longrightarrow> entry d1 k \<noteq> Some b) \<Longrightarrow> worker_at d2 b = worker_at d1 b"
    using Cons.IH [of d1 "Suc i"] one(2) Cons.prems(4) by blast
  have untouched: "entry d1 k \<noteq> Some b" if "k \<in> set ids" "b = a \<or> b = length (dm_heap d)" for k b
    using that Cons.prems(3) [of k] other [OF that(1)] bound by force
  have "restarted key a d d2"
  proof (rule restarted_later [OF one(7)])
    show "worker_at d2 b = worker_at d1 b" if "b < length (dm_heap d1)" "entry d1 key = Some b \<or> b = a" for b
      using that d2(5) [OF that(1)] untouched one(4) by auto
    show "entry d2 key = entry d1 key" using d2(4) Cons.prems(2) by simp
  qed (use d2(2) one(3) bound [OF a(1)] in auto)
  moreover have "restarted k b d d2" if "k \<in> set ids" "entry d k = Some b" for k b
  proof -
    have "restarted k b d1 d2" using d2(3) other(1) that by simp
    moreover have "worker_at d1 b = worker_at d b" using one(6) bound other that by blast
    ultimately show ?thesis using one(3) by (auto simp: restarted_def)
  qed
  moreover have "entry d2 k = entry d k" if "k \<notin> set (key # ids)" for k using that d2(4) one(5) by simp
  moreover have "worker_at d2 b = worker_at d b" if "b < length (dm_heap d)" "\<forall>k\<in>set (key # ids). entry d k \<noteq> Some b" for b
  proof -
    have "b \<noteq> a" using that(2) a(1) by auto
    moreover have "entry d1 k \<noteq> Some b" if "k \<in> set ids" for k
      using that \<open>\<forall>k\<in>set (key # ids). entry d k \<noteq> Some b\<close> Cons.prems(3) [of k] other(1) [OF that] by force
    ultimately show ?thesis using d2(5) [of b] one(3,6) that(1) by simp
  qed
  moreover have "restart_each ch links nows ts i (key # ids) d = ((length (key # ids), 0), d2)"
    using asked d2(1) Cons.prems(4) by simp
  ultimately show ?case using a(1) d2(2) one(3) by (intro exI [of _ d2]) auto
qed

section \<open>Takeover by a new version\<close>

text \<open>
  The command line asks the old daemon for its workers, kills it, starts a new daemon and sends
  it a start for each worker. \<open>order\<close> is the sorting by start time; the new daemon's state is a
  parameter, an empty one in the usual case. A start that fails is counted like the others.
\<close>

definition takeover_config :: "WorkerInfo \<Rightarrow> Config" where
  "takeover_config w =
     \<lparr>ServerHost = wi_ServerHost w, ServerPort = wi_ServerPort w, Username = wi_Username w, Password = wi_Password w,
      SSHKeyPath = [], LocalHost = wi_LocalHost w, LocalPort = wi_LocalPort w, RemotePort = wi_RemotePort w,
      ReconnectDelay = 0, MaxOfflineCount = 0, MaxLifetime = 0, Transport = [], Proto = [], Compress = False,
      UDPSocketBuffer = 0, UDPMaxPacketSize = 0, UDPFlowIdleTimeout = 0, Version = []\<rparr>"

definition confirmed :: "string \<Rightarrow> bool" where
  "confirmed input \<longleftrightarrow> TrimSpace (ToLower input) \<in> {''y'', ''yes''}"

fun migrate ::
  "channel \<Rightarrow> (nat \<Rightarrow> link) \<Rightarrow> (nat \<Rightarrow> instant) \<Rightarrow> (nat \<Rightarrow> int) \<Rightarrow> nat \<Rightarrow> WorkerInfo list \<Rightarrow> Daemon \<Rightarrow> Daemon" where
  "migrate ch links nows tss i [] d = d"
| "migrate ch links nows tss i (w # ws) d =
     migrate ch links nows tss (Suc i) ws (snd (sendStartCommand ch (links i) (nows i) (tss i) (takeover_config w) d))"

datatype takeover_output = NoRunningDaemon | TakeoverFailed printed | InvalidFormat | Cancelled | Migrated nat nat

definition cli_takeover ::
  "channel \<Rightarrow> bool \<Rightarrow> link \<Rightarrow> instant \<Rightarrow> int \<Rightarrow> bool \<Rightarrow> string \<Rightarrow> (WorkerInfo list \<Rightarrow> WorkerInfo list) \<Rightarrow>
   (nat \<Rightarrow> link) \<Rightarrow> (nat \<Rightarrow> instant) \<Rightarrow> (nat \<Rightarrow> int) \<Rightarrow> Daemon \<Rightarrow> Daemon \<Rightarrow> takeover_output \<times> Daemon" where
  "cli_takeover ch running link now ts force input order links nows tss old new =
     (if \<not> running then (NoRunningDaemon, old)
      else case ask ch link now CMD_TAKEOVER (\<lambda>_. []) ts old of
             (res, old) \<Rightarrow>
               (case shown (ch_parse ch) res of
                  ReplyShown (ExportReply version pid workers) \<Rightarrow>
                    (let workerList = order workers
                     in if \<not> force \<and> \<not> confirmed input then (Cancelled, old)
                        else (Migrated (length workerList) (length workerList), migrate ch links nows tss 0 workerList new))
                | ReplyShown _ \<Rightarrow> (InvalidFormat, old)
                | p \<Rightarrow> (TakeoverFailed p, old)))"

lemma ask_state:
  "carried ch (request ch cmd params ts) \<Longrightarrow>
   snd (ask ch Linked now cmd params ts d) =
     snd (handleTransportCommand (ch_sha ch) (ch_rfc3339 ch) now cmd params (EncryptKeyWithTime (ch_sha ch) ts) ts d)"
  by (simp add: ask_def SendCommand_def carried_def request_def handleConnection_def daemon_handler_def
      split: prod.split option.split)

lemma start_state:
  "carried ch (request ch CMD_START (buildStartParams c) ts) \<Longrightarrow>
   snd (sendStartCommand ch Linked now ts c d) = snd (handleStart now (buildStartParams c) d)"
  using ask_state [of ch CMD_START "buildStartParams c" ts now d]
  by (auto simp: sendStartCommand_def handleTransportCommand_def split: prod.splits)

lemma takeover_key: "config_key (takeover_config w) = worker_key w"
  by (simp add: config_key_def takeover_config_def worker_key_def)

lemma takeover_params:
  assumes "validateConfig (takeover_config w) = None"
  shows "configFromStartParams (buildStartParams (takeover_config w)) = daemon_config (takeover_config w)"
  using validated_ports [OF assms]
  by (intro start_params_config) (simp_all add: port_int_range, simp_all add: takeover_config_def int_range_def min_int_def max_int_def)

definition migrated :: "WorkerInfo \<Rightarrow> Daemon \<Rightarrow> bool" where
  "migrated w d \<longleftrightarrow>
     (\<exists>a. entry d (worker_key w) = Some a \<and> live d a \<and> wi_Config (worker_at d a) = Some (daemon_config (takeover_config w)))"

lemma migrate_one:
  assumes "daemon_inv d" "validateConfig (takeover_config w) = None"
    and "carried ch (request ch CMD_START (buildStartParams (takeover_config w)) ts)"
    and "d' = snd (sendStartCommand ch Linked now ts (takeover_config w) d)"
  shows "daemon_inv d'" "migrated w d'" "\<And>k. k \<noteq> worker_key w \<Longrightarrow> entry d' k = entry d k"
    "\<And>v. migrated v d \<Longrightarrow> worker_key v \<noteq> worker_key w \<Longrightarrow> migrated v d'"
proof -
  obtain r where h: "handleStart now (buildStartParams (takeover_config w)) d = (r, d')"
    using start_state [OF assms(3), of now d] assms(4) by (metis prod.collapse)
  note e = handleStart_effect [OF assms(1) takeover_params [OF assms(2)] _ h, unfolded daemon_config_sel takeover_key, OF assms(2)]
  show "daemon_inv d'" "\<And>k. k \<noteq> worker_key w \<Longrightarrow> entry d' k = entry d k" using e by blast+
  have "wi_Config (worker_begin now c (new_worker now c)) = Some c" for c
    by (simp add: worker_begin_def new_worker_def set_worker_status_def)
  moreover have "entry d' (worker_key w) = Some (length (dm_heap d))" "live d' (length (dm_heap d))"
    "worker_at d' (length (dm_heap d)) =
      worker_begin now (daemon_config (takeover_config w)) (new_worker now (daemon_config (takeover_config w)))"
    using e by blast+
  ultimately show "migrated w d'" by (simp add: migrated_def)
  show "migrated v d'" if v: "migrated v d" "worker_key v \<noteq> worker_key w" for v
  proof -
    from v(1) obtain a where a: "entry d (worker_key v) = Some a" "live d a"
      "wi_Config (worker_at d a) = Some (daemon_config (takeover_config v))"
      unfolding migrated_def by (elim exE conjE) (rule that)
    have "a < length (dm_heap d)" using daemon_invD [OF assms(1) a(1)] by (rule conjunct1)
    moreover have "entry d (worker_key w) \<noteq> Some a"
      using same_worker_same_key [OF assms(1) a(1), of "worker_key w"] v(2) by blast
    ultimately have "worker_at d' a = worker_at d a" "length (dm_heap d') = Suc (length (dm_heap d))"
      "a < length (dm_heap d)" using e by blast+
    moreover have "entry d' (worker_key v) = Some a" using e v(2) a(1) by simp
    ultimately show ?thesis using a unfolding migrated_def by (intro exI [of _ a]) (simp add: live_def)
  qed
qed

lemma migrate_all:
  assumes "daemon_inv d" "distinct (map worker_key ws)" "\<And>w. w \<in> set ws \<Longrightarrow> validateConfig (takeover_config w) = None"
    and "\<And>j. links j = Linked" "\<And>w j. w \<in> set ws \<Longrightarrow> carried ch (request ch CMD_START (buildStartParams (takeover_config w)) (tss j))"
  shows "(\<forall>w \<in> set ws. migrated w (migrate ch links nows tss i ws d)) \<and>
    (\<forall>v. migrated v d \<longrightarrow> worker_key v \<notin> worker_key ` set ws \<longrightarrow> migrated v (migrate ch links nows tss i ws d)) \<and>
    (\<forall>k. k \<notin> worker_key ` set ws \<longrightarrow> entry (migrate ch links nows tss i ws d) k = entry d k)"
  using assms
proof (induction ws arbitrary: d i)
  case Nil
  then show ?case by simp
next
  case (Cons w ws)
  define d1 where "d1 = snd (sendStartCommand ch (links i) (nows i) (tss i) (takeover_config w) d)"
  note one = migrate_one [OF Cons.prems(1) Cons.prems(3) Cons.prems(5) d1_def [unfolded Cons.prems(4)], OF list.set_intros(1) list.set_intros(1)]
  note rest = Cons.IH [OF one(1) _ Cons.prems(3) Cons.prems(4) Cons.prems(5), OF _ list.set_intros(2) list.set_intros(2), of "Suc i"]
  have "worker_key w \<notin> worker_key ` set ws" "distinct (map worker_key ws)" using Cons.prems(2) by auto
  with rest one show ?case by (simp flip: d1_def)
qed

section \<open>Properties\<close>

text \<open>
  A start command through the transport: for a checked configuration, in every reachable state of
  the daemon, the daemon ends up with a running worker filed under the key of the configuration;
  the worker that was filed there is cancelled, no other entry changes. Its configuration has
  the hosts, ports, credentials, lifetime, protocol and transport of the command line; the
  compression is off and the UDP settings, the version and the offline limit are zero, whatever
  the command line and its environment said.
\<close>

theorem start_reaches_daemon:
  assumes "dm_reach s" "validateConfig c = None" "int_range (ReconnectDelay c)" "int_range (MaxLifetime c)"
    and "carried ch (request ch CMD_START (buildStartParams c) ts)"
    and "\<And>old. answers_with ch (StartReply (config_key c) (Username c) old) (StartReply (config_key c) (Username c) old)"
  shows "\<exists>d' a. sendStartCommand ch Linked now ts c (dy_d s) =
      (ReplyShown (StartReply (config_key c) (Username c) (entry (dy_d s) (config_key c) \<noteq> None)), d') \<and>
    entry d' (config_key c) = Some a \<and> live d' a \<and> (\<forall>k. k \<noteq> config_key c \<longrightarrow> entry d' k = entry (dy_d s) k) \<and>
    (\<forall>b. entry (dy_d s) (config_key c) = Some b \<longrightarrow> \<not> live d' b) \<and>
    wi_Config (worker_at d' a) = Some (c\<lparr>ReconnectDelay := (if ReconnectDelay c \<le> 0 then 30 else ReconnectDelay c),
      MaxOfflineCount := 0, Transport := NormalizeTransport (Transport c), Proto := NormalizeProto (Proto c),
      Compress := False, UDPSocketBuffer := 0, UDPMaxPacketSize := 0, UDPFlowIdleTimeout := 0, Version := []\<rparr>)"
proof -
  let ?d = "dy_d s"
  have inv: "daemon_inv ?d" using dm_reach_inv [OF assms(1)] by simp
  have p: "configFromStartParams (buildStartParams c) = daemon_config c"
    using validated_ports [OF assms(2)] assms(3,4) by (intro start_params_config) (simp_all add: port_int_range)
  obtain r d' where h: "handleStart now (buildStartParams c) ?d = (r, d')" by fastforce
  note e = handleStart_effect [OF inv p _ h, unfolded daemon_config_sel, OF assms(2)]
  then have "ask ch Linked now CMD_START (buildStartParams c) ts ?d = (Inr (ch_render ch r), d')"
    using assms(5,6) h by (intro ask_served) (simp_all add: handleTransportCommand_def)
  then have "sendStartCommand ch Linked now ts c ?d = (ReplyShown r, d')"
    using shown_answer [OF assms(6)] e by (simp add: sendStartCommand_def printed_of_def)
  with e show ?thesis
    by (intro exI [of _ d'] exI [of _ "length (dm_heap ?d)"])
      (simp add: worker_begin_def new_worker_def set_worker_status_def daemon_config_def)
qed

text \<open>A codec for one request and replies that name a start, for the witnesses.\<close>

definition start_text :: "reply \<Rightarrow> string" where
  "start_text r = (case r of StartReply _ _ old \<Rightarrow> if old then ''old'' else ''new'' | _ \<Rightarrow> ''?'')"

definition start_channel :: "Config \<Rightarrow> int \<Rightarrow> channel" where
  "start_channel c ts =
     \<lparr>ch_sha = id, ch_enc = (\<lambda>_. ''start''),
      ch_dec = (\<lambda>s. if s = ''start'' @ [nl]
        then Some \<lparr>rq_Cmd = CMD_START, rq_Params = buildStartParams c, rq_Timestamp = ts, rq_Key = EncryptKeyWithTime id ts\<rparr> else None),
      ch_render = start_text,
      ch_parse = (\<lambda>s. if s = ''old'' then Some (StartReply (config_key c) (Username c) True)
        else if s = ''new'' then Some (StartReply (config_key c) (Username c) False) else None),
      ch_rfc3339 = (\<lambda>_. None)\<rparr>"

lemma start_channel_ok:
  "carried (start_channel c ts) (request (start_channel c ts) CMD_START (buildStartParams c) ts)"
  "answers_with (start_channel c ts) (StartReply (config_key c) (Username c) old) (StartReply (config_key c) (Username c) old)"
  by (simp_all add: carried_def request_def start_channel_def answers_with_def start_text_def)

definition web_config :: Config where
  "web_config = (base_config (\<lambda>_. []))\<lparr>ServerHost := ''10.0.0.1'', Username := ''me'', Proto := ''udp''\<rparr>"

lemma web_config_valid: "validateConfig web_config = None"
  by code_simp

theorem start_reaches_daemon_witness:
  "\<exists>d' a. sendStartCommand (start_channel web_config 7) Linked 5 7 web_config (NewDaemon [] 0) =
     (ReplyShown (StartReply (config_key web_config) ''me'' False), d') \<and> entry d' (config_key web_config) = Some a \<and> live d' a"
proof -
  have i: "int_range (ReconnectDelay web_config)" "int_range (MaxLifetime web_config)"
    by (simp_all add: web_config_def base_config_def getEnvInt_def int_range_def min_int_def max_int_def)
  have "entry (NewDaemon [] 0) (config_key web_config) = None" by (simp add: NewDaemon_def entry_def)
  moreover obtain d' a where "sendStartCommand (start_channel web_config 7) Linked 5 7 web_config (NewDaemon [] 0) =
      (ReplyShown (StartReply (config_key web_config) (Username web_config) (entry (NewDaemon [] 0) (config_key web_config) \<noteq> None)), d')"
    "entry d' (config_key web_config) = Some a" "live d' a"
    using start_reaches_daemon [OF dm_reach.init [of "[]" 0] web_config_valid i start_channel_ok, where now = 5 and ts = 7] by auto
  moreover have "Username web_config = ''me''" by (simp add: web_config_def)
  ultimately show ?thesis by metis
qed


lemma table_ids: "daemon_inv d \<Longrightarrow> map wi_ID (table_workers d) = map fst (dm_workers d)"
  by (auto simp: table_workers_def daemon_inv_def entry_def)

text \<open>
  \<open>--restart-all\<close>: in every reachable state of the daemon whose workers are addressable, in
  whatever order the list names them, every entry gets a new running worker under its old key
  with the configuration of the old one, which is dead afterwards, and the message counts as many
  successes as there are workers and no failure.
\<close>

theorem restart_all_restarts:
  assumes "dm_reach s" "d = dy_d s" "d' = snd (restartAllProcesses ch Linked now (\<lambda>_. Linked) nows ts d)"
    and "dm_workers d \<noteq> []" "\<And>key a. entry d key = Some a \<Longrightarrow> addressable (worker_at d a)"
    and "carried ch (request ch CMD_LIST (\<lambda>_. []) ts)" "answers_with ch (handleList d) (ListReply pid v ps)"
    and "mset (map wi_ID ps) = mset (map wi_ID (table_workers d))"
    and "\<And>key. entry d key \<noteq> None \<Longrightarrow> carried ch (request ch CMD_RESTART (user_params key) ts)"
    and "\<And>key a. entry d key = Some a \<Longrightarrow>
      answers_with ch (ActionReply (wi_Username (worker_at d a)) key ''restarted'') (ActionReply (wi_Username (worker_at d a)) key ''restarted'')"
  shows "fst (restartAllProcesses ch Linked now (\<lambda>_. Linked) nows ts d) = RestartComplete (length (dm_workers d)) 0 \<and>
    (\<forall>key. entry d key = None \<longrightarrow> entry d' key = None) \<and>
    (\<forall>key a. entry d key = Some a \<longrightarrow>
       (\<exists>a'. entry d' key = Some a' \<and> live d' a' \<and> wi_Config (worker_at d' a') = Some (restart_config (worker_at d a)) \<and>
          a' \<noteq> a \<and> \<not> live d' a))"
proof -
  let ?ids = "map wi_ID ps"
  have inv: "daemon_inv d" using dm_reach_inv [OF assms(1)] assms(2) by simp
  have ids: "mset ?ids = mset (map fst (dm_workers d))" using assms(8) by (simp add: table_ids [OF inv])
  then have ids': "distinct ?ids" "length ?ids = length (dm_workers d)" "set ?ids = fst ` set (dm_workers d)"
    using inv mset_eq_imp_distinct_iff [OF ids] mset_eq_length [OF ids] mset_eq_setD [OF ids] by (simp_all add: daemon_inv_def)
  have keys: "key \<in> set ?ids \<longleftrightarrow> entry d key \<noteq> None" for key
    unfolding ids' by (simp add: entry_def map_of_eq_None_iff)
  have "handleTransportCommand (ch_sha ch) (ch_rfc3339 ch) now CMD_LIST (\<lambda>_. []) (EncryptKeyWithTime (ch_sha ch) ts) ts d = (handleList d, d)"
    by (simp add: handleTransportCommand_def cmd_defs)
  from ask_served [OF assms(6) this assms(7)] shown_answer [OF assms(7)]
  have l: "ask ch Linked now CMD_LIST (\<lambda>_. []) ts d = (Inr (ch_render ch (handleList d)), d)"
    "shown (ch_parse ch) (Inr (ch_render ch (handleList d))) = ReplyShown (ListReply pid v ps)"
    by (simp_all add: printed_of_def)
  have *: "\<exists>a. entry d key = Some a \<and> addressable (worker_at d a)" if "key \<in> set ?ids" for key using that keys assms(5) by auto
  obtain d2 where d2: "restart_each ch (\<lambda>_. Linked) nows ts 0 ?ids d = ((length ?ids, 0), d2)"
    "\<And>key a. key \<in> set ?ids \<Longrightarrow> entry d key = Some a \<Longrightarrow> restarted key a d d2"
    "\<And>k. k \<notin> set ?ids \<Longrightarrow> entry d2 k = entry d k"
    using restart_each_all [OF inv ids'(1) *, where links = "\<lambda>_. Linked" and ch = ch and nows = nows and ts = ts and i = 0]
      assms(9,10) keys by (metis (no_types, lifting))
  have "restartAllProcesses ch Linked now (\<lambda>_. Linked) nows ts d = (RestartComplete (length (dm_workers d)) 0, d2)"
    using l d2(1) ids'(2) assms(4) by (auto simp: restartAllProcesses_def)
  moreover have "a' \<noteq> a" if "entry d key = Some a" "length (dm_heap d) \<le> a'" for key a a'
    using daemon_invD [OF inv that(1)] that(2) by auto
  ultimately show ?thesis
    using d2(2,3) keys assms(3) by (fastforce simp: restarted_def)
qed

text \<open>A codec for the list and the restart of one worker, for the witness.\<close>

definition fleet_channel :: "string \<Rightarrow> int \<Rightarrow> Daemon \<Rightarrow> channel" where
  "fleet_channel key ts d =
     \<lparr>ch_sha = id, ch_enc = (\<lambda>r. if rq_Cmd r = CMD_LIST then ''list'' else ''restart''),
      ch_dec = (\<lambda>s. Some (if s = ''list'' @ [nl]
        then \<lparr>rq_Cmd = CMD_LIST, rq_Params = (\<lambda>_. []), rq_Timestamp = ts, rq_Key = EncryptKeyWithTime id ts\<rparr>
        else \<lparr>rq_Cmd = CMD_RESTART, rq_Params = user_params key, rq_Timestamp = ts, rq_Key = EncryptKeyWithTime id ts\<rparr>)),
      ch_render = (\<lambda>r. case r of ActionReply u _ _ \<Rightarrow> CHR ''a'' # u | _ \<Rightarrow> ''list''),
      ch_parse = (\<lambda>s. if s = ''list'' then Some (handleList d) else Some (ActionReply (tl s) key ''restarted'')),
      ch_rfc3339 = (\<lambda>_. None)\<rparr>"


definition web_daemon :: Daemon where
  "web_daemon = startWorker 0 web_config (NewDaemon [] 0)"

lemma web_daemon_sel:
  "dm_reach (empty_daemon\<lparr>dy_d := web_daemon\<rparr>)" "entry web_daemon k = (if k = config_key web_config then Some 0 else None)"
  "worker_at web_daemon 0 = worker_begin 0 web_config (new_worker 0 web_config)" "length (dm_workers web_daemon) = 1"
  "table_workers web_daemon = [worker_begin 0 web_config (new_worker 0 web_config)]"
proof -
  show "dm_reach (empty_daemon\<lparr>dy_d := web_daemon\<rparr>)"
    using dm_reach.step [OF dm_reach.init dm_step.start] by (simp add: web_daemon_def)
qed (simp_all add: web_daemon_def startWorker_def NewDaemon_def entry_def Let_def table_workers_def)

lemma web_worker_addressable: "addressable (worker_begin 0 web_config (new_worker 0 web_config))"
  unfolding addressable_def config_key_new
  by (simp add: worker_begin_def new_worker_def set_worker_status_def)
    (simp add: web_config_def base_config_def getEnvInt_def)

theorem restart_all_restarts_witness:
  "fst (restartAllProcesses (fleet_channel (config_key web_config) 7 web_daemon) Linked 5 (\<lambda>_. Linked) (\<lambda>_. 6) 7 web_daemon) =
     RestartComplete 1 0"
proof -
  let ?ch = "fleet_channel (config_key web_config) 7 web_daemon"
  have ids: "wi_ID (worker_begin 0 web_config (new_worker 0 web_config)) = config_key web_config"
    "wi_Username (worker_begin 0 web_config (new_worker 0 web_config)) = ''me''"
    by (rule config_key_new) (simp add: worker_begin_def new_worker_def set_worker_status_def web_config_def)
  have l: "carried ?ch (request ?ch CMD_LIST (\<lambda>_. []) 7)"
    "carried ?ch (request ?ch CMD_RESTART (user_params (config_key web_config)) 7)"
    by (simp_all add: carried_def request_def fleet_channel_def cmd_defs)
  have a: "answers_with ?ch (handleList web_daemon) (ListReply (dm_pid web_daemon) (dm_version web_daemon) (table_workers web_daemon))"
    "answers_with ?ch (ActionReply ''me'' (config_key web_config) ''restarted'') (ActionReply ''me'' (config_key web_config) ''restarted'')"
    by (simp_all add: answers_with_def fleet_channel_def handleList_def)
  have "fst (restartAllProcesses ?ch Linked 5 (\<lambda>_. Linked) (\<lambda>_. 6) 7 web_daemon) = RestartComplete (length (dm_workers web_daemon)) 0"
  proof (rule restart_all_restarts [THEN conjunct1, OF web_daemon_sel(1) _ refl _ _ l(1) a(1) refl])
    show "web_daemon = dy_d (empty_daemon\<lparr>dy_d := web_daemon\<rparr>)" by simp
    show "dm_workers web_daemon \<noteq> []" using web_daemon_sel(4) by auto
    fix key a
    assume e: "entry web_daemon key = Some a"
    then have k: "key = config_key web_config" "a = 0" by (auto simp: web_daemon_sel split: if_splits)
    show "addressable (worker_at web_daemon a)" unfolding k web_daemon_sel by (rule web_worker_addressable)
    show "answers_with ?ch (ActionReply (wi_Username (worker_at web_daemon a)) key ''restarted'')
        (ActionReply (wi_Username (worker_at web_daemon a)) key ''restarted'')"
      unfolding k web_daemon_sel ids by (rule a(2))
  next
    fix key
    assume "entry web_daemon key \<noteq> None"
    then have "key = config_key web_config" by (auto simp: web_daemon_sel split: if_splits)
    then show "carried ?ch (request ?ch CMD_RESTART (user_params key) 7)" using l(2) by simp
  qed
  then show ?thesis by (simp add: web_daemon_sel)
qed


lemma table_keys: "daemon_inv d \<Longrightarrow> map worker_key (table_workers d) = map fst (dm_workers d)"
  by (auto simp: table_workers_def daemon_inv_def entry_def)

lemma table_entry: "daemon_inv d \<Longrightarrow> entry d key = Some a \<Longrightarrow> worker_at d a \<in> set (table_workers d)"
  by (force simp: table_workers_def entry_def dest: map_of_SomeD)

lemma table_valid:
  "daemon_inv d \<Longrightarrow> (\<And>key a. entry d key = Some a \<Longrightarrow> P (worker_at d a)) \<Longrightarrow> w \<in> set (table_workers d) \<Longrightarrow> P w"
  by (auto simp: table_workers_def entry_def daemon_inv_def)

lemma takeover_drops:
  "LocalHost (daemon_config (takeover_config w)) = wi_LocalHost w" "LocalPort (daemon_config (takeover_config w)) = wi_LocalPort w"
  "Password (daemon_config (takeover_config w)) = wi_Password w" "SSHKeyPath (daemon_config (takeover_config w)) = []"
  "Proto (daemon_config (takeover_config w)) = ''tcp''" "Transport (daemon_config (takeover_config w)) = ''auto''"
  "ReconnectDelay (daemon_config (takeover_config w)) = 30" "MaxLifetime (daemon_config (takeover_config w)) = 0"
proof -
  have "NormalizeProto [] = ''tcp''" "NormalizeTransport [] = ''auto''" by code_simp+
  then show "Proto (daemon_config (takeover_config w)) = ''tcp''" "Transport (daemon_config (takeover_config w)) = ''auto''"
    by (simp_all add: daemon_config_def takeover_config_def)
qed (simp_all add: daemon_config_def takeover_config_def)

text \<open>
  A takeover moves every tunnel to the new daemon, under its key and with its target and password,
  but not as it was: whatever the old worker had, the new one has no private key, forwards only
  TCP, chooses its transport itself, reconnects after 30 seconds and has no maximal lifetime. The
  message counts every tunnel as migrated.
\<close>

theorem takeover_migrates:
  assumes "dm_reach s" "d = dy_d s" "\<And>key a. entry d key = Some a \<Longrightarrow> validateConfig (takeover_config (worker_at d a)) = None"
    and "carried ch (request ch CMD_TAKEOVER (\<lambda>_. []) ts)" "answers_with ch (handleTakeoverExport d) (ExportReply v pid ws)"
    and "mset (map takeover_config ws) = mset (map takeover_config (table_workers d))" "mset (order ws) = mset ws"
    and "force \<or> confirmed input"
    and "\<And>w j. w \<in> set ws \<Longrightarrow> carried ch (request ch CMD_START (buildStartParams (takeover_config w)) (tss j))"
    and "cli_takeover ch True Linked now ts force input order (\<lambda>_. Linked) nows tss d (NewDaemon v' pid') = (out, d')"
  shows "out = Migrated (length (dm_workers d)) (length (dm_workers d)) \<and>
    (\<forall>key. entry d key = None \<longrightarrow> entry d' key = None) \<and>
    (\<forall>key a. entry d key = Some a \<longrightarrow>
       (\<exists>a' c. entry d' key = Some a' \<and> live d' a' \<and> wi_Config (worker_at d' a') = Some c \<and>
          config_key c = key \<and> LocalHost c = wi_LocalHost (worker_at d a) \<and> LocalPort c = wi_LocalPort (worker_at d a) \<and>
          Password c = wi_Password (worker_at d a) \<and> SSHKeyPath c = [] \<and> Proto c = ''tcp'' \<and> Transport c = ''auto'' \<and>
          ReconnectDelay c = 30 \<and> MaxLifetime c = 0))"
proof -
  have inv: "daemon_inv d" using dm_reach_inv [OF assms(1)] assms(2) by simp
  have "handleTransportCommand (ch_sha ch) (ch_rfc3339 ch) now CMD_TAKEOVER (\<lambda>_. []) (EncryptKeyWithTime (ch_sha ch) ts) ts d =
      (handleTakeoverExport d, d)"
    by (simp add: handleTransportCommand_def cmd_defs Daemon.handleTakeover_def VerifyKeyWithTime_def)
  from ask_served [OF assms(4) this assms(5)] shown_answer [OF assms(5)]
  have out: "out = Migrated (length (order ws)) (length (order ws))"
    "d' = migrate ch (\<lambda>_. Linked) nows tss 0 (order ws) (NewDaemon v' pid')"
    using assms(8,10) by (auto simp: cli_takeover_def printed_of_def Let_def)
  have same: "mset (map takeover_config (order ws)) = mset (map takeover_config (table_workers d))" using assms(6,7) by simp
  then have "image_mset config_key (mset (map takeover_config (order ws))) = image_mset config_key (mset (map takeover_config (table_workers d)))"
    by (rule arg_cong)
  then have keys: "mset (map worker_key (order ws)) = mset (map fst (dm_workers d))"
    by (simp add: multiset.map_comp comp_def takeover_key flip: table_keys [OF inv])
  have "distinct (map worker_key (order ws))" using mset_eq_imp_distinct_iff [OF keys] inv by (simp add: daemon_inv_def)
  moreover have kset: "worker_key ` set (order ws) = fst ` set (dm_workers d)" using mset_eq_setD [OF keys] by simp
  have configs: "takeover_config ` set (order ws) = takeover_config ` set (table_workers d)" using mset_eq_setD [OF same] by simp
  have "validateConfig (takeover_config w) = None" if "w \<in> set (order ws)" for w
    using table_valid [OF inv, of "\<lambda>w. validateConfig (takeover_config w) = None"] assms(3) configs that by (metis imageE imageI)
  moreover have "set (order ws) = set ws" using mset_eq_setD [OF assms(7)] .
  moreover have "daemon_inv (NewDaemon v' pid')" by (simp add: NewDaemon_def daemon_inv_def entry_def)
  ultimately have all: "\<And>w. w \<in> set (order ws) \<Longrightarrow> migrated w d'"
    "\<And>k. k \<notin> worker_key ` set (order ws) \<Longrightarrow> entry d' k = entry (NewDaemon v' pid') k"
    using migrate_all [of "NewDaemon v' pid'" "order ws" "\<lambda>_. Linked" ch tss nows 0] assms(9) out(2) by auto
  have "\<exists>a' c. entry d' key = Some a' \<and> live d' a' \<and> wi_Config (worker_at d' a') = Some c \<and>
          config_key c = key \<and> LocalHost c = wi_LocalHost (worker_at d a) \<and> LocalPort c = wi_LocalPort (worker_at d a) \<and>
          Password c = wi_Password (worker_at d a) \<and> SSHKeyPath c = [] \<and> Proto c = ''tcp'' \<and> Transport c = ''auto'' \<and>
          ReconnectDelay c = 30 \<and> MaxLifetime c = 0" if e: "entry d key = Some a" for key a
  proof -
    from configs table_entry [OF inv e] obtain w where w: "w \<in> set (order ws)" "takeover_config w = takeover_config (worker_at d a)"
      by (metis imageE imageI)
    then have k: "worker_key w = key" using daemon_invD [OF inv e] takeover_key by metis
    from all(1) [OF w(1)] obtain a' where a': "entry d' key = Some a'" "live d' a'"
      "wi_Config (worker_at d' a') = Some (daemon_config (takeover_config (worker_at d a)))"
      unfolding migrated_def k w(2) by (elim exE conjE) (rule that)
    moreover have "config_key (daemon_config (takeover_config (worker_at d a))) = key"
      using daemon_invD [OF inv e] by (simp add: takeover_key)
    ultimately show ?thesis
      using takeover_drops [of "worker_at d a"]
      by (intro exI [of _ a'] exI [of _ "daemon_config (takeover_config (worker_at d a))"]) simp
  qed
  moreover have "entry d' key = None" if "entry d key = None" for key
    using that all(2) [of key] kset by (simp add: entry_def map_of_eq_None_iff NewDaemon_def)
  moreover have "length (order ws) = length (dm_workers d)" using arg_cong [OF keys, of size] by simp
  ultimately show ?thesis using out(1) by blast
qed


definition takeover_channel :: "WorkerInfo \<Rightarrow> int \<Rightarrow> Daemon \<Rightarrow> channel" where
  "takeover_channel w ts d =
     \<lparr>ch_sha = id, ch_enc = (\<lambda>r. if rq_Cmd r = CMD_TAKEOVER then ''takeover'' else ''start''),
      ch_dec = (\<lambda>s. Some (if s = ''takeover'' @ [nl]
        then \<lparr>rq_Cmd = CMD_TAKEOVER, rq_Params = (\<lambda>_. []), rq_Timestamp = ts, rq_Key = EncryptKeyWithTime id ts\<rparr>
        else \<lparr>rq_Cmd = CMD_START, rq_Params = buildStartParams (takeover_config w), rq_Timestamp = ts,
              rq_Key = EncryptKeyWithTime id ts\<rparr>)),
      ch_render = (\<lambda>_. ''reply''), ch_parse = (\<lambda>_. Some (handleTakeoverExport d)), ch_rfc3339 = (\<lambda>_. None)\<rparr>"

lemma web_takeover_valid: "validateConfig (takeover_config (worker_begin 0 web_config (new_worker 0 web_config))) = None"
proof -
  have "validateConfig (takeover_config (worker_begin 0 web_config (new_worker 0 web_config))) = validateConfig web_config"
    by (simp add: validateConfig_def takeover_config_def worker_begin_def new_worker_def set_worker_status_def)
  then show ?thesis by (simp add: web_config_valid)
qed

lemma web_proto: "wi_Proto (worker_begin 0 web_config (new_worker 0 web_config)) = ''udp''"
  by (simp add: worker_begin_def new_worker_def set_worker_status_def web_config_def)

theorem takeover_migrates_witness:
  "\<exists>d' a c. snd (cli_takeover (takeover_channel (worker_at web_daemon 0) 7 web_daemon) True Linked 5 7 True [] id
      (\<lambda>_. Linked) (\<lambda>_. 6) (\<lambda>_. 7) web_daemon (NewDaemon [] 1)) = d' \<and> entry d' (config_key web_config) = Some a \<and>
     wi_Config (worker_at d' a) = Some c \<and> Proto c = ''tcp'' \<and> wi_Proto (worker_at web_daemon 0) = ''udp''"
proof -
  let ?w = "worker_at web_daemon 0"
  let ?ch = "takeover_channel ?w 7 web_daemon"
  obtain out d' where t: "cli_takeover ?ch True Linked 5 7 True [] id (\<lambda>_. Linked) (\<lambda>_. 6) (\<lambda>_. 7) web_daemon (NewDaemon [] 1) = (out, d')"
    by fastforce
  have "\<exists>a' c. entry d' (config_key web_config) = Some a' \<and> live d' a' \<and> wi_Config (worker_at d' a') = Some c \<and>
      config_key c = config_key web_config \<and> LocalHost c = wi_LocalHost ?w \<and> LocalPort c = wi_LocalPort ?w \<and>
      Password c = wi_Password ?w \<and> SSHKeyPath c = [] \<and> Proto c = ''tcp'' \<and> Transport c = ''auto'' \<and> ReconnectDelay c = 30 \<and> MaxLifetime c = 0"
  proof (rule takeover_migrates [THEN conjunct2, THEN conjunct2, rule_format, OF web_daemon_sel(1) _ _ _ _ refl _ _ _ t])
    show "web_daemon = dy_d (empty_daemon\<lparr>dy_d := web_daemon\<rparr>)" by simp
    show "validateConfig (takeover_config (worker_at web_daemon a)) = None" if "entry web_daemon key = Some a" for key a
    proof -
      have "a = 0" using that by (simp add: web_daemon_sel split: if_splits)
      then show ?thesis using web_takeover_valid by (simp add: web_daemon_sel)
    qed
    show "carried ?ch (request ?ch CMD_TAKEOVER (\<lambda>_. []) 7)" by (simp add: carried_def request_def takeover_channel_def)
    show "answers_with ?ch (handleTakeoverExport web_daemon) (ExportReply (dm_version web_daemon) (dm_pid web_daemon) (table_workers web_daemon))"
      by (simp add: answers_with_def takeover_channel_def handleTakeoverExport_def)
    show "carried ?ch (request ?ch CMD_START (buildStartParams (takeover_config w)) 7)" if "w \<in> set (table_workers web_daemon)" for w
      using that by (simp add: web_daemon_sel(3,5)) (simp add: carried_def request_def takeover_channel_def cmd_defs)
    show "mset (id (table_workers web_daemon)) = mset (table_workers web_daemon)" by simp
    show "True \<or> confirmed []" by simp
    show "entry web_daemon (config_key web_config) = Some 0" by (simp add: web_daemon_sel)
  qed
  moreover have "wi_Proto ?w = ''udp''" using web_proto by (simp add: web_daemon_sel)
  ultimately show ?thesis using t by (metis snd_conv)
qed

lemma daemon_never_compresses:
  assumes "ConnectAndTunnel now w (daemon_config c) cache sm evs = ((r, t), cache')"
  shows "\<not> tn_compress t"
  using ConnectAndTunnel_uncompressed [OF assms] by (simp add: daemon_config_def)

end
