(* ===== verification/Cli_Session.thy ===== *)
theory Cli_Session
  imports Cli
begin

text \<open>
  More of the command line (\<open>main.go\<close>): the two ways to give the server's port, the command that
  the daemon prints for a tunnel and what running it gives, the loop of the foreground client,
  stopping the daemon and waiting for its end, the table of \<open>--list\<close>. The parser of the flags
  (the package pflag) is a parameter with its documented behaviour as a hypothesis.
\<close>

section \<open>The loop of the foreground client\<close>

text \<open>
  \<open>runClient\<close> and \<open>runClientWithStatsManager\<close>: rounds of \<open>ConnectAndTunnel\<close>, with the reconnect
  delay after an error and none after a nil; the log has the delay of each round. They return,
  always with nil, when the context is done before a round or during a delay. The rounds are
  those of the worker's loop; \<open>rd_done\<close> tells whether the context is done at the end of a round.
\<close>

fun runClient ::
  "Config \<Rightarrow> round list \<Rightarrow> transportCache \<times> StatsManager \<Rightarrow> duration list \<times> bool \<times> transportCache \<times> StatsManager" where
  "runClient config [] (cache, sm) = ([], False, cache, sm)"
| "runClient config (r # rs) (cache, sm) =
     (case ConnectAndTunnel (rd_start r) (rd_answers r) config cache sm (rd_events r) of
        ((res, t), cache) \<Rightarrow>
          (case res of
             None \<Rightarrow> ([], False, cache, tn_stats t)
           | Some err \<Rightarrow>
               (let delay = (case err of Some _ \<Rightarrow> seconds (ReconnectDelay config) | None \<Rightarrow> 0)
                in if rd_done r then ([delay], True, cache, tn_stats t)
                   else (case runClient config rs (cache, tn_stats t) of (ds, rest) \<Rightarrow> (delay # ds, rest)))))"

definition runClientWithStatsManager ::
  "bool \<Rightarrow> Config \<Rightarrow> round list \<Rightarrow> transportCache \<times> StatsManager \<Rightarrow> duration list \<times> bool \<times> transportCache \<times> StatsManager" where
  "runClientWithStatsManager memory config rs st =
     (case st of (cache, sm) \<Rightarrow> runClient config rs (cache, if memory then SetMemoryHook True sm else sm))"

text \<open>
  \<open>runForeground\<close>: a configuration that is refused ends the program, else the loop runs with new
  statistics; \<open>memory\<close> tells whether the build has the memory monitor.
\<close>

definition runForeground ::
  "bool \<Rightarrow> instant \<Rightarrow> env \<Rightarrow> string list \<Rightarrow> string \<Rightarrow> flags \<Rightarrow> round list \<Rightarrow> transportCache \<Rightarrow>
   cli_fatal + (Config \<times> duration list \<times> bool \<times> transportCache \<times> StatsManager)" where
  "runForeground memory now env args build f rs cache =
     (case cli_config env args build f of
        Inl e \<Rightarrow> Inl e
      | Inr config \<Rightarrow>
          Inr (config, runClientWithStatsManager memory config rs (cache, NewStatsManager now config False)))"

text \<open>A round that ends with nil ends because the context is done, so no round follows without a delay.\<close>

lemma runClient_delays:
  "runClient config rs (cache, sm) = (ds, returned, rest) \<Longrightarrow> list_all quiet_round rs \<Longrightarrow>
   (\<forall>d \<in> set ds. d = seconds (ReconnectDelay config)) \<and> \<not> returned"
proof (induction rs arbitrary: cache sm ds)
  case (Cons r rs)
  obtain res t c where ct: "ConnectAndTunnel (rd_start r) (rd_answers r) config cache sm (rd_events r) = ((res, t), c)"
    by (metis surj_pair)
  note cr = ConnectAndTunnel_result [OF ct]
  have nz: "res \<noteq> Some None" using cr Cons.prems(2) by (auto simp: quiet_round_def)
  show ?case
    using Cons.prems ct nz Cons.IH [of c "tn_stats t"]
    by (auto simp: quiet_round_def Let_def split: option.splits prod.splits if_splits)
qed simp

lemma runForeground_delays:
  assumes "runForeground memory now env args build f rs cache = Inr (config, ds, returned, rest)" "list_all quiet_round rs"
  shows "cli_config env args build f = Inr config \<and> (\<forall>d \<in> set ds. d = seconds (ReconnectDelay config)) \<and> \<not> returned"
proof -
  obtain sm where "runClient config rs (cache, sm) = (ds, returned, fst rest, snd rest)"
    using assms(1) by (auto simp: runForeground_def runClientWithStatsManager_def split: sum.splits if_splits)
  from runClient_delays [OF this assms(2)] assms(1) show ?thesis by (auto simp: runForeground_def split: sum.splits)
qed


section \<open>The port of the server\<close>

lemma port_or_0_itoa: "int_range n \<Longrightarrow> port_or_0 (itoa n) = n"
  by (simp add: port_or_0_def Atoi_itoa int_range_def)

lemma host_and_port_given: "CHR '':'' \<notin> set host \<Longrightarrow> int_range n \<Longrightarrow> host_and_port (host @ CHR '':'' # itoa n) = (host, n)"
  by (simp add: host_and_port_def numeral_2_eq_2 split_n_append port_or_0_itoa)

lemma host_and_port_plain: "CHR '':'' \<notin> set host \<Longrightarrow> host_and_port host = (host, 0)"
  by (simp add: host_and_port_def)

lemma positional_user:
  "CHR ''@'' \<notin> set user \<Longrightarrow> parsePositionalArgs [user @ CHR ''@'' # srv] = (user, host_and_port srv)"
  by (simp add: parsePositionalArgs_def numeral_2_eq_2 split_n_append)

lemma LoadConfig_server:
  assumes "CHR ''@'' \<notin> set user"
  shows "LoadConfig env [user @ CHR ''@'' # srv] build rt port pw key rd =
    map_sum id (\<lambda>c. c\<lparr>ServerHost := srv, ServerPort := (if port > 0 then port else ServerPort (base_config env))\<rparr>)
      (LoadConfig env [user @ CHR ''@'' # h] build rt 0 pw key rd)"
proof -
  have s: "split_n 2 (CHR ''@'') (user @ CHR ''@'' # x) = [user, x]" for x
    using assms by (simp add: numeral_2_eq_2 split_n_append)
  show ?thesis
    by (auto simp: LoadConfig_def apply_user_host_def s apply_reverse_tunnel_def apply_flags_def Let_def
        split: sum.splits prod.splits option.splits)
qed


lemma apply_positional_eq:
  "apply_positional (u, h, p) c =
     c\<lparr>Username := (if u \<noteq> [] then u else Username c), ServerHost := (if h \<noteq> [] then h else ServerHost c),
       ServerPort := (if p > 0 then p else ServerPort c)\<rparr>"
  by (cases c) (simp add: apply_positional_def)

lemma cli_config_port:
  assumes "CHR ''@'' \<notin> set user" "CHR '':'' \<notin> set host" "host \<noteq> []" "0 < n" "int_range n"
  shows "cli_config env [user @ CHR ''@'' # host @ CHR '':'' # itoa n] build (f\<lparr>fg_port := 0\<rparr>) =
    cli_config env [user @ CHR ''@'' # host] build (f\<lparr>fg_port := n\<rparr>)"
proof -
  define L where "L = LoadConfig env [user @ CHR ''@'' # []] build (fg_remote f) 0 (fg_passwd f) (fg_identity f) (fg_reconnect f)"
  note server = LoadConfig_server [OF assms(1), where h = "[]" and env = env and build = build and rt = "fg_remote f"
      and pw = "fg_passwd f" and key = "fg_identity f" and rd = "fg_reconnect f", folded L_def]
  have "LoadConfig env [user @ CHR ''@'' # host @ CHR '':'' # itoa n] build (fg_remote f) 0 (fg_passwd f) (fg_identity f) (fg_reconnect f) =
      map_sum id (\<lambda>c. c\<lparr>ServerHost := host @ CHR '':'' # itoa n, ServerPort := ServerPort (base_config env)\<rparr>) L"
    "LoadConfig env [user @ CHR ''@'' # host] build (fg_remote f) n (fg_passwd f) (fg_identity f) (fg_reconnect f) =
      map_sum id (\<lambda>c. c\<lparr>ServerHost := host, ServerPort := n\<rparr>) L"
    using assms(4) server [of _ 0] server [of _ n] by simp_all
  moreover have "apply_positional (user, host, n) (c\<lparr>ServerHost := host @ CHR '':'' # itoa n, ServerPort := q, MaxLifetime := m\<rparr>) =
      apply_positional (user, host, 0) (c\<lparr>ServerHost := host, ServerPort := n, MaxLifetime := m\<rparr>)" for c q m
    using assms(3,4) by (cases c) (simp add: apply_positional_eq)
  ultimately show ?thesis
    using assms(4) positional_user [OF assms(1)] host_and_port_given [OF assms(2,5)] host_and_port_plain [OF assms(2)]
    by (cases L) (simp_all add: cli_config_def Let_def split: option.split)
qed


section \<open>The command that the daemon prints\<close>

text \<open>The settings that occur in it, as words and as what they do to the flags and the arguments.\<close>

datatype setting =
    RemoteOpt string | Positional string | PortOpt int | PasswdOpt string | IdentityOpt string | DaemonOpt | ProtoOpt string

fun setting_words :: "setting \<Rightarrow> string list" where
  "setting_words (RemoteOpt v) = [''-R'', v]"
| "setting_words (Positional v) = [v]"
| "setting_words (PortOpt n) = [''-p'', itoa n]"
| "setting_words (PasswdOpt v) = [''--passwd'', v]"
| "setting_words (IdentityOpt v) = [''-i'', v]"
| "setting_words DaemonOpt = [''--daemon'']"
| "setting_words (ProtoOpt v) = [''--proto'', v]"

fun apply_setting :: "setting \<Rightarrow> flags \<times> string list \<Rightarrow> flags \<times> string list" where
  "apply_setting (RemoteOpt v) (f, as) = (f\<lparr>fg_remote := v\<rparr>, as)"
| "apply_setting (Positional v) (f, as) = (f, as @ [v])"
| "apply_setting (PortOpt n) (f, as) = (f\<lparr>fg_port := n\<rparr>, as)"
| "apply_setting (PasswdOpt v) (f, as) = (f\<lparr>fg_passwd := v\<rparr>, as)"
| "apply_setting (IdentityOpt v) (f, as) = (f\<lparr>fg_identity := v\<rparr>, as)"
| "apply_setting DaemonOpt (f, as) = (f\<lparr>fg_daemon := True\<rparr>, as)"
| "apply_setting (ProtoOpt v) (f, as) = (f\<lparr>fg_proto := v\<rparr>, as)"

definition plain_setting :: "setting \<Rightarrow> bool" where
  "plain_setting s = (case s of Positional v \<Rightarrow> v \<noteq> [] \<and> hd v \<noteq> CHR ''-'' | PortOpt n \<Rightarrow> int_range n | _ \<Rightarrow> True)"

text \<open>
  The documented behaviour of the flag parser: an option takes the next word as its value, other
  words that do not begin with a dash are the positional arguments, in any order with the options.
\<close>

definition pflag_ok :: "(string list \<Rightarrow> (flags \<times> string list) option) \<Rightarrow> bool" where
  "pflag_ok parse \<longleftrightarrow>
     (\<forall>ss. list_all plain_setting ss \<longrightarrow>
        parse (concat (map setting_words ss)) = Some (fold apply_setting ss (default_flags, [])))"

text \<open>A parser that does so, for the witness.\<close>

fun parse_words :: "flags \<times> string list \<Rightarrow> string list \<Rightarrow> (flags \<times> string list) option" where
  "parse_words (f, as) [] = Some (f, as)"
| "parse_words (f, as) [w] =
     (if w = ''--daemon'' then Some (f\<lparr>fg_daemon := True\<rparr>, as)
      else if w = [] \<or> hd w \<noteq> CHR ''-'' then Some (f, as @ [w]) else None)"
| "parse_words (f, as) (w # v # ws) =
     (if w = ''--daemon'' then parse_words (f\<lparr>fg_daemon := True\<rparr>, as) (v # ws)
      else if w = [] \<or> hd w \<noteq> CHR ''-'' then parse_words (f, as @ [w]) (v # ws)
      else if w = ''-R'' then parse_words (f\<lparr>fg_remote := v\<rparr>, as) ws
      else if w = ''-p'' then (case Atoi v of (n, None) \<Rightarrow> parse_words (f\<lparr>fg_port := n\<rparr>, as) ws | _ \<Rightarrow> None)
      else if w = ''--passwd'' then parse_words (f\<lparr>fg_passwd := v\<rparr>, as) ws
      else if w = ''-i'' then parse_words (f\<lparr>fg_identity := v\<rparr>, as) ws
      else if w = ''--proto'' then parse_words (f\<lparr>fg_proto := v\<rparr>, as) ws
      else None)"

lemma parse_words_cons:
  "parse_words (f, as) (''--daemon'' # ws) = parse_words (f\<lparr>fg_daemon := True\<rparr>, as) ws"
  "w \<noteq> [] \<Longrightarrow> hd w \<noteq> CHR ''-'' \<Longrightarrow> parse_words (f, as) (w # ws) = parse_words (f, as @ [w]) ws"
  by (cases ws; auto)+

lemma parse_words_settings:
  "list_all plain_setting ss \<Longrightarrow> parse_words (f, as) (concat (map setting_words ss)) = Some (fold apply_setting ss (f, as))"
proof (induction ss arbitrary: f as)
  case (Cons s ss)
  then show ?case
    by (cases s) (simp_all add: parse_words_cons plain_setting_def int_range_def Atoi_itoa)
qed simp

lemma parse_words_ok: "pflag_ok (parse_words (default_flags, []))"
  using parse_words_settings by (simp add: pflag_ok_def)

definition command_settings :: "WorkerInfo \<Rightarrow> setting list" where
  "command_settings w =
     [RemoteOpt (itoa (wi_RemotePort w) @ CHR '':'' # wi_LocalHost w @ CHR '':'' # itoa (wi_LocalPort w)),
      Positional (wi_Username w @ CHR ''@'' # wi_ServerHost w), PortOpt (wi_ServerPort w), PasswdOpt (wi_Password w)] @
     (if wi_SSHKeyPath w \<noteq> [] then [IdentityOpt (wi_SSHKeyPath w)] else []) @ [DaemonOpt] @
     (if NormalizeProto (wi_Proto w) = ''tcp'' then [] else [ProtoOpt (NormalizeProto (wi_Proto w))])"

abbreviation blank :: char where "blank \<equiv> CHR '' ''"

lemma blank_not_in_itoa [simp]: "blank \<notin> set (itoa i)"
  by (auto dest!: itoa_chars simp: is_digit_def)

text \<open>A worker whose fields are words: no blanks, nothing empty but the key, a name that is no option.\<close>

definition wordy :: "WorkerInfo \<Rightarrow> bool" where
  "wordy w \<longleftrightarrow> blank \<notin> set (wi_LocalHost w) \<and> blank \<notin> set (wi_Username w) \<and> blank \<notin> set (wi_ServerHost w) \<and>
     blank \<notin> set (wi_Password w) \<and> blank \<notin> set (wi_SSHKeyPath w) \<and> wi_Username w \<noteq> [] \<and> hd (wi_Username w) \<noteq> CHR ''-'' \<and>
     wi_Password w \<noteq> [] \<and> CHR ''@'' \<notin> set (wi_Username w) \<and> CHR '':'' \<notin> set (wi_ServerHost w) \<and> CHR '':'' \<notin> set (wi_LocalHost w)"

lemma split_join: "ws \<noteq> [] \<Longrightarrow> list_all (\<lambda>w. c \<notin> set w) ws \<Longrightarrow> split_on c (join_with c ws) = ws"
proof (induction ws rule: induct_list012)
  case (3 v w ws)
  then show ?case by (simp add: join_with_def split_on_append)
qed (simp_all add: join_with_def split_on_word)

lemma command_join:
  assumes "wi_Proto w = p" "NormalizeProto p = q" "q \<in> {''tcp'', ''udp'', ''both''}"
  shows "worker_command w = join_with blank (''nssh'' # concat (map setting_words (command_settings w)))"
  using assms by (auto simp: worker_command_def command_settings_def join_with_def Let_def)

lemma command_words:
  assumes "wordy w"
  shows "split_on blank (worker_command w) = ''nssh'' # concat (map setting_words (command_settings w))"
proof -
  have "list_all (\<lambda>v. blank \<notin> set v) (concat (map setting_words (command_settings w)))"
    using assms NormalizeProto_cases [of "wi_Proto w"] by (auto simp: command_settings_def wordy_def)
  then have "split_on blank (join_with blank (''nssh'' # concat (map setting_words (command_settings w)))) =
      ''nssh'' # concat (map setting_words (command_settings w))"
    by (intro split_join) simp_all
  then show ?thesis using command_join [OF refl refl NormalizeProto_cases] by simp
qed


section \<open>Properties\<close>

text \<open>
  The server's port can be given as \<open>-p\<close> or in \<open>user@host:port\<close>, with the same result, errors
  included; giving both is an error whenever the rest of the configuration can be read.
\<close>

theorem port_forms_agree:
  assumes "CHR ''@'' \<notin> set user" "CHR '':'' \<notin> set host" "host \<noteq> []" "0 < n" "n \<le> max_int" "0 < p"
  shows "cli_config env [user @ CHR ''@'' # host @ CHR '':'' # itoa n] build (f\<lparr>fg_port := 0\<rparr>) =
      cli_config env [user @ CHR ''@'' # host] build (f\<lparr>fg_port := n\<rparr>) \<and>
    (\<exists>e. cli_config env [user @ CHR ''@'' # host @ CHR '':'' # itoa n] build (f\<lparr>fg_port := p\<rparr>) = Inl e \<and>
       e \<in> insert PortConflict (range LoadFatal))"
proof
  have n: "int_range n" using assms(4,5) by (simp add: int_range_def min_int_def)
  from cli_config_port [OF assms(1-4) n]
  show "cli_config env [user @ CHR ''@'' # host @ CHR '':'' # itoa n] build (f\<lparr>fg_port := 0\<rparr>) =
      cli_config env [user @ CHR ''@'' # host] build (f\<lparr>fg_port := n\<rparr>)" .
  show "\<exists>e. cli_config env [user @ CHR ''@'' # host @ CHR '':'' # itoa n] build (f\<lparr>fg_port := p\<rparr>) = Inl e \<and>
       e \<in> insert PortConflict (range LoadFatal)"
    using assms(4,6) positional_user [OF assms(1)] host_and_port_given [OF assms(2) n]
    by (simp add: cli_config_def Let_def split: sum.split)
qed

theorem port_forms_agree_witness:
  "cli_config (\<lambda>_. []) [''me@10.0.0.1:2222''] [] (default_flags\<lparr>fg_remote := ''80:localhost:80'', fg_port := 0\<rparr>) =
   cli_config (\<lambda>_. []) [''me@10.0.0.1''] [] (default_flags\<lparr>fg_remote := ''80:localhost:80'', fg_port := 2222\<rparr>)"
proof -
  have i: "itoa 2222 = ''2222''" by (simp add: itoa_def digits.simps char_of_def bit_simps)
  show ?thesis
    using port_forms_agree [of "''me''" "''10.0.0.1''" 2222 1 "\<lambda>_. []" "[]" "default_flags\<lparr>fg_remote := ''80:localhost:80''\<rparr>"]
    by (simp add: i max_int_def)
qed

lemma LoadConfig_tunnel:
  assumes "CHR ''@'' \<notin> set user" "CHR '':'' \<notin> set lh" "int_range rp" "int_range lp" "pw \<noteq> []" "0 < port" "0 < rd"
  shows "LoadConfig env [user @ CHR ''@'' # srv] build (itoa rp @ CHR '':'' # lh @ CHR '':'' # itoa lp) port pw key rd =
    Inr ((base_config env)\<lparr>Username := user, ServerHost := srv, RemotePort := rp, LocalHost := lh, LocalPort := lp,
      ServerPort := port, Password := pw, SSHKeyPath := (if key \<noteq> [] then key else SSHKeyPath (base_config env)),
      ReconnectDelay := rd, Version := build\<rparr>)"
proof -
  have "split_on (CHR '':'') (itoa rp @ CHR '':'' # lh @ CHR '':'' # itoa lp) = [itoa rp, lh, itoa lp]"
    using assms(2) by (simp add: split_on_append split_on_word)
  moreover have "split_n 2 (CHR ''@'') (user @ CHR ''@'' # srv) = [user, srv]"
    using assms(1) by (simp add: numeral_2_eq_2 split_n_append)
  ultimately show ?thesis
    using assms(3-7)
    by (simp add: LoadConfig_def apply_user_host_def apply_reverse_tunnel_def apply_flags_def Atoi_itoa int_range_def Let_def
        base_config_def)
qed

definition command_flags :: "WorkerInfo \<Rightarrow> flags" where
  "command_flags w =
     default_flags\<lparr>fg_remote := itoa (wi_RemotePort w) @ CHR '':'' # wi_LocalHost w @ CHR '':'' # itoa (wi_LocalPort w),
       fg_port := wi_ServerPort w, fg_passwd := wi_Password w, fg_identity := wi_SSHKeyPath w, fg_daemon := True,
       fg_proto := (if NormalizeProto (wi_Proto w) = ''tcp'' then ''both'' else NormalizeProto (wi_Proto w))\<rparr>"

lemma command_flags_set:
  "fold apply_setting (command_settings w) (default_flags, []) = (command_flags w, [wi_Username w @ CHR ''@'' # wi_ServerHost w])"
  by (simp add: command_settings_def command_flags_def default_flags_def)

lemma command_settings_plain: "wordy w \<Longrightarrow> int_range (wi_ServerPort w) \<Longrightarrow> list_all plain_setting (command_settings w)"
  by (auto simp: command_settings_def plain_setting_def wordy_def hd_append)


lemma same_target_valid:
  assumes "validateConfig (takeover_config w) = None" "ServerHost c = wi_ServerHost w" "ServerPort c = wi_ServerPort w"
    and "LocalHost c = wi_LocalHost w" "LocalPort c = wi_LocalPort w" "RemotePort c = wi_RemotePort w"
  shows "validateConfig c = None"
proof -
  have "ServerHost (takeover_config w) = ServerHost c" "ServerPort (takeover_config w) = ServerPort c"
    "LocalHost (takeover_config w) = LocalHost c" "LocalPort (takeover_config w) = LocalPort c"
    "RemotePort (takeover_config w) = RemotePort c"
    using assms(2-6) by (simp_all add: takeover_config_def)
  then have "validateConfig (takeover_config w) = validateConfig c" by (simp only: validateConfig_def)
  with assms(1) show ?thesis by simp
qed

lemma flag_env_sel: "env ''NSSH_PROTO'' = [] \<Longrightarrow> flag_env f env ''NSSH_PROTO'' = fg_proto f" "flag_env f env ''SSH_KEY'' = env ''SSH_KEY''"
  by (simp_all add: flag_env_def set_default_def)

lemma command_config:
  assumes "wordy w" "validateConfig (takeover_config w) = None" "env ''NSSH_PROTO'' = []" "env ''SSH_KEY'' = []"
  shows "\<exists>c. cli_config (flag_env (command_flags w) env) [wi_Username w @ CHR ''@'' # wi_ServerHost w] build (command_flags w) = Inr c \<and>
    config_key c = worker_key w \<and> LocalHost c = wi_LocalHost w \<and> LocalPort c = wi_LocalPort w \<and> Password c = wi_Password w \<and>
    SSHKeyPath c = wi_SSHKeyPath w \<and>
    Proto c = (if NormalizeProto (wi_Proto w) = ''tcp'' then ''both'' else NormalizeProto (wi_Proto w)) \<and>
    ReconnectDelay c = 30 \<and> MaxLifetime c = 172800"
proof -
  let ?f = "command_flags w" and ?env = "flag_env (command_flags w) env"
  from validated_ports [OF assms(2)]
  have p: "int_range (wi_RemotePort w)" "int_range (wi_LocalPort w)" "0 < wi_ServerPort w"
    by (simp_all add: takeover_config_def port_int_range) (simp add: port_ok_def)
  have "wi_Username w \<noteq> []" and w: "CHR ''@'' \<notin> set (wi_Username w)" "CHR '':'' \<notin> set (wi_LocalHost w)" "wi_Password w \<noteq> []"
    "CHR '':'' \<notin> set (wi_ServerHost w)" using assms(1) by (simp_all add: wordy_def)
  have h: "wi_ServerHost w \<noteq> []" using assms(2) by (auto simp: validateConfig_def takeover_config_def)
  define c where "c = (base_config ?env)\<lparr>Username := wi_Username w, ServerHost := wi_ServerHost w,
      RemotePort := wi_RemotePort w, LocalHost := wi_LocalHost w, LocalPort := wi_LocalPort w, ServerPort := wi_ServerPort w,
      Password := wi_Password w, SSHKeyPath := (if wi_SSHKeyPath w \<noteq> [] then wi_SSHKeyPath w else SSHKeyPath (base_config ?env)),
      ReconnectDelay := 30, Version := build, MaxLifetime := 172800\<rparr>"
  have "LoadConfig ?env [wi_Username w @ CHR ''@'' # wi_ServerHost w] build (fg_remote ?f) (fg_port ?f) (fg_passwd ?f)
      (fg_identity ?f) (fg_reconnect ?f) = Inr (c\<lparr>MaxLifetime := MaxLifetime (base_config ?env)\<rparr>)"
    using LoadConfig_tunnel [OF w(1,2) p(1,2) w(3) p(3), of 30 ?env "wi_ServerHost w" build "wi_SSHKeyPath w"]
    by (simp add: command_flags_def default_flags_def c_def)
  moreover have "apply_positional (wi_Username w, wi_ServerHost w, 0) c = c"
    using h \<open>wi_Username w \<noteq> []\<close> by (simp add: apply_positional_eq c_def)
  moreover have "validateConfig c = None" by (rule same_target_valid [OF assms(2)]) (simp_all add: c_def)
  moreover have "fg_max_lifetime ?f = 172800" by (simp add: command_flags_def default_flags_def)
  moreover have "c\<lparr>MaxLifetime := 172800\<rparr> = c" by (simp add: c_def)
  ultimately have "cli_config ?env [wi_Username w @ CHR ''@'' # wi_ServerHost w] build ?f = Inr c"
    using positional_user [OF w(1)] host_and_port_plain [OF w(4)] by (simp add: cli_config_def Let_def)
  moreover have "Proto (base_config ?env) = (if NormalizeProto (wi_Proto w) = ''tcp'' then ''both'' else NormalizeProto (wi_Proto w))"
    using flag_env_sel(1) [of env ?f] assms(3) NormalizeProto_cases [of "wi_Proto w"]
    by (auto simp: base_config_def getEnv_def command_flags_def)
  moreover have "SSHKeyPath (base_config ?env) = []"
    using flag_env_sel(2) [of ?f env] assms(4) by (simp add: base_config_def getEnv_def)
  ultimately show ?thesis by (intro exI [of _ c]) (simp add: c_def config_key_def worker_key_def)
qed

text \<open>
  C19. The command that the daemon prints for a tunnel (fields without blanks, a password), split at its
  blanks and run again where the environment does not set the protocol, starts a tunnel under the
  same key with the same target and credentials. Its protocol is the old one for UDP and for both;
  but a tunnel that forwards TCP only comes back forwarding both, as the command then names no
  protocol and the default of the command line is both. Delay and lifetime are the defaults.
\<close>

theorem printed_command_restarts:
  assumes "pflag_ok parse" "wordy w" "validateConfig (takeover_config w) = None"
    and "env ''NSSH_PROTO'' = []" "env ''SSH_KEY'' = []"
  shows "\<exists>f args c. parse (tl (split_on blank (worker_command w))) = Some (f, args) \<and>
    main_mode running env args build f = (if running then SendStart c else StartDaemonAndSend c) \<and>
    config_key c = worker_key w \<and> LocalHost c = wi_LocalHost w \<and> LocalPort c = wi_LocalPort w \<and> Password c = wi_Password w \<and>
    SSHKeyPath c = wi_SSHKeyPath w \<and>
    Proto c = (if NormalizeProto (wi_Proto w) = ''tcp'' then ''both'' else NormalizeProto (wi_Proto w)) \<and>
    ReconnectDelay c = 30 \<and> MaxLifetime c = 172800"
proof -
  have "int_range (wi_ServerPort w)" using validated_ports [OF assms(3)] by (simp add: takeover_config_def port_int_range)
  from command_settings_plain [OF assms(2) this] assms(1) command_flags_set
  have "parse (tl (split_on blank (worker_command w))) = Some (command_flags w, [wi_Username w @ CHR ''@'' # wi_ServerHost w])"
    by (simp add: command_words [OF assms(2)] pflag_ok_def)
  moreover have "fg_daemon (command_flags w)" "fg_remote (command_flags w) \<noteq> []" "\<not> fg_daemon_inner (command_flags w)"
    "\<not> fg_takeover (command_flags w)" "\<not> fg_takeover_force (command_flags w)"
    by (simp_all add: command_flags_def default_flags_def)
  ultimately show ?thesis
    using command_config [OF assms(2-5), of build] by (auto simp: main_mode_def Let_def)
qed

abbreviation tcp_worker :: WorkerInfo where
  "tcp_worker \<equiv> sample_worker\<lparr>wi_ServerHost := ''10.0.0.1'', wi_Password := ''pw'', wi_Proto := ''tcp''\<rparr>"

theorem printed_command_restarts_witness:
  "\<exists>f args c. parse_words (default_flags, []) (tl (split_on blank (worker_command tcp_worker))) = Some (f, args) \<and>
     main_mode True (\<lambda>_. []) args [] f = SendStart c \<and> Proto c = ''both''"
proof -
  have "wordy tcp_worker" by (simp add: wordy_def)
  moreover have "validateConfig (takeover_config tcp_worker) = None" by code_simp
  moreover have "NormalizeProto (wi_Proto tcp_worker) = ''tcp''" by simp
  ultimately show ?thesis
    using printed_command_restarts [OF parse_words_ok, of tcp_worker "\<lambda>_. []" True "[]"] by fastforce
qed

end
