(* ===== verification/Cli_Manage.thy ===== *)
theory Cli_Manage
  imports Cli_Session
begin

text \<open>
  The last part of the command line (\<open>main.go\<close>): stopping the daemon with its fallback to a
  signal and the bounded wait for its end, and the table that \<open>--list\<close> prints.
\<close>

section \<open>Waiting for the daemon's end\<close>

text \<open>
  \<open>waitDaemonGone\<close>: poll \<open>k\<close> sees whether the daemon runs; a sleep takes 100 milliseconds and
  \<open>extra k\<close> nanoseconds more. The result: whether it was seen gone, and the number of sleeps.
\<close>

function waitDaemonGone :: "(nat \<Rightarrow> bool) \<Rightarrow> (nat \<Rightarrow> nat) \<Rightarrow> nat \<Rightarrow> instant \<Rightarrow> instant \<Rightarrow> bool \<times> nat" where
  "waitDaemonGone running extra k now deadline =
     (if now < deadline
      then if \<not> running k then (True, k)
           else waitDaemonGone running extra (Suc k) (now + 100 * millisecond + int (extra k)) deadline
      else (False, k))"
  by pat_completeness auto
termination
  by (relation "measure (\<lambda>(running, extra, k, now, deadline). nat (deadline - now))") (auto simp: millisecond_def)

declare waitDaemonGone.simps [simp del]

text \<open>The time of poll \<open>j\<close> of a wait that begins with poll \<open>k\<close> at \<open>now\<close>.\<close>

definition poll_time :: "(nat \<Rightarrow> nat) \<Rightarrow> nat \<Rightarrow> instant \<Rightarrow> nat \<Rightarrow> instant" where
  "poll_time extra k now j = now + (\<Sum>i\<in>{k..<j}. 100 * millisecond + int (extra i))"

lemma poll_time_simps: "poll_time extra k now k = now"
  "k < j \<Longrightarrow> poll_time extra k now j = poll_time extra (Suc k) (now + 100 * millisecond + int (extra k)) j"
  by (simp_all add: poll_time_def sum.atLeast_Suc_lessThan)

lemma poll_time_later: "k \<le> j \<Longrightarrow> now \<le> poll_time extra k now j"
  by (auto simp: poll_time_def millisecond_def intro: sum_nonneg)

lemma waitDaemonGone_result:
  "waitDaemonGone running extra k now deadline = (r, n) \<Longrightarrow>
   (r \<longleftrightarrow> (\<exists>j\<ge>k. poll_time extra k now j < deadline \<and> \<not> running j)) \<and>
   k \<le> n \<and> (k < n \<longrightarrow> now + int (n - k - 1) * (100 * millisecond) < deadline)"
proof (induction running extra k now deadline arbitrary: r n rule: waitDaemonGone.induct)
  case (1 running extra k now deadline)
  let ?now = "now + 100 * millisecond + int (extra k)"
  show ?case
  proof (cases "now < deadline \<and> running k")
    case True
    then have w: "waitDaemonGone running extra (Suc k) ?now deadline = (r, n)"
      using "1.prems" by (simp add: waitDaemonGone.simps [of running extra k])
    have t: "now < deadline" "\<not> \<not> running k" using True by simp_all
    note ih = "1.IH" [OF t w]
    have IH: "r \<longleftrightarrow> (\<exists>j\<ge>Suc k. poll_time extra (Suc k) ?now j < deadline \<and> \<not> running j)"
      "Suc k \<le> n" "Suc k < n \<longrightarrow> ?now + int (n - Suc k - 1) * (100 * millisecond) < deadline"
      by (rule ih [THEN conjunct1] ih [THEN conjunct2, THEN conjunct1] ih [THEN conjunct2, THEN conjunct2])+
    have "(\<exists>j\<ge>k. poll_time extra k now j < deadline \<and> \<not> running j) \<longleftrightarrow>
        (\<exists>j\<ge>Suc k. poll_time extra (Suc k) ?now j < deadline \<and> \<not> running j)"
    proof
      assume "\<exists>j\<ge>k. poll_time extra k now j < deadline \<and> \<not> running j"
      then obtain j where j: "k \<le> j" "poll_time extra k now j < deadline" "\<not> running j" by blast
      with True have "k < j" by (cases "j = k") auto
      with j poll_time_simps(2) [OF this, of extra now]
      show "\<exists>j\<ge>Suc k. poll_time extra (Suc k) ?now j < deadline \<and> \<not> running j" by (intro exI [of _ j]) simp
    next
      assume "\<exists>j\<ge>Suc k. poll_time extra (Suc k) ?now j < deadline \<and> \<not> running j"
      then obtain j where j: "k < j" "poll_time extra (Suc k) ?now j < deadline" "\<not> running j"
        unfolding Suc_le_eq by blast
      with poll_time_simps(2) [OF j(1), of extra now]
      show "\<exists>j\<ge>k. poll_time extra k now j < deadline \<and> \<not> running j" by (intro exI [of _ j]) simp
    qed
    moreover have "now + int (n - k - 1) * (100 * millisecond) < deadline"
    proof (cases "Suc k < n")
      case True
      then have "int (n - k - 1) = int (n - Suc k - 1) + 1" by simp
      with IH(3) True show ?thesis by (simp add: algebra_simps)
    next
      case False
      with IH(2) \<open>now < deadline \<and> running k\<close> show ?thesis by simp
    qed
    ultimately show ?thesis using IH by simp
  next
    case False
    with "1.prems" have r: "n = k" "r \<longleftrightarrow> now < deadline \<and> \<not> running k"
      by (auto simp: waitDaemonGone.simps [of running extra k] split: if_splits)
    have "poll_time extra k now j < deadline \<longrightarrow> now < deadline" if "k \<le> j" for j
      using poll_time_later [OF that, of now extra] by simp
    with r False show ?thesis by (metis diff_self_eq_0 less_irrefl order_refl poll_time_simps(1))
  qed
qed


section \<open>Stopping the daemon\<close>

text \<open>
  The daemon is a function from commands to what the command line reads of its reply, so that an
  old daemon that does not know the stop command is covered. The result has the error and the
  process ids that were sent a signal.
\<close>

datatype stop_error = PIDUnknown | SignalFailed int string | StillRunning

record stop_world =
  sw_running :: bool                       \<comment> \<open>at the first check\<close>
  sw_answer :: "int \<Rightarrow> printed"
  sw_pid_file :: "string option"
  sw_terminate :: "int \<Rightarrow> string option"
  sw_polls :: "nat \<Rightarrow> bool"
  sw_extra :: "nat \<Rightarrow> nat"
  sw_now :: instant

definition daemonPID :: "stop_world \<Rightarrow> int" where
  "daemonPID w =
     (case sw_answer w CMD_GET_DAEMON_PID of
        ReplyShown (PidReply pid) \<Rightarrow> pid
      | _ \<Rightarrow> (case sw_pid_file w of Some b \<Rightarrow> port_or_0 (TrimSpace b) | None \<Rightarrow> 0))"

definition wait_gone :: "stop_world \<Rightarrow> stop_error option" where
  "wait_gone w =
     (if fst (waitDaemonGone (sw_polls w) (sw_extra w) 0 (sw_now w) (sw_now w + 5 * second)) then None else Some StillRunning)"

definition stopDaemon :: "stop_world \<Rightarrow> stop_error option \<times> int list" where
  "stopDaemon w =
     (if \<not> sw_running w then (None, [])
      else case sw_answer w CMD_STOP_DAEMON of
             ReplyShown _ \<Rightarrow> (wait_gone w, [])
           | _ \<Rightarrow>
               (let pid = daemonPID w
                in if pid \<le> 0 then (Some PIDUnknown, [])
                   else case sw_terminate w pid of
                          Some e \<Rightarrow> (Some (SignalFailed pid e), [pid])
                        | None \<Rightarrow> (wait_gone w, [pid])))"


definition accepts_stop :: "stop_world \<Rightarrow> bool" where
  "accepts_stop w \<longleftrightarrow> (\<exists>r. sw_answer w CMD_STOP_DAEMON = ReplyShown r)"

definition seen_gone :: "stop_world \<Rightarrow> bool" where
  "seen_gone w \<longleftrightarrow> (\<exists>j. poll_time (sw_extra w) 0 (sw_now w) j < sw_now w + 5 * second \<and> \<not> sw_polls w j)"

lemma wait_gone_seen: "wait_gone w = (if seen_gone w then None else Some StillRunning)"
proof -
  obtain r n where w: "waitDaemonGone (sw_polls w) (sw_extra w) 0 (sw_now w) (sw_now w + 5 * second) = (r, n)" by fastforce
  from waitDaemonGone_result [OF this] have "r \<longleftrightarrow> seen_gone w" by (simp add: seen_gone_def)
  with w show ?thesis by (simp add: wait_gone_def)
qed

lemma daemonPID_cases:
  "pid \<noteq> 0 \<Longrightarrow> daemonPID w = pid \<longleftrightarrow>
     sw_answer w CMD_GET_DAEMON_PID = ReplyShown (PidReply pid) \<or>
     (\<nexists>p. sw_answer w CMD_GET_DAEMON_PID = ReplyShown (PidReply p)) \<and>
       (\<exists>b. sw_pid_file w = Some b \<and> Atoi (TrimSpace b) = (pid, None))"
  by (auto simp: daemonPID_def port_or_0_def split: printed.splits reply.splits option.splits prod.splits)

lemma stopDaemon_signals:
  "snd (stopDaemon w) = (if sw_running w \<and> \<not> accepts_stop w \<and> daemonPID w > 0 then [daemonPID w] else [])"
  by (cases "sw_answer w CMD_STOP_DAEMON")
    (auto simp: stopDaemon_def accepts_stop_def Let_def split: option.splits)

text \<open>
  C27. Stopping the daemon ends: whatever the daemon and the system do, the wait makes at most 50
  sleeps. It succeeds exactly when no daemon ran, or when the daemon accepted the stop or a
  process could be signalled and a poll within five seconds saw the daemon gone. At most one
  process is signalled, and only when a daemon runs that did not accept the stop: the one whose
  positive number the daemon answered, or, when it did not answer with a number, the one whose
  number is in the PID file. So a daemon that answers as it should is signalled itself; with an
  old daemon that does not know the query, it is whatever process has the number in the file.
\<close>

theorem stop_daemon_ends:
  "snd (waitDaemonGone (sw_polls w) (sw_extra w) 0 (sw_now w) (sw_now w + 5 * second)) \<le> 50 \<and>
   (fst (stopDaemon w) = None \<longleftrightarrow> \<not> sw_running w \<or>
      seen_gone w \<and> (accepts_stop w \<or> (\<exists>pid. snd (stopDaemon w) = [pid] \<and> sw_terminate w pid = None))) \<and>
   length (snd (stopDaemon w)) \<le> 1 \<and>
   (\<forall>pid. pid \<in> set (snd (stopDaemon w)) \<longleftrightarrow> sw_running w \<and> \<not> accepts_stop w \<and> 0 < pid \<and>
      (sw_answer w CMD_GET_DAEMON_PID = ReplyShown (PidReply pid) \<or>
       (\<nexists>p. sw_answer w CMD_GET_DAEMON_PID = ReplyShown (PidReply p)) \<and>
         (\<exists>b. sw_pid_file w = Some b \<and> Atoi (TrimSpace b) = (pid, None)))) \<and>
   (sw_answer w CMD_GET_DAEMON_PID = ReplyShown (handleGetDaemonPID d) \<longrightarrow> set (snd (stopDaemon w)) \<subseteq> {dm_pid d})"
proof (intro conjI)
  obtain r n where w: "waitDaemonGone (sw_polls w) (sw_extra w) 0 (sw_now w) (sw_now w + 5 * second) = (r, n)" by fastforce
  from waitDaemonGone_result [OF this]
  have "0 < n \<longrightarrow> sw_now w + int (n - 0 - 1) * (100 * millisecond) < sw_now w + 5 * second" by (elim conjE)
  then have "n \<le> 50" by (cases n) (simp_all add: duration_defs)
  then show "snd (waitDaemonGone (sw_polls w) (sw_extra w) 0 (sw_now w) (sw_now w + 5 * second)) \<le> 50"
    by (simp add: w)
  show "fst (stopDaemon w) = None \<longleftrightarrow> \<not> sw_running w \<or>
      seen_gone w \<and> (accepts_stop w \<or> (\<exists>pid. snd (stopDaemon w) = [pid] \<and> sw_terminate w pid = None))"
    by (cases "sw_answer w CMD_STOP_DAEMON")
      (auto simp: stopDaemon_def accepts_stop_def wait_gone_seen Let_def split: option.splits)
  show "length (snd (stopDaemon w)) \<le> 1" by (simp add: stopDaemon_signals)
  show "\<forall>pid. pid \<in> set (snd (stopDaemon w)) \<longleftrightarrow> sw_running w \<and> \<not> accepts_stop w \<and> 0 < pid \<and>
      (sw_answer w CMD_GET_DAEMON_PID = ReplyShown (PidReply pid) \<or>
       (\<nexists>p. sw_answer w CMD_GET_DAEMON_PID = ReplyShown (PidReply p)) \<and>
         (\<exists>b. sw_pid_file w = Some b \<and> Atoi (TrimSpace b) = (pid, None)))"
  proof
    fix pid
    show "pid \<in> set (snd (stopDaemon w)) \<longleftrightarrow> sw_running w \<and> \<not> accepts_stop w \<and> 0 < pid \<and>
      (sw_answer w CMD_GET_DAEMON_PID = ReplyShown (PidReply pid) \<or>
       (\<nexists>p. sw_answer w CMD_GET_DAEMON_PID = ReplyShown (PidReply p)) \<and>
         (\<exists>b. sw_pid_file w = Some b \<and> Atoi (TrimSpace b) = (pid, None)))"
      using daemonPID_cases [of pid w] by (cases "0 < pid") (auto simp: stopDaemon_signals)
  qed
  show "sw_answer w CMD_GET_DAEMON_PID = ReplyShown (handleGetDaemonPID d) \<longrightarrow> set (snd (stopDaemon w)) \<subseteq> {dm_pid d}"
    by (auto simp: stopDaemon_signals daemonPID_def handleGetDaemonPID_def)
qed

text \<open>An old daemon that knows neither the stop nor the query, and the file of a daemon that is gone.\<close>

abbreviation old_daemon :: stop_world where
  "old_daemon \<equiv>
     \<lparr>sw_running = True, sw_answer = (\<lambda>cmd. ReplyFailed UnknownCommand), sw_pid_file = Some ''4711'',
      sw_terminate = (\<lambda>pid. None), sw_polls = (\<lambda>k. k < 3), sw_extra = (\<lambda>k. 0), sw_now = 0\<rparr>"

theorem stop_daemon_ends_witness:
  "snd (stopDaemon old_daemon) = [4711] \<and>
   snd (stopDaemon (old_daemon\<lparr>sw_answer := \<lambda>cmd. if cmd = CMD_GET_DAEMON_PID then ReplyShown (PidReply 12) else ParseError\<rparr>)) = [12]"
proof -
  let ?asked = "old_daemon\<lparr>sw_answer := \<lambda>cmd. if cmd = CMD_GET_DAEMON_PID then ReplyShown (PidReply 12) else ParseError\<rparr>"
  let ?d = "NewDaemon [] 12"
  have number: "Atoi (TrimSpace ''4711'') = (4711, None)" by code_simp
  have "4711 \<in> set (snd (stopDaemon old_daemon))" "length (snd (stopDaemon old_daemon)) \<le> 1"
    using stop_daemon_ends [of old_daemon ?d] number by (simp_all add: accepts_stop_def)
  moreover have "12 \<in> set (snd (stopDaemon ?asked))" "length (snd (stopDaemon ?asked)) \<le> 1"
    using stop_daemon_ends [of ?asked ?d] by (simp_all add: accepts_stop_def CMD_GET_DAEMON_PID_def CMD_STOP_DAEMON_def)
  ultimately show ?thesis
    by (cases "snd (stopDaemon old_daemon)"; cases "snd (stopDaemon ?asked)") auto
qed


section \<open>The table of the list\<close>

text \<open>
  A row has the texts of its cells; a column is as wide as its widest cell, at least its least and
  (for three of them) at most its greatest width. \<open>%-*s\<close> pads and does not cut. The rows come in
  the order of the sorting by start time. Widths count bytes, the padding counts characters: the
  model is that of ASCII cells.
\<close>

record row =
  rw_remote :: string
  rw_proto :: string
  rw_local :: string
  rw_user :: string
  rw_server :: string
  rw_status :: string

definition list_row :: "WorkerInfo \<Rightarrow> row" where
  "list_row w =
     \<lparr>rw_remote = itoa (wi_RemotePort w), rw_proto = NormalizeProto (wi_Proto w),
      rw_local = wi_LocalHost w @ '':'' @ itoa (wi_LocalPort w), rw_user = wi_Username w,
      rw_server = wi_ServerHost w @ '':'' @ itoa (wi_ServerPort w), rw_status = wi_Status w\<rparr>"

definition widen :: "nat option \<Rightarrow> nat \<Rightarrow> string \<Rightarrow> nat" where
  "widen cap width s =
     (let width = (if length s > width then length s else width)
      in case cap of None \<Rightarrow> width | Some c \<Rightarrow> if width > c then c else width)"

definition column_width :: "nat option \<Rightarrow> nat \<Rightarrow> string list \<Rightarrow> nat" where
  "column_width cap least cells = fold (\<lambda>s width. widen cap width s) cells least"

definition pad :: "nat \<Rightarrow> string \<Rightarrow> string" where
  "pad width s = s @ replicate (width - length s) blank"

definition table_line :: "nat list \<Rightarrow> string list \<Rightarrow> string" where
  "table_line widths cells = join_with blank (map2 pad widths cells)"

definition printProcessList :: "int \<Rightarrow> string \<Rightarrow> WorkerInfo list \<Rightarrow> string list" where
  "printProcessList pid daemonVersion processes =
     (let version = (if daemonVersion = [] then ''unknown'' else daemonVersion);
          title = ''Daemon Version: '' @ version @ '' (PID: '' @ itoa pid @ '')''
      in if processes = [] then [title, ''No processes running'']
         else let rows = map list_row processes;
                  widths = [4, column_width None 8 (map rw_remote rows), column_width None 5 (map rw_proto rows),
                            column_width (Some 40) 20 (map rw_local rows), column_width (Some 20) 10 (map rw_user rows),
                            column_width (Some 30) 20 (map rw_server rows), column_width None 8 (map rw_status rows)]
              in [title, [], table_line widths [''#'', ''remote'', ''proto'', ''local-port'', ''user'', ''remote-server'', ''status''],
                  replicate (sum_list widths) (CHR ''-'')] @
                 map (\<lambda>(i, r). table_line widths [itoa (int i + 1), rw_remote r, rw_proto r, rw_local r, rw_user r, rw_server r, rw_status r])
                   (enumerate 0 rows))"

text \<open>The loop that widens the columns computes the width of the widest cell within the bounds.\<close>

lemma column_width_max:
  "least \<le> (case cap of None \<Rightarrow> least | Some c \<Rightarrow> c) \<Longrightarrow>
   column_width cap least cells =
     (let m = fold max (map length cells) least in case cap of None \<Rightarrow> m | Some c \<Rightarrow> min c m)"
proof (induction cells arbitrary: least)
  case Nil
  then show ?case by (simp add: column_width_def split: option.splits)
next
  case (Cons s cells)
  have "min c (fold max xs a) = fold max (map (min c) xs) (min c a)" for c a and xs :: "nat list"
    by (induction xs arbitrary: a) (simp_all add: min_max_distrib2 max.commute)
  then have cap: "min c (fold max xs (min c a)) = min c (fold max xs a)" for c a and xs :: "nat list" by simp
  have step: "column_width cap least (s # cells) = column_width cap (widen cap least s) cells" by (simp add: column_width_def)
  show ?case
  proof (cases cap)
    case None
    then have "widen cap least s = max (length s) least" by (auto simp: widen_def Let_def)
    with Cons.IH [of "widen cap least s"] None step show ?thesis by simp
  next
    case (Some c)
    then have "widen cap least s = min c (max (length s) least)" by (auto simp: widen_def Let_def)
    with Cons.IH [of "widen cap least s"] Some step cap show ?thesis by simp
  qed
qed


section \<open>What the other commands print\<close>

definition printLogInfo :: "string \<Rightarrow> string \<Rightarrow> string list" where
  "printLogInfo wid status =
     [''ID: '' @ wid, ''Status: '' @ status, ''Note: Log viewing not available for goroutine workers'']"

definition printCommandInfo :: "string \<Rightarrow> string \<Rightarrow> string \<Rightarrow> string \<Rightarrow> string list" where
  "printCommandInfo username command wid proto =
     [''Username: '' @ username, ''ID: '' @ wid, ''Proto: '' @ NormalizeProto proto, ''Command: '' @ command]"

definition printAllCommandsInfo :: "(string \<times> string \<times> string \<times> string \<times> string) list \<Rightarrow> string list" where
  "printAllCommandsInfo commands =
     [''Found '' @ itoa (int (length commands)) @ '' process(es):'', []] @
     concat (map (\<lambda>(i, username, wid, server, command, proto).
       [itoa (int i + 1) @ ''. Username: '' @ username, ''   ID: '' @ wid, ''   Server: '' @ server,
        ''   Proto: '' @ NormalizeProto proto, ''   Command: '' @ command, []]) (enumerate 0 commands))"

text \<open>
  The JSON variant prints the data of the reply, or an error and the exit code 1. The data is
  that of the reply value, its text is the codec's.
\<close>

definition sendManagementCommandJSON ::
  "channel \<Rightarrow> link \<Rightarrow> instant \<Rightarrow> int \<Rightarrow> int \<Rightarrow> string \<Rightarrow> Daemon \<Rightarrow> int \<times> printed \<times> Daemon" where
  "sendManagementCommandJSON ch link now ts cmd username d =
     (case ask ch link now cmd (user_params username) ts d of
        (res, d) \<Rightarrow> (let p = shown (ch_parse ch) res in (if succeeded p then 0 else 1, p, d)))"


section \<open>Starting the daemon\<close>

text \<open>
  \<open>startDaemonBackground\<close> and \<open>runDaemon\<close>: when a daemon runs they ask for its process id, else they
  start the program's own executable again; only \<open>runDaemon\<close> then ends the process.
\<close>

datatype start_output =
    CannotGetPID | CannotParseResponse | CannotParsePID | AlreadyRunning int
  | NoExecutable string | CannotStart string | DaemonStarted int

definition startDaemonBackground :: "bool \<Rightarrow> printed \<Rightarrow> string + string \<Rightarrow> (string \<Rightarrow> string + int) \<Rightarrow> start_output" where
  "startDaemonBackground running answer exec start =
     (if running
      then case answer of
             CommandError _ \<Rightarrow> CannotGetPID
           | ParseError \<Rightarrow> CannotParseResponse
           | ReplyShown (PidReply pid) \<Rightarrow> AlreadyRunning pid
           | _ \<Rightarrow> CannotParsePID
      else case exec of
             Inl e \<Rightarrow> NoExecutable e
           | Inr path \<Rightarrow> (case start path of Inl e \<Rightarrow> CannotStart e | Inr pid \<Rightarrow> DaemonStarted pid))"

definition runDaemon :: "bool \<Rightarrow> printed \<Rightarrow> string + string \<Rightarrow> (string \<Rightarrow> string + int) \<Rightarrow> start_output \<times> bool" where
  "runDaemon running answer exec start =
     (let out = startDaemonBackground running answer exec start in (out, case out of DaemonStarted _ \<Rightarrow> True | _ \<Rightarrow> False))"

text \<open>\<open>--daemon\<close> with a tunnel and no daemon: start one, poll at most 50 times, then send the start in any case.\<close>

fun await_daemon :: "(nat \<Rightarrow> bool) \<Rightarrow> nat \<Rightarrow> nat \<Rightarrow> nat" where
  "await_daemon running i 0 = i"
| "await_daemon running i (Suc n) = (if running i then i else await_daemon running (Suc i) n)"

definition start_and_send ::
  "channel \<Rightarrow> (nat \<Rightarrow> bool) \<Rightarrow> (nat \<Rightarrow> link) \<Rightarrow> instant \<Rightarrow> int \<Rightarrow> Config \<Rightarrow> Daemon \<Rightarrow> printed \<times> Daemon" where
  "start_and_send ch running link now ts config d =
     sendStartCommand ch (link (await_daemon running 0 50)) (now + int (await_daemon running 0 50) * (100 * millisecond)) ts config d"

lemma await_daemon_first:
  "(\<forall>j. i \<le> j \<and> j < await_daemon running i n \<longrightarrow> \<not> running j) \<and> i \<le> await_daemon running i n \<and> await_daemon running i n \<le> i + n \<and>
   (await_daemon running i n < i + n \<longrightarrow> running (await_daemon running i n))"
proof (induction running i n rule: await_daemon.induct)
  case (2 running i n)
  then show ?case by (auto simp: le_less_Suc_eq dest: le_imp_less_or_eq)
qed auto

end
