(* ===== verification/Json_Strings.thy ===== *)
theory Json_Strings
  imports Go_Strings
begin

text \<open>
  Strings in \<open>encoding/json\<close>: UTF-8, the escapes of \<open>json.Marshal\<close>, and what the decoder reads
  back. A string is a list of bytes; what is not UTF-8 is replaced by U+FFFD on the way out, so
  that the round trip gives back \<open>ToValidUTF8\<close> of any bytes.
\<close>

section \<open>UTF-8\<close>

abbreviation byte :: "char \<Rightarrow> nat" where "byte c \<equiv> of_char c"

abbreviation dq :: char where "dq \<equiv> CHR 0x22"
abbreviation bs :: char where "bs \<equiv> CHR 0x5C"

text \<open>
  \<open>utf8.DecodeRune\<close>: how many bytes a sequence has by its first byte, the range of the second
  byte, and the size of the sequence at the start of a string, 0 when it is not valid.
\<close>

definition rune_length :: "char \<Rightarrow> nat" where
  "rune_length c =
     (if byte c < 0x80 then 1
      else if 0xC2 \<le> byte c \<and> byte c \<le> 0xDF then 2
      else if 0xE0 \<le> byte c \<and> byte c \<le> 0xEF then 3
      else if 0xF0 \<le> byte c \<and> byte c \<le> 0xF4 then 4 else 0)"

definition continues :: "char \<Rightarrow> bool" where
  "continues c \<longleftrightarrow> 0x80 \<le> byte c \<and> byte c \<le> 0xBF"

definition second_ok :: "char \<Rightarrow> char \<Rightarrow> bool" where
  "second_ok c d \<longleftrightarrow>
     (if byte c = 0xE0 then 0xA0 else if byte c = 0xF0 then 0x90 else 0x80) \<le> byte d \<and>
     byte d \<le> (if byte c = 0xED then 0x9F else if byte c = 0xF4 then 0x8F else 0xBF)"

fun rune_size :: "string \<Rightarrow> nat" where
  "rune_size [] = 0"
| "rune_size (c # s) =
     (let n = rune_length c
      in if n \<le> 1 then n
         else case take (n - 1) s of
                [] \<Rightarrow> 0
              | d # t \<Rightarrow> if Suc (length t) = n - 1 \<and> second_ok c d \<and> list_all continues t then n else 0)"

declare rune_size.simps(2) [simp del]

lemma rune_size_ascii [simp]: "byte c < 0x80 \<Longrightarrow> rune_size (c # s) = 1"
  by (simp add: rune_size.simps(2) rune_length_def)

lemma rune_size_le: "rune_size s \<le> length s"
  by (cases s) (auto simp: rune_size.simps(2) Let_def min_def split: list.splits if_splits dest!: arg_cong [where f = length])

lemma rune_size_long: "\<not> byte c < 0x80 \<Longrightarrow> rune_size (c # s) = 0 \<or> 2 \<le> rune_size (c # s)"
  by (auto simp: rune_size.simps(2) rune_length_def Let_def split: list.splits)

text \<open>A valid sequence is recognised whatever follows it.\<close>

lemma rune_size_prefix:
  assumes "rune_size s = n" "0 < n"
  shows "rune_size (take n s @ t) = n"
proof (cases s)
  case (Cons c r)
  show ?thesis
  proof (cases "rune_length c \<le> 1")
    case True
    then show ?thesis using assms Cons by (auto simp: rune_size.simps(2) Let_def take_Cons')
  next
    case False
    then have n: "n = rune_length c" "take (n - 1) r \<noteq> []"
      using assms Cons by (auto simp: rune_size.simps(2) Let_def split: list.splits if_splits)
    moreover have "length (take (n - 1) r) = n - 1"
      using assms Cons n by (auto simp del: length_take simp: rune_size.simps(2) Let_def split: list.splits if_splits)
    ultimately have "take (n - 1) (take (n - 1) r @ t) = take (n - 1) r" by simp
    moreover have "take n s @ t = c # (take (n - 1) r @ t)" using Cons n(1) False by (simp add: take_Cons')
    ultimately show ?thesis using assms Cons n(1) False
      by (simp del: take_append length_take add: rune_size.simps(2) Let_def)
  qed
qed (use assms in simp)

text \<open>The string as its characters: \<open>None\<close> for a byte that starts no valid sequence.\<close>

function runes :: "string \<Rightarrow> string option list" where
  "runes s =
     (if s = [] then []
      else if rune_size s = 0 then None # runes (tl s)
      else Some (take (rune_size s) s) # runes (drop (rune_size s) s))"
  by pat_completeness auto
termination by (relation "measure length") auto

declare runes.simps [simp del]

lemma runes_Nil [simp]: "runes [] = []"
  by (simp add: runes.simps)

lemma runes_ascii [simp]: "byte c < 0x80 \<Longrightarrow> runes (c # s) = Some [c] # runes s"
  by (subst runes.simps) simp

lemma runes_induct [case_names Nil ascii wide bad]:
  assumes "P []" "\<And>c s. byte c < 0x80 \<Longrightarrow> P s \<Longrightarrow> P (c # s)"
    and "\<And>t s. 2 \<le> length t \<Longrightarrow> rune_size t = length t \<Longrightarrow> \<not> byte (hd t) < 0x80 \<Longrightarrow> P s \<Longrightarrow> P (t @ s)"
    and "\<And>c s. rune_size (c # s) = 0 \<Longrightarrow> P s \<Longrightarrow> P (c # s)"
  shows "P s"
proof (induction s rule: runes.induct)
  case (1 s)
  show ?case
  proof (cases s)
    case (Cons c r)
    consider "rune_size s = 0" | "byte c < 0x80" | "rune_size s \<noteq> 0" "\<not> byte c < 0x80" by blast
    then show ?thesis
    proof cases
      case 1
      then show ?thesis using assms(4) [of c r] "1.IH"(1) Cons by simp
    next
      case 2
      then show ?thesis using assms(2) [of c r] "1.IH"(2) Cons by simp
    next
      case 3
      let ?n = "rune_size s"
      have n: "2 \<le> ?n" "?n \<le> length s" using rune_size_long [OF 3(2), of r] rune_size_le [of s] 3(1) Cons by auto
      moreover have "rune_size (take ?n s) = ?n" using rune_size_prefix [of s ?n "[]"] 3(1) by simp
      moreover have "hd (take ?n s) = c" using n Cons by simp
      ultimately show ?thesis
        using assms(3) [of "take ?n s" "drop ?n s"] "1.IH"(2) 3 Cons by simp
    qed
  qed (use assms(1) in simp)
qed

lemma runes_wide: "2 \<le> length t \<Longrightarrow> rune_size t = length t \<Longrightarrow> runes (t @ s) = Some t # runes s"
proof -
  assume t: "2 \<le> length t" "rune_size t = length t"
  then have "t \<noteq> []" by auto
  then have "rune_size (t @ s) = length t" using t rune_size_prefix [of t "length t" s] by simp
  with t \<open>t \<noteq> []\<close> show ?thesis by (subst runes.simps) simp
qed

lemma runes_bad: "rune_size (c # s) = 0 \<Longrightarrow> runes (c # s) = None # runes s"
  by (subst runes.simps) simp

text \<open>Valid UTF-8, and what replaces the rest.\<close>

definition valid_utf8 :: "string \<Rightarrow> bool" where
  "valid_utf8 s \<longleftrightarrow> list_all (\<lambda>r. r \<noteq> None) (runes s)"

definition replacement :: string where "replacement = [CHR 0xEF, CHR 0xBF, CHR 0xBD]"

definition ToValidUTF8 :: "string \<Rightarrow> string" where
  "ToValidUTF8 s = concat (map (\<lambda>r. case r of None \<Rightarrow> replacement | Some t \<Rightarrow> t) (runes s))"

lemma ToValidUTF8_simps [simp]:
  "ToValidUTF8 [] = []" "byte c < 0x80 \<Longrightarrow> ToValidUTF8 (c # s) = c # ToValidUTF8 s"
  "2 \<le> length t \<Longrightarrow> rune_size t = length t \<Longrightarrow> ToValidUTF8 (t @ s) = t @ ToValidUTF8 s"
  "rune_size (c # s) = 0 \<Longrightarrow> ToValidUTF8 (c # s) = replacement @ ToValidUTF8 s"
  by (simp_all add: ToValidUTF8_def runes_wide runes_bad)

lemma valid_utf8_simps [simp]:
  "valid_utf8 []" "byte c < 0x80 \<Longrightarrow> valid_utf8 (c # s) \<longleftrightarrow> valid_utf8 s"
  "2 \<le> length t \<Longrightarrow> rune_size t = length t \<Longrightarrow> valid_utf8 (t @ s) \<longleftrightarrow> valid_utf8 s"
  "rune_size (c # s) = 0 \<Longrightarrow> \<not> valid_utf8 (c # s)"
  by (simp_all add: valid_utf8_def runes_wide runes_bad)

lemma ToValidUTF8_length: "length s \<le> length (ToValidUTF8 s) \<and> (length (ToValidUTF8 s) = length s \<longrightarrow> valid_utf8 s)"
  by (induction s rule: runes_induct) (simp_all add: replacement_def)

lemma ToValidUTF8_valid: "valid_utf8 s \<Longrightarrow> ToValidUTF8 s = s"
  by (induction s rule: runes_induct) simp_all

lemma ToValidUTF8_id: "ToValidUTF8 s = s \<longleftrightarrow> valid_utf8 s"
  using ToValidUTF8_length [of s] ToValidUTF8_valid by force

lemma valid_ascii: "list_all (\<lambda>c. byte c < 0x80) s \<Longrightarrow> valid_utf8 s"
  by (induction s) simp_all


section \<open>Strings\<close>

text \<open>
  \<open>appendString\<close> of \<open>json.Marshal\<close>: the ASCII characters that stay as they are, which do not include
  <, > and &, the escapes of the others, and U+2028 and U+2029, which JavaScript cannot have in a
  string.
\<close>

definition html_safe :: "char \<Rightarrow> bool" where
  "html_safe c \<longleftrightarrow> 0x20 \<le> byte c \<and> byte c < 0x80 \<and> c \<notin> {dq, bs, CHR ''&'', CHR ''<'', CHR ''>''}"

definition hex_digit :: "nat \<Rightarrow> char" where
  "hex_digit n = char_of (if n < 10 then 48 + n else 87 + n)"

definition escape_char :: "char \<Rightarrow> string" where
  "escape_char c =
     (if html_safe c then [c]
      else if c = dq \<or> c = bs then [bs, c]
      else if c = CHR 0x0A then [bs, CHR ''n'']
      else if c = CHR 0x0D then [bs, CHR ''r'']
      else if c = CHR 0x09 then [bs, CHR ''t'']
      else bs # ''u00'' @ [hex_digit (byte c div 16), hex_digit (byte c mod 16)])"

definition escape_rune :: "string option \<Rightarrow> string" where
  "escape_rune r =
     (case r of
        None \<Rightarrow> bs # ''ufffd''
      | Some t \<Rightarrow>
          if length t = 1 then escape_char (hd t)
          else if t = [CHR 0xE2, CHR 0x80, CHR 0xA8] then bs # ''u2028''
          else if t = [CHR 0xE2, CHR 0x80, CHR 0xA9] then bs # ''u2029''
          else t)"

definition escape :: "string \<Rightarrow> string" where
  "escape s = concat (map escape_rune (runes s))"

definition quote :: "string \<Rightarrow> string" where
  "quote s = dq # escape s @ [dq]"

text \<open>
  The string that the decoder reads after the opening quote, and the rest after the closing
  one. An escape of half a surrogate pair, and what is not UTF-8, becomes U+FFFD.
\<close>

definition unhex :: "char \<Rightarrow> nat option" where
  "unhex c =
     (if is_digit c then Some (byte c - 48)
      else if 97 \<le> byte c \<and> byte c \<le> 102 then Some (byte c - 87)
      else if 65 \<le> byte c \<and> byte c \<le> 70 then Some (byte c - 55) else None)"

fun getu4 :: "string \<Rightarrow> (nat \<times> string) option" where
  "getu4 (a # b # c # d # s) =
     (case (unhex a, unhex b, unhex c, unhex d) of
        (Some a, Some b, Some c, Some d) \<Rightarrow> Some (((a * 16 + b) * 16 + c) * 16 + d, s)
      | _ \<Rightarrow> None)"
| "getu4 _ = None"

definition EncodeRune :: "nat \<Rightarrow> string" where
  "EncodeRune u =
     (if u < 0x80 then [char_of u]
      else if u < 0x800 then [char_of (0xC0 + u div 0x40), char_of (0x80 + u mod 0x40)]
      else if u < 0x10000 then [char_of (0xE0 + u div 0x1000), char_of (0x80 + u div 0x40 mod 0x40), char_of (0x80 + u mod 0x40)]
      else [char_of (0xF0 + u div 0x40000), char_of (0x80 + u div 0x1000 mod 0x40),
            char_of (0x80 + u div 0x40 mod 0x40), char_of (0x80 + u mod 0x40)])"

text \<open>The second half of a surrogate pair, when a valid one follows.\<close>

definition low_surrogate :: "nat \<Rightarrow> string \<Rightarrow> (nat \<times> string) option" where
  "low_surrogate u s =
     (case drop_prefix [bs, CHR ''u''] s of
        None \<Rightarrow> None
      | Some r \<Rightarrow>
          (case getu4 r of
             Some (v, r) \<Rightarrow>
               if u < 0xDC00 \<and> 0xDC00 \<le> v \<and> v < 0xE000
               then Some (0x10000 + (u - 0xD800) * 0x400 + (v - 0xDC00), r) else None
           | None \<Rightarrow> None))"

definition simple_escape :: "char \<Rightarrow> char option" where
  "simple_escape c =
     map_of [(dq, dq), (bs, bs), (CHR ''/'', CHR ''/''), (CHR ''b'', CHR 0x08), (CHR ''f'', CHR 0x0C),
       (CHR ''n'', CHR 0x0A), (CHR ''r'', CHR 0x0D), (CHR ''t'', CHR 0x09)] c"

definition unescape :: "string \<Rightarrow> (string \<times> string) option" where
  "unescape s =
     (case s of
        [] \<Rightarrow> None
      | c # r \<Rightarrow>
          if c = CHR ''u''
          then case getu4 r of
                 None \<Rightarrow> None
               | Some (u, r) \<Rightarrow>
                   if 0xD800 \<le> u \<and> u < 0xE000
                   then case low_surrogate u r of
                          Some (v, r) \<Rightarrow> Some (EncodeRune v, r)
                        | None \<Rightarrow> Some (replacement, r)
                   else Some (EncodeRune u, r)
          else map_option (\<lambda>d. ([d], r)) (simple_escape c))"

lemma getu4_shorter: "getu4 s = Some (u, r) \<Longrightarrow> length r < length s"
  by (cases s rule: getu4.cases) (auto split: option.splits)

lemma low_surrogate_shorter: "low_surrogate u s = Some (v, r) \<Longrightarrow> length r < length s"
  by (auto simp: low_surrogate_def split: option.splits if_splits dest!: drop_prefix_length getu4_shorter)

lemma unescape_shorter: "unescape s = Some (t, r) \<Longrightarrow> length r < length s"
  by (auto simp: unescape_def split: list.splits if_splits option.splits dest!: getu4_shorter low_surrogate_shorter)

function unquote :: "string \<Rightarrow> (string \<times> string) option" where
  "unquote s =
     (case s of
        [] \<Rightarrow> None
      | c # r \<Rightarrow>
          if c = dq then Some ([], r)
          else if c = bs
          then case unescape r of
                 None \<Rightarrow> None
               | Some (t, r) \<Rightarrow> map_option (apfst ((@) t)) (unquote r)
          else if byte c < 0x20 then None
          else if rune_size s = 0 then map_option (apfst ((@) replacement)) (unquote r)
          else map_option (apfst ((@) (take (rune_size s) s))) (unquote (drop (rune_size s) s)))"
  by pat_completeness auto
termination by (relation "measure length") (auto dest: unescape_shorter)

declare unquote.simps [simp del]

lemma unquote_Nil [simp]: "unquote [] = None"
  by (simp add: unquote.simps)

lemma unquote_quote [simp]: "unquote (dq # r) = Some ([], r)"
  by (simp add: unquote.simps)

lemma unquote_backslash:
  "unquote (bs # r) = (case unescape r of None \<Rightarrow> None | Some (t, r) \<Rightarrow> map_option (apfst ((@) t)) (unquote r))"
  by (subst unquote.simps) simp

lemma unquote_control: "byte c < 0x20 \<Longrightarrow> unquote (c # r) = None"
  by (subst unquote.simps) auto

lemma unquote_rune:
  assumes "c \<noteq> dq" "c \<noteq> bs" "\<not> byte c < 0x20"
  shows "unquote (c # r) =
    (if rune_size (c # r) = 0 then map_option (apfst ((@) replacement)) (unquote r)
     else map_option (apfst ((@) (take (rune_size (c # r)) (c # r)))) (unquote (drop (rune_size (c # r)) (c # r))))"
  using assms by (subst unquote.simps) simp

lemma unquote_shorter: "unquote s = Some (t, r) \<Longrightarrow> length r < length s"
proof (induction "length s" arbitrary: s t r rule: less_induct)
  case less
  show ?case
  proof (cases s)
    case (Cons c s')
    consider "c = dq" | "c = bs" | "byte c < 0x20" | "c \<noteq> dq" "c \<noteq> bs" "\<not> byte c < 0x20" by blast
    then show ?thesis
    proof cases
      case 2
      then obtain u r1 t1 where u: "unescape s' = Some (u, r1)" "unquote r1 = Some (t1, r)"
        using less.prems Cons by (auto simp: unquote_backslash split: option.splits)
      with less.hyps [OF _ u(2)] unescape_shorter [OF u(1)] Cons show ?thesis by simp
    next
      case 4
      have "\<exists>k t1. 0 < k \<and> unquote (drop k s) = Some (t1, r)"
        using less.prems Cons unquote_rune [OF 4, of s']
        by (cases "rune_size s = 0") (auto intro: exI [of _ 1] exI [of _ "rune_size s"])
      then obtain k t1 where k: "0 < k" "unquote (drop k s) = Some (t1, r)" by blast
      with less.hyps [OF _ k(2)] Cons show ?thesis by simp
    qed (use less.prems Cons in \<open>simp_all add: unquote_control\<close>)
  qed (use less.prems in simp)
qed

text \<open>What is quoted is read back, with the replacement in the place of what is not UTF-8.\<close>

lemma unhex_hex [simp]: "n < 16 \<Longrightarrow> unhex (hex_digit n) = Some n"
  by (simp add: unhex_def hex_digit_def is_digit_def)

lemma unhex_digits: "unhex CHR ''0'' = Some 0" "unhex CHR ''2'' = Some 2" "unhex CHR ''8'' = Some 8" "unhex CHR ''9'' = Some 9"
  "unhex CHR ''f'' = Some 15" "unhex CHR ''d'' = Some 13"
  by code_simp+

lemma simple_escapes: "simple_escape dq = Some dq" "simple_escape bs = Some bs" "simple_escape CHR ''n'' = Some CHR 0x0A"
  "simple_escape CHR ''r'' = Some CHR 0x0D" "simple_escape CHR ''t'' = Some CHR 0x09"
  by (simp_all add: simple_escape_def)

lemma append_one: "(@) [c] = (#) c"
  by auto

lemma EncodeRune_words: "EncodeRune 65533 = replacement"
  "EncodeRune 8232 = [CHR 0xE2, CHR 0x80, CHR 0xA8]" "EncodeRune 8233 = [CHR 0xE2, CHR 0x80, CHR 0xA9]"
  by (simp_all add: EncodeRune_def replacement_def char_of_eq_iff take_bit_eq_mod)

lemma unquote_escape_char:
  assumes "byte c < 0x80"
  shows "unquote (escape_char c @ r) = map_option (apfst ((#) c)) (unquote r)"
proof -
  have 1: ?thesis if "html_safe c"
  proof -
    have "escape_char c = [c]" "c \<noteq> dq" "c \<noteq> bs" "\<not> byte c < 0x20"
      using that by (simp_all add: escape_char_def, simp_all add: html_safe_def)
    then show ?thesis using unquote_rune [of c r] assms by (simp add: append_one)
  qed
  have "getu4 (CHR ''0'' # CHR ''0'' # hex_digit (byte c div 16) # hex_digit (byte c mod 16) # r) = Some (byte c, r)"
    using assms by (simp add: unhex_digits)
  then have 2: "unescape (''u00'' @ [hex_digit (byte c div 16), hex_digit (byte c mod 16)] @ r) = Some ([c], r)"
    using assms by (simp add: unescape_def EncodeRune_def del: getu4.simps)
  then have 3: ?thesis if "escape_char c = bs # ''u00'' @ [hex_digit (byte c div 16), hex_digit (byte c mod 16)]"
    unfolding that by (simp add: unquote_backslash append_one)
  have 4: ?thesis if "escape_char c = [bs, d]" "simple_escape d = Some c" "d \<noteq> CHR ''u''" for d
    using that by (simp add: unquote_backslash unescape_def append_one)
  show ?thesis
  proof (cases "html_safe c \<or> c = dq \<or> c = bs \<or> c = CHR 0x0A \<or> c = CHR 0x0D \<or> c = CHR 0x09")
    case True
    have "\<not> html_safe dq" "\<not> html_safe bs" "\<not> html_safe CHR 0x0A" "\<not> html_safe CHR 0x0D" "\<not> html_safe CHR 0x09"
      by (simp_all add: html_safe_def)
    then have e: "escape_char dq = [bs, dq]" "escape_char bs = [bs, bs]" "escape_char CHR 0x0A = [bs, CHR ''n'']"
      "escape_char CHR 0x0D = [bs, CHR ''r'']" "escape_char CHR 0x09 = [bs, CHR ''t'']"
      by (simp_all add: escape_char_def)
    show ?thesis using True 1 4 [of dq] 4 [of bs] 4 [of "CHR ''n''"] 4 [of "CHR ''r''"] 4 [of "CHR ''t''"] e simple_escapes by auto
  next
    case False
    then show ?thesis by (intro 3) (simp add: escape_char_def)
  qed
qed

lemma escape_simps [simp]:
  "escape [] = []" "byte c < 0x80 \<Longrightarrow> escape (c # s) = escape_char c @ escape s"
  "2 \<le> length t \<Longrightarrow> rune_size t = length t \<Longrightarrow> escape (t @ s) = escape_rune (Some t) @ escape s"
  "rune_size (c # s) = 0 \<Longrightarrow> escape (c # s) = bs # ''ufffd'' @ escape s"
  by (simp_all add: escape_def escape_rune_def runes_wide runes_bad)

lemma unquote_wide:
  assumes "2 \<le> length t" "rune_size t = length t" "\<not> byte (hd t) < 0x80"
  shows "unquote (t @ r) = map_option (apfst ((@) t)) (unquote r)"
proof -
  obtain c u where t: "t = c # u" using assms(1) by (cases t) auto
  have "rune_size (t @ r) = length t" using rune_size_prefix [of t "length t" r] assms t by auto
  moreover have "c \<noteq> dq" "c \<noteq> bs" using assms(3) t by auto
  ultimately show ?thesis using unquote_rune [of c "u @ r"] assms(3) t by simp
qed

lemma unquote_escape_wide:
  assumes "2 \<le> length t" "rune_size t = length t" "\<not> byte (hd t) < 0x80"
  shows "unquote (escape_rune (Some t) @ r) = map_option (apfst ((@) t)) (unquote r)"
proof -
  have u: "unescape (''u2028'' @ r) = Some ([CHR 0xE2, CHR 0x80, CHR 0xA8], r)"
    "unescape (''u2029'' @ r) = Some ([CHR 0xE2, CHR 0x80, CHR 0xA9], r)"
    by (simp_all add: unescape_def unhex_digits EncodeRune_words)
  consider "t = [CHR 0xE2, CHR 0x80, CHR 0xA8]" | "t = [CHR 0xE2, CHR 0x80, CHR 0xA9]"
    | "t \<noteq> [CHR 0xE2, CHR 0x80, CHR 0xA8]" "t \<noteq> [CHR 0xE2, CHR 0x80, CHR 0xA9]" by blast
  then show ?thesis
  proof cases
    case 3
    then have "escape_rune (Some t) = t" using assms(1) by (simp add: escape_rune_def)
    then show ?thesis using unquote_wide [OF assms] by simp
  qed (use u in \<open>simp_all add: escape_rune_def unquote_backslash\<close>)
qed

lemma unquote_escape: "unquote (escape s @ dq # r) = Some (ToValidUTF8 s, r)"
proof (induction s rule: runes_induct)
  case (bad c s)
  have "unescape (''ufffd'' @ escape s @ dq # r) = Some (replacement, escape s @ dq # r)"
    by (simp add: unescape_def unhex_digits EncodeRune_words)
  with bad show ?case by (simp add: unquote_backslash)
qed (simp_all add: unquote_escape_char unquote_escape_wide)

text \<open>A quoted string has no control character, in particular no newline.\<close>

lemma wide_bytes: "rune_size t = length t \<Longrightarrow> 2 \<le> length t \<Longrightarrow> c \<in> set t \<Longrightarrow> 0x20 \<le> byte c"
  by (cases t) (auto simp: rune_size.simps(2) Let_def rune_length_def second_ok_def continues_def list_all_iff
      split: list.splits if_splits)

lemma hex_digit_printable: "n < 16 \<Longrightarrow> 0x20 \<le> byte (hex_digit n)"
  by (auto simp: hex_digit_def)

lemma escape_char_printable: "byte c < 0x80 \<Longrightarrow> d \<in> set (escape_char c) \<Longrightarrow> 0x20 \<le> byte d"
proof -
  assume c: "byte c < 0x80" and d: "d \<in> set (escape_char c)"
  have "byte (hex_digit (byte c div 16)) \<ge> 0x20" "byte (hex_digit (byte c mod 16)) \<ge> 0x20"
    using c by (simp_all add: hex_digit_printable)
  moreover have "html_safe c \<Longrightarrow> 0x20 \<le> byte c" by (simp add: html_safe_def)
  ultimately have "list_all (\<lambda>d. 0x20 \<le> byte d) (escape_char c)" by (simp add: escape_char_def)
  with d show ?thesis by (simp add: list_all_iff)
qed

lemma escape_printable: "c \<in> set (escape s) \<Longrightarrow> 0x20 \<le> byte c"
proof (induction s rule: runes_induct)
  case (ascii d s)
  then show ?case using escape_char_printable by auto
next
  case (wide t s)
  have "0x20 \<le> byte c" if "c \<in> set (escape_rune (Some t))"
    using that wide wide_bytes [of t c] by (auto simp: escape_rune_def split: if_splits)
  then show ?case using wide by auto
qed auto

lemma quote_printable: "c \<in> set (quote s) \<Longrightarrow> 0x20 \<le> byte c"
  using escape_printable by (auto simp: quote_def)

section \<open>Concatenation\<close>

lemma runes_append: "valid_utf8 s \<Longrightarrow> runes (s @ t) = runes s @ runes t"
  by (induction s rule: runes_induct) (simp_all add: runes_wide)

lemma valid_utf8_append [simp]: "valid_utf8 s \<Longrightarrow> valid_utf8 (s @ t) \<longleftrightarrow> valid_utf8 t"
  by (induction s rule: runes_induct) simp_all

lemma valid_utf8_concat: "list_all valid_utf8 ss \<Longrightarrow> valid_utf8 (concat ss)"
  by (induction ss) simp_all

text \<open>The text of a string is UTF-8 whatever the string.\<close>

lemma escape_char_ascii: "byte c < 0x80 \<Longrightarrow> list_all (\<lambda>d. byte d < 0x80) (escape_char c)"
proof -
  assume c: "byte c < 0x80"
  have h: "byte (hex_digit n) < 0x80" if "n < 16" for n using that by (auto simp: hex_digit_def)
  have "byte (hex_digit (byte c div 16)) < 0x80" "byte (hex_digit (byte c mod 16)) < 0x80" using c by (simp_all add: h)
  with c show ?thesis by (simp add: escape_char_def)
qed

lemma valid_wide: "2 \<le> length t \<Longrightarrow> rune_size t = length t \<Longrightarrow> valid_utf8 t"
  using valid_utf8_simps(3) [of t "[]"] by simp

lemma valid_escape: "valid_utf8 (escape s)"
proof (induction s rule: runes_induct)
  case (ascii c s)
  then show ?case using valid_ascii [OF escape_char_ascii] by simp
next
  case (wide t s)
  have "valid_utf8 (escape_rune (Some t))"
    using valid_wide [OF wide(1,2)] wide(1) by (simp add: escape_rune_def)
  with wide show ?case by simp
qed simp_all

lemma valid_quote: "valid_utf8 (quote s)"
  by (simp add: quote_def valid_escape)

lemma valid_itoa [simp]: "valid_utf8 (itoa i)"
  by (rule valid_ascii) (auto simp: list_all_iff is_digit_def dest!: itoa_chars)

lemma ToValidUTF8_itoa [simp]: "ToValidUTF8 (itoa i) = itoa i"
  by (simp add: ToValidUTF8_valid)

lemma valid_ToValidUTF8 [simp]: "valid_utf8 (ToValidUTF8 s)"
proof (induction s rule: runes_induct)
  case (bad c s)
  have "valid_utf8 replacement"
    by (rule valid_wide) (simp_all add: replacement_def rune_size.simps(2) rune_length_def second_ok_def continues_def)
  with bad show ?case by simp
qed (simp_all add: valid_wide)

lemma ToValidUTF8_append [simp]: "valid_utf8 s \<Longrightarrow> ToValidUTF8 (s @ t) = s @ ToValidUTF8 t"
  by (induction s rule: runes_induct) simp_all

end
