(* ===== verification/Json.thy ===== *)
theory Json
  imports Json_Strings
begin

text \<open>
  The text of a value by \<open>json.Marshal\<close>, and the scanner of the decoder as a machine with a stack of
  open arrays and objects. Every text that is written is one line, and is read back as the value
  with its strings in UTF-8, also when more follows on the stream.
\<close>

section \<open>Values\<close>

text \<open>Numbers stay the text that the decoder hands on; the program writes integers only.\<close>

datatype json =
    JNull
  | JBool bool
  | JNumber string
  | JString string
  | JArray "json list"
  | JObject "(string \<times> json) list"

definition commas :: "string list \<Rightarrow> string" where
  "commas ts = join_with CHR '','' ts"

primrec Marshal :: "json \<Rightarrow> string" where
  "Marshal JNull = ''null''"
| "Marshal (JBool b) = (if b then ''true'' else ''false'')"
| "Marshal (JNumber n) = n"
| "Marshal (JString s) = quote s"
| "Marshal (JArray vs) = CHR ''['' # commas (map Marshal vs) @ '']''"
| "Marshal (JObject ps) =
     CHR ''{'' # commas (map (\<lambda>(k, t). quote k @ CHR '':'' # t) (map (map_prod id Marshal) ps)) @ ''}''"

text \<open>The value that arrives.\<close>

primrec cleaned :: "json \<Rightarrow> json" where
  "cleaned JNull = JNull"
| "cleaned (JBool b) = JBool b"
| "cleaned (JNumber n) = JNumber n"
| "cleaned (JString s) = JString (ToValidUTF8 s)"
| "cleaned (JArray vs) = JArray (map cleaned vs)"
| "cleaned (JObject ps) = JObject (map (map_prod ToValidUTF8 cleaned) ps)"

primrec integers :: "json \<Rightarrow> bool" where
  "integers JNull = True"
| "integers (JBool b) = True"
| "integers (JNumber n) = (n \<in> range itoa)"
| "integers (JString s) = True"
| "integers (JArray vs) = list_all (\<lambda>b. b) (map integers vs)"
| "integers (JObject ps) = list_all (\<lambda>p. snd p) (map (map_prod id integers) ps)"


section \<open>The scanner\<close>

text \<open>
  The next token. Digits, fraction and exponent of a number are taken as long as they last;
  what the machine below does not expect at its place is an error, as is a cut-off literal.
\<close>

datatype token = LBrace | RBrace | LBracket | RBracket | Colon | Comma | Scalar json

definition some_digits :: "string \<Rightarrow> (string \<times> string) option" where
  "some_digits s = (if takeWhile is_digit s = [] then None else Some (takeWhile is_digit s, dropWhile is_digit s))"

definition whole_part :: "string \<Rightarrow> (string \<times> string) option" where
  "whole_part s = (if take 1 s = ''0'' then Some (''0'', drop 1 s) else some_digits s)"

definition fraction_part :: "string \<Rightarrow> (string \<times> string) option" where
  "fraction_part s =
     (if take 1 s = ''.'' then map_option (apfst ((@) ''.'')) (some_digits (drop 1 s)) else Some ([], s))"

definition exponent_part :: "string \<Rightarrow> (string \<times> string) option" where
  "exponent_part s =
     (if take 1 s = ''e'' \<or> take 1 s = ''E''
      then let n = if take 1 (drop 1 s) = ''+'' \<or> take 1 (drop 1 s) = ''-'' then 2 else 1
           in map_option (apfst ((@) (take n s))) (some_digits (drop n s))
      else Some ([], s))"

definition number_text :: "string \<Rightarrow> (string \<times> string) option" where
  "number_text s =
     (let n = if take 1 s = ''-'' then 1 else 0
      in case whole_part (drop n s) of
           None \<Rightarrow> None
         | Some (w, r) \<Rightarrow>
             (case fraction_part r of
                None \<Rightarrow> None
              | Some (f, r) \<Rightarrow>
                  (case exponent_part r of None \<Rightarrow> None | Some (e, r) \<Rightarrow> Some (take n s @ w @ f @ e, r))))"

definition is_space :: "char \<Rightarrow> bool" where
  "is_space c \<longleftrightarrow> c \<in> {CHR '' '', CHR 0x09, CHR 0x0A, CHR 0x0D}"

definition next_token :: "string \<Rightarrow> (token \<times> string) option" where
  "next_token s =
     (case dropWhile is_space s of
        [] \<Rightarrow> None
      | c # r \<Rightarrow>
          if c = CHR ''{'' then Some (LBrace, r)
          else if c = CHR ''}'' then Some (RBrace, r)
          else if c = CHR ''['' then Some (LBracket, r)
          else if c = CHR '']'' then Some (RBracket, r)
          else if c = CHR '':'' then Some (Colon, r)
          else if c = CHR '','' then Some (Comma, r)
          else if c = dq then map_option (apfst (\<lambda>t. Scalar (JString t))) (unquote r)
          else if c = CHR ''t'' then map_option (Pair (Scalar (JBool True))) (drop_prefix ''rue'' r)
          else if c = CHR ''f'' then map_option (Pair (Scalar (JBool False))) (drop_prefix ''alse'' r)
          else if c = CHR ''n'' then map_option (Pair (Scalar JNull)) (drop_prefix ''ull'' r)
          else map_option (apfst (\<lambda>t. Scalar (JNumber t))) (number_text (c # r)))"

lemma some_digits_shorter: "some_digits s = Some (t, r) \<Longrightarrow> length r < length s"
  by (cases s) (auto simp: some_digits_def length_dropWhile_le le_imp_less_Suc split: if_splits)

lemma number_text_shorter: "number_text s = Some (t, r) \<Longrightarrow> length r < length s"
proof -
  have w: "length r < length s" if "whole_part s = Some (w, r)" for s w r
    using that some_digits_shorter [of s w r] by (cases s) (auto simp: whole_part_def split: if_splits)
  have f: "length r \<le> length s" if "fraction_part s = Some (w, r)" for s w r
    using that some_digits_shorter [of "drop 1 s"] by (fastforce simp: fraction_part_def split: if_splits)
  have e: "length r \<le> length s" if "exponent_part s = Some (w, r)" for s w r
    using that some_digits_shorter [of "drop 1 s"] some_digits_shorter [of "drop 2 s"]
    by (fastforce simp: exponent_part_def Let_def split: if_splits)
  assume "number_text s = Some (t, r)"
  then obtain w f1 e1 r1 r2 where "whole_part (drop (if take 1 s = ''-'' then 1 else 0) s) = Some (w, r1)" "fraction_part r1 = Some (f1, r2)" "exponent_part r2 = Some (e1, r)"
    by (auto simp: number_text_def Let_def split: option.splits)
  with w f e show ?thesis by (metis diff_le_self le_less_trans length_drop less_le_trans)
qed

lemma next_token_shorter: "next_token s = Some (t, r) \<Longrightarrow> length r < length s"
proof -
  assume t: "next_token s = Some (t, r)"
  obtain c u where u: "dropWhile is_space s = c # u" using t by (cases "dropWhile is_space s") (auto simp: next_token_def)
  then have "length u < length s" using length_dropWhile_le [of is_space s] by simp
  moreover have "length r \<le> length u \<or> length r < length (c # u)"
    using t u unquote_shorter [of u] number_text_shorter [of "c # u"]
    by (fastforce simp: next_token_def split: if_splits dest: drop_prefix_length)
  ultimately show ?thesis using u length_dropWhile_le [of is_space s] by auto
qed

text \<open>
  The decoder: the open arrays and objects, and what may come next. An object that waits for a value
  knows its key. A finished value goes to the innermost open one.
\<close>

datatype frame =
    InArray "json list"
  | InObject "(string \<times> json) list" string

datatype phase =
    WantValue
  | WantElementOrEnd
  | WantKeyOrEnd
  | WantKey
  | WantColon
  | WantCommaOrEnd
  | Finished json

fun deliver :: "json \<Rightarrow> frame list \<Rightarrow> frame list \<times> phase" where
  "deliver v [] = ([], Finished v)"
| "deliver v (InArray vs # fs) = (InArray (vs @ [v]) # fs, WantCommaOrEnd)"
| "deliver v (InObject ps k # fs) = (InObject (ps @ [(k, v)]) k # fs, WantCommaOrEnd)"

fun begin_value :: "token \<Rightarrow> frame list \<Rightarrow> (frame list \<times> phase) option" where
  "begin_value (Scalar v) fs = Some (deliver v fs)"
| "begin_value LBracket fs = Some (InArray [] # fs, WantElementOrEnd)"
| "begin_value LBrace fs = Some (InObject [] [] # fs, WantKeyOrEnd)"
| "begin_value _ fs = None"

fun begin_key :: "token \<Rightarrow> frame list \<Rightarrow> (frame list \<times> phase) option" where
  "begin_key (Scalar (JString k)) (InObject ps _ # fs) = Some (InObject ps k # fs, WantColon)"
| "begin_key _ _ = None"

fun scan_step :: "token \<Rightarrow> frame list \<times> phase \<Rightarrow> (frame list \<times> phase) option" where
  "scan_step t (fs, WantValue) = begin_value t fs"
| "scan_step t (fs, WantElementOrEnd) =
     (case fs of InArray vs # gs \<Rightarrow> if t = RBracket then Some (deliver (JArray vs) gs) else begin_value t fs | _ \<Rightarrow> None)"
| "scan_step t (fs, WantKeyOrEnd) =
     (case fs of InObject ps _ # gs \<Rightarrow> if t = RBrace then Some (deliver (JObject ps) gs) else begin_key t fs | _ \<Rightarrow> None)"
| "scan_step t (fs, WantKey) = begin_key t fs"
| "scan_step t (fs, WantColon) = (if t = Colon then Some (fs, WantValue) else None)"
| "scan_step t (fs, WantCommaOrEnd) =
     (case fs of
        InArray vs # gs \<Rightarrow>
          if t = Comma then Some (fs, WantValue) else if t = RBracket then Some (deliver (JArray vs) gs) else None
      | InObject ps _ # gs \<Rightarrow>
          if t = Comma then Some (fs, WantKey) else if t = RBrace then Some (deliver (JObject ps) gs) else None
      | [] \<Rightarrow> None)"
| "scan_step t (fs, Finished v) = None"

function scan :: "frame list \<times> phase \<Rightarrow> string \<Rightarrow> (json \<times> string) option" where
  "scan st s =
     (case snd st of
        Finished v \<Rightarrow> Some (v, s)
      | _ \<Rightarrow>
          (case next_token s of
             None \<Rightarrow> None
           | Some (t, r) \<Rightarrow> (case scan_step t st of None \<Rightarrow> None | Some st \<Rightarrow> scan st r)))"
  by pat_completeness auto
termination by (relation "measure (\<lambda>(st, s). length s)") (auto dest: next_token_shorter)

declare scan.simps [simp del]

text \<open>\<open>Decoder.Decode\<close> takes one value and leaves the rest, \<open>Unmarshal\<close> takes the whole text.\<close>

definition Decode :: "string \<Rightarrow> (json \<times> string) option" where
  "Decode s = scan ([], WantValue) s"

definition Unmarshal :: "string \<Rightarrow> json option" where
  "Unmarshal s = (case Decode s of Some (v, r) \<Rightarrow> if list_all is_space r then Some v else None | None \<Rightarrow> None)"



section \<open>Round trip\<close>

text \<open>A number ends before anything that is no digit, point or exponent.\<close>

definition number_stops :: "string \<Rightarrow> bool" where
  "number_stops r \<longleftrightarrow> (case r of [] \<Rightarrow> True | c # _ \<Rightarrow> \<not> is_digit c \<and> c \<notin> {CHR ''.'', CHR ''e'', CHR ''E''})"

lemma digits_head: "digits n = CHR ''0'' # t \<Longrightarrow> t = [] \<and> n = 0"
proof (induction n arbitrary: t rule: digits.induct)
  case (1 n)
  show ?case
  proof (cases "n < 10")
    case True
    then have "char_of (48 + n) = CHR ''0''" "t = []" using 1(2) by (simp_all add: digits.simps [of n])
    moreover from this(1) have "48 + n = 48" using True of_char_digit [of n] by simp
    ultimately show ?thesis by simp
  next
    case False
    then obtain u where "digits (n div 10) = CHR ''0'' # u"
      using 1(2) by (cases "digits (n div 10)") (auto simp: digits.simps [of n])
    with 1(1) False show ?thesis by fastforce
  qed
qed

lemma some_digits_digits: "number_stops r \<Longrightarrow> some_digits (digits n @ r) = Some (digits n, r)"
proof -
  assume r: "number_stops r"
  have d: "\<forall>c \<in> set (digits n). is_digit c" using digits_are_digits by (simp add: list_all_iff)
  have e: "takeWhile is_digit r = []" "dropWhile is_digit r = r" using r by (cases r; simp add: number_stops_def)+
  show ?thesis using d e by (simp add: some_digits_def takeWhile_append2 dropWhile_append2)
qed

lemma whole_part_digits: "number_stops r \<Longrightarrow> whole_part (digits n @ r) = Some (digits n, r)"
proof (cases "digits n")
  case (Cons c t)
  assume r: "number_stops r"
  show ?thesis
  proof (cases "c = CHR ''0''")
    case True
    with Cons digits_head [of n t] show ?thesis by (simp add: whole_part_def)
  next
    case False
    then show ?thesis using some_digits_digits [OF r, of n] Cons by (simp add: whole_part_def)
  qed
qed simp

lemma number_text_itoa: "number_stops r \<Longrightarrow> number_text (itoa i @ r) = Some (itoa i, r)"
proof -
  assume r: "number_stops r"
  then have "fraction_part r = Some ([], r)" "exponent_part r = Some ([], r)"
    by (cases r; simp add: number_stops_def fraction_part_def exponent_part_def)+
  moreover have "take 1 (digits n @ r) \<noteq> ''-''" for n using digits_no_sign [of n] by (cases "digits n") auto
  ultimately show ?thesis
    using whole_part_digits [OF r] by (simp add: number_text_def itoa_def Let_def)
qed

lemma itoa_head: "\<exists>c t. itoa i = c # t \<and> (is_digit c \<or> c = CHR ''-'')"
  using itoa_chars [of _ i] by (cases "itoa i") (auto simp: itoa_def split: if_splits)

text \<open>The first token of the text of a value, and what the rest of the text makes of it.\<close>

lemma next_token_punct [simp]:
  "next_token (CHR ''{'' # r) = Some (LBrace, r)" "next_token (CHR ''}'' # r) = Some (RBrace, r)"
  "next_token (CHR ''['' # r) = Some (LBracket, r)" "next_token (CHR '']'' # r) = Some (RBracket, r)"
  "next_token (CHR '':'' # r) = Some (Colon, r)" "next_token (CHR '','' # r) = Some (Comma, r)"
  by (simp_all add: next_token_def is_space_def)

lemma next_token_string [simp]: "next_token (quote t @ r) = Some (Scalar (JString (ToValidUTF8 t)), r)"
  by (simp add: next_token_def is_space_def quote_def unquote_escape)

lemma next_token_words [simp]:
  "next_token (''null'' @ r) = Some (Scalar JNull, r)" "next_token (''true'' @ r) = Some (Scalar (JBool True), r)"
  "next_token (''false'' @ r) = Some (Scalar (JBool False), r)"
  by (simp_all add: next_token_def is_space_def)

lemma next_token_number: "number_stops r \<Longrightarrow> next_token (itoa i @ r) = Some (Scalar (JNumber (itoa i)), r)"
proof -
  assume r: "number_stops r"
  obtain c t where c: "itoa i = c # t" "is_digit c \<or> c = CHR ''-''" using itoa_head by blast
  then have "\<not> is_space c" "c \<notin> {CHR ''{'', CHR ''}'', CHR ''['', CHR '']'', CHR '':'', CHR '','', dq, CHR ''t'', CHR ''f'', CHR ''n''}"
    by (auto simp: is_digit_def is_space_def)
  with c number_text_itoa [OF r, of i] show ?thesis by (simp add: next_token_def)
qed


lemma scan_token:
  assumes "next_token s = Some (t, r)" "scan_step t st = Some st'" "\<not> (\<exists>v. snd st = Finished v)"
  shows "scan st s = scan st' r"
  using assms by (subst scan.simps) (auto split: phase.splits)

lemma number_stops_punct [simp]:
  "number_stops (CHR '','' # r)" "number_stops (CHR ''}'' # r)" "number_stops (CHR '']'' # r)" "number_stops []"
  by (simp_all add: number_stops_def is_digit_def)

lemma commas_simps [simp]:
  "commas [] = []" "commas [t] = t" "commas (t # u # ts) = t @ CHR '','' # commas (u # ts)"
  by (simp_all add: commas_def join_with_def)

text \<open>A value may come in the phase \<open>WantValue\<close>, and first in an array.\<close>

definition ready :: "frame list \<times> phase \<Rightarrow> bool" where
  "ready st \<longleftrightarrow> snd st = WantValue \<or> (\<exists>vs fs. st = (InArray vs # fs, WantElementOrEnd))"

lemma scan_begin:
  assumes "ready st" "next_token s = Some (t, r)" "begin_value t (fst st) = Some st'"
  shows "scan st s = scan st' r"
proof (rule scan_token [OF assms(2)])
  have "t \<noteq> RBracket" using assms(3) by auto
  then show "scan_step t st = Some st'" using assms(1,3) by (cases st) (auto simp: ready_def)
qed (use assms(1) in \<open>auto simp: ready_def\<close>)

definition reads_back :: "json \<Rightarrow> bool" where
  "reads_back v \<longleftrightarrow>
     (\<forall>st r. ready st \<longrightarrow> number_stops r \<longrightarrow> scan st (Marshal v @ r) = scan (deliver (cleaned v) (fst st)) r)"

lemma scan_elements:
  assumes "\<And>w. w \<in> set (v # vs) \<Longrightarrow> reads_back w" "ready (InArray us # fs, ph)"
  shows "scan (InArray us # fs, ph) (commas (map Marshal (v # vs)) @ CHR '']'' # r) =
    scan (deliver (JArray (us @ map cleaned (v # vs))) fs) r"
  using assms
proof (induction vs arbitrary: us v ph)
  case Nil
  then have "scan (InArray us # fs, ph) (Marshal v @ CHR '']'' # r) = scan (deliver (cleaned v) (InArray us # fs)) (CHR '']'' # r)"
    by (simp add: reads_back_def)
  also have "\<dots> = scan (deliver (JArray (us @ [cleaned v])) fs) r"
    by (rule scan_token [where t = RBracket]) simp_all
  finally show ?case by simp
next
  case (Cons w vs)
  let ?rest = "commas (map Marshal (w # vs)) @ CHR '']'' # r"
  have "scan (InArray us # fs, ph) (Marshal v @ CHR '','' # ?rest) = scan (deliver (cleaned v) (InArray us # fs)) (CHR '','' # ?rest)"
    using Cons.prems by (simp add: reads_back_def)
  also have "\<dots> = scan (InArray (us @ [cleaned v]) # fs, WantValue) ?rest"
    by (rule scan_token [where t = Comma]) simp_all
  also have "\<dots> = scan (deliver (JArray ((us @ [cleaned v]) @ map cleaned (w # vs))) fs) r"
    using Cons.prems by (intro Cons.IH) (simp_all add: ready_def)
  finally show ?case by simp
qed

definition member_text :: "string \<times> json \<Rightarrow> string" where
  "member_text p = quote (fst p) @ CHR '':'' # Marshal (snd p)"

lemma scan_member:
  assumes "reads_back (snd p)" "ph \<in> {WantKey, WantKeyOrEnd}" "number_stops r"
  shows "scan (InObject qs k # fs, ph) (member_text p @ r) =
    scan (InObject (qs @ [map_prod ToValidUTF8 cleaned p]) (ToValidUTF8 (fst p)) # fs, WantCommaOrEnd) r"
proof -
  let ?k = "ToValidUTF8 (fst p)"
  have "scan (InObject qs k # fs, ph) (quote (fst p) @ CHR '':'' # Marshal (snd p) @ r) =
      scan (InObject qs ?k # fs, WantColon) (CHR '':'' # Marshal (snd p) @ r)"
    using assms(2) by (intro scan_token [OF next_token_string]) auto
  also have "\<dots> = scan (InObject qs ?k # fs, WantValue) (Marshal (snd p) @ r)"
    by (rule scan_token [where t = Colon]) simp_all
  also have "\<dots> = scan (deliver (cleaned (snd p)) (InObject qs ?k # fs)) r"
    using assms(1,3) by (simp add: reads_back_def ready_def)
  finally show ?thesis by (cases p) (simp add: member_text_def)
qed

lemma scan_members:
  assumes "\<And>q. q \<in> set (p # ps) \<Longrightarrow> reads_back (snd q)" "ph \<in> {WantKey, WantKeyOrEnd}"
  shows "scan (InObject qs k # fs, ph) (commas (map member_text (p # ps)) @ CHR ''}'' # r) =
    scan (deliver (JObject (qs @ map (map_prod ToValidUTF8 cleaned) (p # ps))) fs) r"
  using assms
proof (induction ps arbitrary: qs k p ph)
  case Nil
  let ?f = "InObject (qs @ [map_prod ToValidUTF8 cleaned p]) (ToValidUTF8 (fst p))"
  have "scan (InObject qs k # fs, ph) (member_text p @ CHR ''}'' # r) = scan (?f # fs, WantCommaOrEnd) (CHR ''}'' # r)"
    using Nil.prems by (intro scan_member) simp_all
  also have "\<dots> = scan (deliver (JObject (qs @ [map_prod ToValidUTF8 cleaned p])) fs) r"
    by (rule scan_token [where t = RBrace]) simp_all
  finally show ?case by simp
next
  case (Cons q ps)
  let ?f = "InObject (qs @ [map_prod ToValidUTF8 cleaned p]) (ToValidUTF8 (fst p))"
  let ?rest = "commas (map member_text (q # ps)) @ CHR ''}'' # r"
  have "scan (InObject qs k # fs, ph) (member_text p @ CHR '','' # ?rest) = scan (?f # fs, WantCommaOrEnd) (CHR '','' # ?rest)"
    using Cons.prems by (intro scan_member) simp_all
  also have "\<dots> = scan (?f # fs, WantKey) ?rest"
    by (rule scan_token [where t = Comma]) simp_all
  also have "\<dots> = scan (deliver (JObject ((qs @ [map_prod ToValidUTF8 cleaned p]) @ map (map_prod ToValidUTF8 cleaned) (q # ps))) fs) r"
    using Cons.prems by (intro Cons.IH) simp_all
  finally show ?case by simp
qed

lemma Marshal_object: "Marshal (JObject ps) = CHR ''{'' # commas (map member_text ps) @ ''}''"
  by (simp add: member_text_def [abs_def] case_prod_unfold comp_def)

lemma scan_array: "(\<And>v. v \<in> set vs \<Longrightarrow> reads_back v) \<Longrightarrow> reads_back (JArray vs)"
  unfolding reads_back_def [of "JArray vs"]
proof (intro allI impI)
  fix st r assume vs: "\<And>v. v \<in> set vs \<Longrightarrow> reads_back v" and st: "ready st"
  let ?rest = "commas (map Marshal vs) @ CHR '']'' # r"
  have "scan st (CHR ''['' # ?rest) = scan (InArray [] # fst st, WantElementOrEnd) ?rest"
    by (rule scan_begin [OF st, where t = LBracket]) simp_all
  also have "\<dots> = scan (deliver (cleaned (JArray vs)) (fst st)) r"
  proof (cases vs)
    case Nil
    then show ?thesis by (simp add: scan_token [where t = RBracket])
  next
    case (Cons v us)
    with vs show ?thesis using scan_elements [of v us "[]" "fst st" WantElementOrEnd r] by (simp add: ready_def)
  qed
  finally show "scan st (Marshal (JArray vs) @ r) = scan (deliver (cleaned (JArray vs)) (fst st)) r" by simp
qed

lemma scan_object: "(\<And>p. p \<in> set ps \<Longrightarrow> reads_back (snd p)) \<Longrightarrow> reads_back (JObject ps)"
  unfolding reads_back_def [of "JObject ps"]
proof (intro allI impI)
  fix st r assume ps: "\<And>p. p \<in> set ps \<Longrightarrow> reads_back (snd p)" and st: "ready st"
  let ?rest = "commas (map member_text ps) @ CHR ''}'' # r"
  have "scan st (CHR ''{'' # ?rest) = scan (InObject [] [] # fst st, WantKeyOrEnd) ?rest"
    by (rule scan_begin [OF st, where t = LBrace]) simp_all
  also have "\<dots> = scan (deliver (cleaned (JObject ps)) (fst st)) r"
  proof (cases ps)
    case Nil
    then show ?thesis by (simp add: scan_token [where t = RBrace])
  next
    case (Cons p qs)
    with ps show ?thesis using scan_members [of p qs WantKeyOrEnd "[]" "[]" "fst st" r] by simp
  qed
  finally show "scan st (Marshal (JObject ps) @ r) = scan (deliver (cleaned (JObject ps)) (fst st)) r"
    by (simp only: Marshal_object append.simps append_assoc append_Cons append_Nil)
qed

text \<open>A text is read back, up to the replacement of what is not UTF-8.\<close>

lemma Marshal_reads_back: "integers v \<Longrightarrow> reads_back v"
proof (induction v)
  case (JArray vs)
  then show ?case by (intro scan_array) (auto simp: list_all_iff)
next
  case (JObject ps)
  show ?case
  proof (rule scan_object)
    fix p assume p: "p \<in> set ps"
    then have "integers (snd p)" using JObject.prems by (auto simp: list_all_iff)
    with JObject.IH [OF p] show "reads_back (snd p)" by (cases p) simp
  qed
next
  case (JNumber n)
  then show ?case by (auto simp: reads_back_def intro!: scan_begin next_token_number)
next
  case (JString t)
  then show ?case by (auto simp: reads_back_def intro!: scan_begin next_token_string)
next
  case (JBool b)
  have "Marshal (JBool b) @ r = (if b then ''true'' @ r else ''false'' @ r)" for r by simp
  then show ?case unfolding reads_back_def
    by (auto intro!: scan_begin [where t = "Scalar (JBool b)"] simp del: Marshal.simps append.simps append_Cons)
next
  case JNull
  have "Marshal JNull @ r = ''null'' @ r" for r by simp
  then show ?case unfolding reads_back_def
    by (auto intro!: scan_begin [where t = "Scalar JNull"] simp del: Marshal.simps append.simps append_Cons)
qed

lemma Decode_Marshal: "integers v \<Longrightarrow> number_stops r \<Longrightarrow> Decode (Marshal v @ r) = Some (cleaned v, r)"
  using Marshal_reads_back [of v] by (simp add: Decode_def reads_back_def ready_def scan.simps)

lemma Unmarshal_Marshal: "integers v \<Longrightarrow> Unmarshal (Marshal v) = Some (cleaned v)"
  using Decode_Marshal [of v "[]"] by (simp add: Unmarshal_def)

text \<open>The text of a value is one line.\<close>

lemma commas_chars: "c \<in> set (commas ts) \<Longrightarrow> c = CHR '','' \<or> (\<exists>t \<in> set ts. c \<in> set t)"
  by (cases ts) (auto simp: commas_def join_with_def split: if_splits)

lemma Marshal_printable: "integers v \<Longrightarrow> c \<in> set (Marshal v) \<Longrightarrow> 0x20 \<le> byte c"
proof (induction v)
  case (JArray vs)
  then show ?case by (auto simp: list_all_iff dest!: commas_chars)
next
  case (JObject ps)
  then show ?case unfolding Marshal_object
    by (fastforce simp: list_all_iff member_text_def dest!: commas_chars quote_printable)
next
  case (JNumber n)
  then obtain i where "c \<in> set (itoa i)" by auto
  from itoa_chars [OF this] show ?case by (auto simp: is_digit_def)
qed (auto dest: quote_printable split: if_splits)


lemma valid_Marshal: "integers v \<Longrightarrow> valid_utf8 (Marshal v)"
proof -
  have c: "valid_utf8 (commas ts)" if "list_all valid_utf8 ts" for ts
    using that by (cases ts) (auto simp: commas_def join_with_def list_all_iff intro!: valid_utf8_concat)
  show "integers v \<Longrightarrow> valid_utf8 (Marshal v)"
  proof (induction v)
    case (JArray vs)
    have "valid_utf8 (commas (map Marshal vs))" using JArray by (intro c) (simp add: list_all_iff)
    then show ?case by simp
  next
    case (JObject ps)
    have "valid_utf8 (commas (map member_text ps))"
    proof (intro c, unfold list_all_iff set_map ball_simps, rule ballI)
      fix p assume p: "p \<in> set ps"
      then have "integers (snd p)" using JObject.prems by (auto simp: list_all_iff)
      with JObject.IH [OF p] have "valid_utf8 (Marshal (snd p))" by (cases p) simp
      then show "valid_utf8 (member_text p)" by (simp add: member_text_def valid_quote)
    qed
    then show ?case unfolding Marshal_object by simp
  qed (auto simp: valid_quote)
qed

end
