(* ===== verification/Wire.thy ===== *)
theory Wire
  imports Cli Json
begin

text \<open>
  The bytes between the command line and the daemon: the JSON of requests and responses
  (\<open>daemon/transport_common.go\<close>, \<open>transport_unix.go\<close>), with the decoding of an object into a
  struct. The codecs that the channel of \<open>Cli\<close> leaves open are given here for every
  request and every reply; with them each command, and a start, the restart of all workers and a
  takeover as a whole, are followed byte by byte. The text of a time is an argument.
\<close>

section \<open>Structs\<close>

text \<open>
  The decoder takes the field whose name is the key up to the case of letters; besides ASCII letters
  the Kelvin sign and the long s count as k and s. A later member overwrites an earlier one, a value
  of the wrong type is an error, \<open>null\<close> leaves the field as it is.
\<close>

fun fold_name :: "string \<Rightarrow> string" where
  "fold_name [] = []"
| "fold_name (c # s) =
     (if c = CHR 0xC5 \<and> take 1 s = [CHR 0xBF] then CHR ''s'' # fold_name (drop 1 s)
      else if c = CHR 0xE2 \<and> take 2 s = [CHR 0x84, CHR 0xAA] then CHR ''k'' # fold_name (drop 2 s)
      else lower_char c # fold_name s)"

declare fold_name.simps(2) [simp del]

fun assign_fields :: "(string \<Rightarrow> json \<Rightarrow> 'a \<Rightarrow> 'a option) \<Rightarrow> (string \<times> json) list \<Rightarrow> 'a \<Rightarrow> 'a option" where
  "assign_fields f [] x = Some x"
| "assign_fields f ((k, v) # ps) x = (case f (fold_name k) v x of None \<Rightarrow> None | Some y \<Rightarrow> assign_fields f ps y)"

definition decode_struct :: "(string \<Rightarrow> json \<Rightarrow> 'a \<Rightarrow> 'a option) \<Rightarrow> 'a \<Rightarrow> json \<Rightarrow> 'a option" where
  "decode_struct f zero v =
     (case v of JNull \<Rightarrow> Some zero | JObject ps \<Rightarrow> assign_fields f ps zero | _ \<Rightarrow> None)"

definition int_field :: "int \<Rightarrow> json \<Rightarrow> int option" where
  "int_field old v =
     (case v of
        JNull \<Rightarrow> Some old
      | JNumber n \<Rightarrow> (case Atoi n of (i, None) \<Rightarrow> Some i | _ \<Rightarrow> None)
      | _ \<Rightarrow> None)"

definition string_field :: "string \<Rightarrow> json \<Rightarrow> string option" where
  "string_field old v = (case v of JNull \<Rightarrow> Some old | JString s \<Rightarrow> Some s | _ \<Rightarrow> None)"

definition bool_field :: "bool \<Rightarrow> json \<Rightarrow> bool option" where
  "bool_field old v = (case v of JNull \<Rightarrow> Some old | JBool b \<Rightarrow> Some b | _ \<Rightarrow> None)"

text \<open>A map of strings: \<open>null\<close> is the nil map, as a member it is the empty string.\<close>

fun map_members :: "(string \<times> json) list \<Rightarrow> params \<Rightarrow> params option" where
  "map_members [] m = Some m"
| "map_members ((k, v) # ps) m = (case string_field [] v of None \<Rightarrow> None | Some s \<Rightarrow> map_members ps (m(k := s)))"

definition map_field :: "params \<Rightarrow> json \<Rightarrow> params option" where
  "map_field old v = (case v of JNull \<Rightarrow> Some (\<lambda>_. []) | JObject ps \<Rightarrow> map_members ps old | _ \<Rightarrow> None)"

text \<open>
  A value that is carried as one line of JSON: what comes out on the other side is the value
  with its strings in UTF-8.
\<close>

locale json_line =
  fixes ok :: "'a \<Rightarrow> bool" and to_json :: "'a \<Rightarrow> json" and of_json :: "json \<Rightarrow> 'a option" and clean :: "'a \<Rightarrow> 'a"
  assumes numbers: "ok x \<Longrightarrow> integers (to_json x)"
    and returned: "ok x \<Longrightarrow> of_json (cleaned (to_json x)) = Some (clean x)"
begin

lemma one_line: "ok x \<Longrightarrow> nl \<notin> set (Marshal (to_json x))"
  using Marshal_printable [OF numbers, of x nl] by auto

lemma first_value: "ok x \<Longrightarrow> \<exists>v. Decode (Marshal (to_json x) @ nl # r) = Some (v, nl # r) \<and> of_json v = Some (clean x)"
  using Decode_Marshal [OF numbers, of x "nl # r"] returned by (simp add: number_stops_def is_digit_def)

lemma whole_text: "ok x \<Longrightarrow> Option.bind (Unmarshal (Marshal (to_json x))) of_json = Some (clean x)"
  using Unmarshal_Marshal [OF numbers, of x] returned by simp

end


section \<open>Requests\<close>

text \<open>
  The model keeps the parameters as a function that is empty outside the map; \<open>keys\<close> are the keys of
  the map in ascending order, \<open>None\<close> stands for the nil map.
\<close>

definition json_request :: "string list option \<Rightarrow> Request \<Rightarrow> json" where
  "json_request keys req =
     JObject
       [(''cmd'', JNumber (itoa (rq_Cmd req))),
        (''params'', case keys of None \<Rightarrow> JNull | Some ks \<Rightarrow> JObject (map (\<lambda>k. (k, JString (rq_Params req k))) ks)),
        (''timestamp'', JNumber (itoa (rq_Timestamp req))),
        (''key'', JString (rq_Key req))]"

definition request_field :: "string \<Rightarrow> json \<Rightarrow> Request \<Rightarrow> Request option" where
  "request_field name v req =
     (if name = ''cmd'' then map_option (\<lambda>i. req\<lparr>rq_Cmd := i\<rparr>) (int_field (rq_Cmd req) v)
      else if name = ''params'' then map_option (\<lambda>m. req\<lparr>rq_Params := m\<rparr>) (map_field (rq_Params req) v)
      else if name = ''timestamp'' then map_option (\<lambda>i. req\<lparr>rq_Timestamp := i\<rparr>) (int_field (rq_Timestamp req) v)
      else if name = ''key'' then map_option (\<lambda>s. req\<lparr>rq_Key := s\<rparr>) (string_field (rq_Key req) v)
      else Some req)"

definition request_of :: "json \<Rightarrow> Request option" where
  "request_of = decode_struct request_field \<lparr>rq_Cmd = 0, rq_Params = (\<lambda>_. []), rq_Timestamp = 0, rq_Key = []\<rparr>"

text \<open>What the client writes, without the final newline, and what the server reads of a stream.\<close>

definition encode_request :: "string list option \<Rightarrow> Request \<Rightarrow> string" where
  "encode_request keys req = Marshal (json_request keys req)"

definition decode_request :: "string \<Rightarrow> Request option" where
  "decode_request s = (case Decode s of None \<Rightarrow> None | Some (v, _) \<Rightarrow> request_of v)"

definition clean_params :: "params \<Rightarrow> params" where
  "clean_params m = ToValidUTF8 \<circ> m"

definition clean_request :: "Request \<Rightarrow> Request" where
  "clean_request req = req\<lparr>rq_Params := clean_params (rq_Params req), rq_Key := ToValidUTF8 (rq_Key req)\<rparr>"

text \<open>A request whose parameters are in a map with these keys.\<close>

definition request_ok :: "string list option \<Rightarrow> Request \<Rightarrow> bool" where
  "request_ok keys req \<longleftrightarrow>
     int_range (rq_Cmd req) \<and> int_range (rq_Timestamp req) \<and>
     (case keys of
        None \<Rightarrow> rq_Params req = (\<lambda>_. [])
      | Some ks \<Rightarrow> list_all valid_utf8 ks \<and> rq_Params req \<in> {m. \<forall>k. k \<notin> set ks \<longrightarrow> m k = []})"

lemma int_field_itoa: "int_range i \<Longrightarrow> int_field old (JNumber (itoa i)) = Some i"
  by (simp add: int_field_def Atoi_itoa int_range_def)

lemma map_members_read:
  "list_all valid_utf8 ks \<Longrightarrow>
   map_members (map (map_prod ToValidUTF8 cleaned) (map (\<lambda>k. (k, JString (p k))) ks)) m =
     Some (\<lambda>k. if k \<in> set ks then ToValidUTF8 (p k) else m k)"
  by (induction ks arbitrary: m) (auto simp: string_field_def ToValidUTF8_valid fun_eq_iff)

lemma field_names [simp]:
  "fold_name ''cmd'' = ''cmd''" "fold_name ''params'' = ''params''" "fold_name ''timestamp'' = ''timestamp''"
  "fold_name ''key'' = ''key''" "fold_name ''success'' = ''success''" "fold_name ''data'' = ''data''"
  "fold_name ''error'' = ''error''"
  by code_simp+

lemma ascii_names [simp]:
  "ToValidUTF8 ''cmd'' = ''cmd''" "ToValidUTF8 ''params'' = ''params''" "ToValidUTF8 ''timestamp'' = ''timestamp''"
  "ToValidUTF8 ''key'' = ''key''" "ToValidUTF8 ''success'' = ''success''" "ToValidUTF8 ''data'' = ''data''"
  "ToValidUTF8 ''error'' = ''error''" "ToValidUTF8 ''id'' = ''id''" "ToValidUTF8 ''restarted'' = ''restarted''"
  "ToValidUTF8 ''username'' = ''username''" "ToValidUTF8 ''version'' = ''version''"
  by simp_all

interpretation request_line: json_line "request_ok keys" "json_request keys" request_of clean_request for keys
proof
  fix req assume ok: "request_ok keys req"
  show "integers (json_request keys req)"
    by (auto simp: json_request_def list_all_iff split: option.split)
  have p: "map_field (\<lambda>_. []) (cleaned (case keys of None \<Rightarrow> JNull | Some ks \<Rightarrow> JObject (map (\<lambda>k. (k, JString (rq_Params req k))) ks))) =
      Some (clean_params (rq_Params req))"
  proof (cases keys)
    case (Some ks)
    then have "list_all valid_utf8 ks" "\<forall>k. k \<notin> set ks \<longrightarrow> rq_Params req k = []" using ok by (simp_all add: request_ok_def)
    then show ?thesis
      using map_members_read [of ks "rq_Params req" "\<lambda>_. []"] Some by (auto simp: map_field_def clean_params_def fun_eq_iff)
  qed (use ok in \<open>simp add: map_field_def request_ok_def clean_params_def fun_eq_iff\<close>)
  show "request_of (cleaned (json_request keys req)) = Some (clean_request req)"
    using ok p
    by (simp add: request_of_def decode_struct_def json_request_def request_field_def int_field_itoa request_ok_def
        string_field_def clean_request_def)
qed

lemma request_carried:
  "request_ok keys req \<Longrightarrow> decode_request (encode_request keys req @ [nl]) = Some (clean_request req)"
  using request_line.first_value [of keys req "[]"] by (auto simp: decode_request_def encode_request_def)



section \<open>Responses\<close>

text \<open>\<open>Response\<close>: no data is \<open>null\<close>; data and error are left out of the text when they are empty.\<close>

record Response =
  rs_Success :: bool
  rs_Data :: json
  rs_Error :: string

definition json_response :: "Response \<Rightarrow> json" where
  "json_response r =
     JObject
       ((''success'', JBool (rs_Success r)) #
        (if rs_Data r = JNull then [] else [(''data'', rs_Data r)]) @
        (if rs_Error r = [] then [] else [(''error'', JString (rs_Error r))]))"

definition response_field :: "string \<Rightarrow> json \<Rightarrow> Response \<Rightarrow> Response option" where
  "response_field name v r =
     (if name = ''success'' then map_option (\<lambda>b. r\<lparr>rs_Success := b\<rparr>) (bool_field (rs_Success r) v)
      else if name = ''data'' then Some (r\<lparr>rs_Data := v\<rparr>)
      else if name = ''error'' then map_option (\<lambda>e. r\<lparr>rs_Error := e\<rparr>) (string_field (rs_Error r) v)
      else Some r)"

definition response_of :: "json \<Rightarrow> Response option" where
  "response_of = decode_struct response_field \<lparr>rs_Success = False, rs_Data = JNull, rs_Error = []\<rparr>"

definition encode_response :: "Response \<Rightarrow> string" where
  "encode_response r = Marshal (json_response r)"

definition decode_response :: "string \<Rightarrow> Response option" where
  "decode_response s = Option.bind (Unmarshal s) response_of"

definition clean_response :: "Response \<Rightarrow> Response" where
  "clean_response r = r\<lparr>rs_Data := cleaned (rs_Data r), rs_Error := ToValidUTF8 (rs_Error r)\<rparr>"

interpretation response_line: json_line "\<lambda>r. integers (rs_Data r)" json_response response_of clean_response
proof
  fix r :: Response assume "integers (rs_Data r)"
  then show "integers (json_response r)" by (simp add: json_response_def)
  show "response_of (cleaned (json_response r)) = Some (clean_response r)"
    by (simp add: response_of_def decode_struct_def json_response_def response_field_def bool_field_def string_field_def
        clean_response_def)
qed

lemma response_carried: "integers (rs_Data r) \<Longrightarrow> decode_response (encode_response r) = Some (clean_response r)"
  unfolding decode_response_def encode_response_def by (rule response_line.whole_text)

text \<open>
  The replies to a start, to an action on one worker, to \<open>--list\<close>, to a takeover and to the question for the version. A map
  is written with its keys in ascending order, a worker as the struct without what is marked as hidden;
  \<open>tt\<close> is the text of a time.
\<close>

definition success :: "json \<Rightarrow> Response" where
  "success data = \<lparr>rs_Success = True, rs_Data = data, rs_Error = []\<rparr>"

definition start_response :: "string \<Rightarrow> string \<Rightarrow> bool \<Rightarrow> Response" where
  "start_response key user old =
     success (JObject [(''id'', JString key), (''restarted'', JBool old), (''username'', JString user)])"

definition action_response :: "string \<Rightarrow> string \<Rightarrow> string \<Rightarrow> Response" where
  "action_response user key status =
     success (JObject [(''id'', JString key), (''status'', JString status), (''username'', JString user)])"

definition worker_json :: "(gotime \<Rightarrow> string) \<Rightarrow> WorkerInfo \<Rightarrow> json" where
  "worker_json tt w =
     JObject
       [(''id'', JString (wi_ID w)), (''username'', JString (wi_Username w)), (''server_host'', JString (wi_ServerHost w)),
        (''server_port'', JNumber (itoa (wi_ServerPort w))), (''local_host'', JString (wi_LocalHost w)),
        (''local_port'', JNumber (itoa (wi_LocalPort w))), (''remote_port'', JNumber (itoa (wi_RemotePort w))),
        (''password'', JString (wi_Password w)), (''ssh_key_path'', JString (wi_SSHKeyPath w)),
        (''start_time'', JString (tt (Some (wi_StartTime w)))), (''status'', JString (wi_Status w)),
        (''proto'', JString (wi_Proto w)), (''last_register_time'', JString (tt (wi_LastRegisterTime w))),
        (''status_change_time'', JString (tt (wi_StatusChangeTime w))),
        (''last_connect_time'', JString (tt (wi_LastConnectTime w))),
        (''offline_count'', JNumber (itoa (int (wi_OfflineCount w)))), (''max_lifetime'', JNumber (itoa (wi_MaxLifetime w)))]"

definition list_response :: "(gotime \<Rightarrow> string) \<Rightarrow> int \<Rightarrow> string \<Rightarrow> WorkerInfo list \<Rightarrow> Response" where
  "list_response tt pid version ws =
     success (JObject
       [(''daemon_pid'', JNumber (itoa pid)), (''daemon_version'', JString version),
        (''processes'', JArray (map (worker_json tt) ws))])"

definition export_json :: "(gotime \<Rightarrow> string) \<Rightarrow> WorkerInfo \<Rightarrow> json" where
  "export_json tt w =
     JObject
       [(''local_host'', JString (wi_LocalHost w)), (''local_port'', JNumber (itoa (wi_LocalPort w))),
        (''password'', JString (wi_Password w)), (''remote_port'', JNumber (itoa (wi_RemotePort w))),
        (''server_host'', JString (wi_ServerHost w)), (''server_port'', JNumber (itoa (wi_ServerPort w))),
        (''ssh_key'', JString (wi_SSHKeyPath w)), (''start_time'', JString (tt (Some (wi_StartTime w)))),
        (''username'', JString (wi_Username w))]"

definition export_response :: "(gotime \<Rightarrow> string) \<Rightarrow> string \<Rightarrow> int \<Rightarrow> WorkerInfo list \<Rightarrow> Response" where
  "export_response tt version pid ws =
     success (JObject
       [(''pid'', JNumber (itoa pid)), (''version'', JString version), (''workers'', JArray (map (export_json tt) ws))])"

definition version_response :: "string \<Rightarrow> Response" where
  "version_response version = success (JObject [(''version'', JString version)])"

text \<open>
  The texts of the errors. A name with a percent sign is not special here: the names are arguments of \<open>Sprintf\<close>.
\<close>

primrec config_error_text :: "config_error \<Rightarrow> string" where
  "config_error_text EmptyServerHost = ''ServerHost cannot be empty''"
| "config_error_text ServerHostIPv6 = ''ServerHost must be IPv4 address, not IPv6''"
| "config_error_text BadServerHost = ''Invalid ServerHost: must be IPv4 or domain name''"
| "config_error_text BadServerPort = ''ServerPort must be between 1 and 65535''"
| "config_error_text BadLocalPort = ''LocalPort must be between 1 and 65535''"
| "config_error_text BadRemotePort = ''RemotePort must be between 1 and 65535''"
| "config_error_text EmptyLocalHost = ''LocalHost cannot be empty''"
| "config_error_text BadLocalHost = ''LocalHost must be '' @ CHR 0x27 # ''localhost'' @ CHR 0x27 # '' or IPv4 address''"

definition named_target :: "string \<Rightarrow> string \<Rightarrow> int \<Rightarrow> string" where
  "named_target username server port = username @ (if server = [] then [] else ''@'' @ server @ '':'' @ itoa port)"

definition multiple_text :: "string \<Rightarrow> (string \<times> string \<times> int \<times> int) list \<Rightarrow> string" where
  "multiple_text username ps =
     ''Multiple workers found for username '' @ CHR 0x27 # username @ CHR 0x27 # '':'' @ nl #
     concat (map (\<lambda>(i, user, host, port, remote). ''  '' @ itoa i @ ''. '' @ user @ '' - '' @ host @ '':'' @ itoa port @
        ''  (remote '' @ itoa remote @ '')'' @ [nl]) (zip [1..int (length ps)] ps)) @
     ''Please specify using:'' @ nl # ''  - username@all  (all workers)'' @ nl #
     ''  - username@server:port:remote_port  (specific worker)''"

primrec error_text :: "reply_error \<Rightarrow> string" where
  "error_text (WorkerNotFound username server port) = ''worker not found: '' @ named_target username server port"
| "error_text (MultipleWorkers username ps) = multiple_text username ps"
| "error_text (NoProcesses username server port) = ''no processes found for username: '' @ named_target username server port"
| "error_text UnknownAction = ''unknown action''"
| "error_text UnknownCommand = ''unknown command''"
| "error_text NothingToStop = ''no processes to stop''"
| "error_text MissingUsername = ''missing required parameter: username''"
| "error_text (InvalidConfig e) = config_error_text e"
| "error_text LogNotFound = ''worker not found''"
| "error_text AuthenticationFailed = ''authentication failed''"

text \<open>
  The other replies; a result of no workers is the nil slice, which is written as \<open>null\<close>. The handlers pass no
  action but stop and restart, so the name of another one does not matter.
\<close>

definition array_of :: "json list \<Rightarrow> json" where
  "array_of vs = (if vs = [] then JNull else JArray vs)"

primrec action_name :: "action \<Rightarrow> string" where
  "action_name StopAction = ''stopped''"
| "action_name KillAction = ''killed''"
| "action_name RestartAction = ''restarted''"
| "action_name OtherAction = []"

definition actions_response :: "action \<Rightarrow> nat \<Rightarrow> (string \<times> string \<times> string) list \<Rightarrow> Response" where
  "actions_response action n rs =
     success (JObject
       [(''count'', JNumber (itoa (int n))), (''message'', JString (action_name action @ '' '' @ itoa (int n) @ '' workers'')),
        (''results'', array_of (map (\<lambda>(user, key, server).
           JObject [(''id'', JString key), (''server'', JString server), (''username'', JString user)]) rs))])"

definition stopped_all_response :: "nat \<Rightarrow> Response" where
  "stopped_all_response n =
     success (JObject
       [(''message'', JString (''stopped '' @ itoa (int n) @ '' workers'')), (''stopped_count'', JNumber (itoa (int n)))])"

definition pid_response :: "int \<Rightarrow> Response" where
  "pid_response pid = success (JObject [(''daemon_pid'', JNumber (itoa pid))])"

definition stop_daemon_response :: "int \<Rightarrow> Response" where
  "stop_daemon_response pid = success (JObject [(''message'', JString ''daemon shutting down''), (''pid'', JNumber (itoa pid))])"

definition log_response :: "string \<Rightarrow> string \<Rightarrow> Response" where
  "log_response key status =
     success (JObject
       [(''id'', JString key), (''note'', JString ''Log viewing not available for goroutine workers''), (''status'', JString status)])"

definition command_response :: "string \<Rightarrow> string \<Rightarrow> string \<Rightarrow> string \<Rightarrow> Response" where
  "command_response user cmd key proto =
     success (JObject
       [(''command'', JString cmd), (''id'', JString key), (''proto'', JString proto), (''username'', JString user)])"

definition commands_response :: "(string \<times> string \<times> string \<times> string \<times> string) list \<Rightarrow> Response" where
  "commands_response cs =
     success (JObject
       [(''commands'', array_of (map (\<lambda>(user, key, server, cmd, proto).
           JObject [(''command'', JString cmd), (''id'', JString key), (''proto'', JString proto), (''server'', JString server),
             (''username'', JString user)]) cs)),
        (''count'', JNumber (itoa (int (length cs)))),
        (''message'', JString (''found '' @ itoa (int (length cs)) @ '' workers''))])"

definition stopped_response :: Response where
  "stopped_response = success (JObject [(''message'', JString ''stopped'')])"

primrec reply_response :: "(gotime \<Rightarrow> string) \<Rightarrow> reply \<Rightarrow> Response" where
  "reply_response tt (ErrorReply e) = \<lparr>rs_Success = False, rs_Data = JNull, rs_Error = error_text e\<rparr>"
| "reply_response tt (ActionReply user key status) = action_response user key status"
| "reply_response tt (ActionsReply action n rs) = actions_response action n rs"
| "reply_response tt (StartReply key user old) = start_response key user old"
| "reply_response tt (StoppedAll n) = stopped_all_response n"
| "reply_response tt Registered = success JNull"
| "reply_response tt (ListReply pid version ws) = list_response tt pid version ws"
| "reply_response tt (PidReply pid) = pid_response pid"
| "reply_response tt (VersionReply version) = version_response version"
| "reply_response tt (StopDaemonReply pid) = stop_daemon_response pid"
| "reply_response tt (LogReply key status) = log_response key status"
| "reply_response tt (CommandReply user cmd key proto) = command_response user cmd key proto"
| "reply_response tt (CommandsReply cs) = commands_response cs"
| "reply_response tt (ExportReply version pid ws) = export_response tt version pid ws"
| "reply_response tt StoppedReply = stopped_response"

lemmas response_defs = success_def start_response_def action_response_def list_response_def version_response_def export_response_def
  actions_response_def stopped_all_response_def pid_response_def stop_daemon_response_def log_response_def command_response_def
  commands_response_def stopped_response_def worker_json_def export_json_def array_of_def

lemma reply_integers: "integers (rs_Data (reply_response tt r))"
  by (cases r) (auto simp: response_defs list_all_iff)

lemma reply_success: "rs_Success (reply_response tt r) \<longleftrightarrow> (\<forall>e. r \<noteq> ErrorReply e)"
  by (cases r) (simp_all add: response_defs)

lemma reply_error_text: "rs_Error (reply_response tt r) = (case r of ErrorReply e \<Rightarrow> error_text e | _ \<Rightarrow> [])"
  by (cases r) (simp_all add: response_defs)

text \<open>
  What the command line takes from the data: a string, empty when there is none, and a number, whose absence is a
  panic (\<open>None\<close>); ports and process ids are exact in the \<open>float64\<close> that they become. Of a worker it
  takes the members that \<open>--list\<close> and \<open>--restart-all\<close> use.
\<close>

definition string_member :: "(string \<times> json) list \<Rightarrow> string \<Rightarrow> string" where
  "string_member ps k = (case map_of ps k of Some (JString s) \<Rightarrow> s | _ \<Rightarrow> [])"

definition number_member :: "(string \<times> json) list \<Rightarrow> string \<Rightarrow> int option" where
  "number_member ps k = (case map_of ps k of Some (JNumber n) \<Rightarrow> Some (fst (Atoi n)) | _ \<Rightarrow> None)"

definition blank_worker :: WorkerInfo where
  "blank_worker =
     \<lparr>wi_ID = [], wi_cancel = None, wi_done = None, wi_Username = [], wi_ServerHost = [], wi_ServerPort = 0, wi_LocalHost = [],
      wi_LocalPort = 0, wi_RemotePort = 0, wi_Password = [], wi_SSHKeyPath = [], wi_StartTime = 0, wi_Status = [], wi_Proto = [],
      wi_LastRegisterTime = None, wi_StatusChangeTime = None, wi_StatsManager = None, wi_LastConnectTime = None,
      wi_ReconnectNeeded = False, wi_Config = None, wi_OfflineCount = 0, wi_MaxLifetime = 0, wi_LastBytesCheck = 0,
      wi_LastCheckTime = None, wi_BindRejectStreak = 0\<rparr>"

definition listed_worker :: "json \<Rightarrow> WorkerInfo option" where
  "listed_worker v =
     (case v of
        JObject ps \<Rightarrow>
          (case (number_member ps ''server_port'', number_member ps ''local_port'', number_member ps ''remote_port'') of
             (Some sp, Some lp, Some rp) \<Rightarrow>
               Some (blank_worker\<lparr>wi_ID := string_member ps ''id'', wi_Username := string_member ps ''username'',
                 wi_ServerHost := string_member ps ''server_host'', wi_ServerPort := sp,
                 wi_LocalHost := string_member ps ''local_host'', wi_LocalPort := lp, wi_RemotePort := rp,
                 wi_Status := string_member ps ''status'', wi_Proto := string_member ps ''proto''\<rparr>)
           | _ \<Rightarrow> None)
      | _ \<Rightarrow> None)"

text \<open>
  Of an exported worker: a port that is missing is zero here, an entry that is not an object is skipped, and so is
  the private key, which \<open>handleTakeover\<close> does not read.
\<close>

definition port_member :: "(string \<times> json) list \<Rightarrow> string \<Rightarrow> int" where
  "port_member ps k = (case number_member ps k of Some i \<Rightarrow> i | None \<Rightarrow> 0)"

definition exported_worker :: "json \<Rightarrow> WorkerInfo option" where
  "exported_worker v =
     (case v of
        JObject ps \<Rightarrow>
          Some (blank_worker\<lparr>wi_Username := string_member ps ''username'', wi_ServerHost := string_member ps ''server_host'',
            wi_ServerPort := port_member ps ''server_port'', wi_LocalHost := string_member ps ''local_host'',
            wi_LocalPort := port_member ps ''local_port'', wi_RemotePort := port_member ps ''remote_port'',
            wi_Password := string_member ps ''password''\<rparr>)
      | _ \<Rightarrow> None)"

definition export_of_data :: "(string \<times> json) list \<Rightarrow> reply option" where
  "export_of_data ps =
     (case number_member ps ''pid'' of
        None \<Rightarrow> None
      | Some pid \<Rightarrow>
          Some (ExportReply (string_member ps ''version'') pid
            (case map_of ps ''workers'' of Some (JArray vs) \<Rightarrow> List.map_filter exported_worker vs | _ \<Rightarrow> [])))"

text \<open>The reply that the members of the data make up; the commands look for different members.\<close>

definition reply_of_data :: "(string \<times> json) list \<Rightarrow> reply option" where
  "reply_of_data ps =
     (case (map_of ps ''restarted'', map_of ps ''processes'', map_of ps ''status'') of
        (Some (JBool old), _, _) \<Rightarrow> Some (StartReply (string_member ps ''id'') (string_member ps ''username'') old)
      | (_, Some (JArray vs), _) \<Rightarrow>
          (case (number_member ps ''daemon_pid'', those (map listed_worker vs)) of
             (Some pid, Some ws) \<Rightarrow> Some (ListReply pid (string_member ps ''daemon_version'') ws)
           | _ \<Rightarrow> None)
      | (_, _, Some (JString status)) \<Rightarrow>
          Some (ActionReply (string_member ps ''username'') (string_member ps ''id'') status)
      | _ \<Rightarrow> export_of_data ps)"

definition reply_of :: "Response \<Rightarrow> reply option" where
  "reply_of r = (case rs_Data r of JObject ps \<Rightarrow> if rs_Success r then reply_of_data ps else None | _ \<Rightarrow> None)"

text \<open>
  \<open>getDaemonVersion\<close> on the result of the command: the empty string for any error, a panic when the
  data is an object without a version that is a string.
\<close>

datatype version_result = VersionText string | VersionPanic

definition getDaemonVersion :: "io_error + string \<Rightarrow> version_result" where
  "getDaemonVersion res =
     (case res of
        Inl e \<Rightarrow> VersionText []
      | Inr line \<Rightarrow>
          (case decode_response line of
             None \<Rightarrow> VersionText []
           | Some resp \<Rightarrow>
               (case rs_Data resp of
                  JObject ps \<Rightarrow> (case map_of ps ''version'' of Some (JString v) \<Rightarrow> VersionText v | _ \<Rightarrow> VersionPanic)
                | _ \<Rightarrow> VersionText [])))"

lemma getDaemonVersion_read:
  "getDaemonVersion (Inr (encode_response (version_response v))) = VersionText (ToValidUTF8 v)"
  using response_carried [of "version_response v"] by (simp add: getDaemonVersion_def version_response_def success_def clean_response_def)

text \<open>The replies are read back, with their strings in UTF-8.\<close>

lemma reply_names [simp]:
  "ToValidUTF8 ''status'' = ''status''" "ToValidUTF8 ''processes'' = ''processes''" "ToValidUTF8 ''daemon_pid'' = ''daemon_pid''"
  "ToValidUTF8 ''daemon_version'' = ''daemon_version''" "ToValidUTF8 ''pid'' = ''pid''" "ToValidUTF8 ''workers'' = ''workers''"
  by simp_all

lemma start_reply_read:
  "Option.bind (decode_response (encode_response (start_response key user old))) reply_of =
     Some (StartReply (ToValidUTF8 key) (ToValidUTF8 user) old)"
  using response_carried [of "start_response key user old"]
  by (simp add: start_response_def success_def clean_response_def reply_of_def reply_of_data_def string_member_def)

lemma action_reply_read:
  "Option.bind (decode_response (encode_response (action_response user key status))) reply_of =
     Some (ActionReply (ToValidUTF8 user) (ToValidUTF8 key) (ToValidUTF8 status))"
  using response_carried [of "action_response user key status"]
  by (simp add: action_response_def success_def clean_response_def reply_of_def reply_of_data_def string_member_def)

definition ports_ok :: "WorkerInfo \<Rightarrow> bool" where
  "ports_ok w \<longleftrightarrow> int_range (wi_ServerPort w) \<and> int_range (wi_LocalPort w) \<and> int_range (wi_RemotePort w)"

definition shown_worker :: "WorkerInfo \<Rightarrow> WorkerInfo" where
  "shown_worker w =
     blank_worker\<lparr>wi_ID := ToValidUTF8 (wi_ID w), wi_Username := ToValidUTF8 (wi_Username w),
       wi_ServerHost := ToValidUTF8 (wi_ServerHost w), wi_ServerPort := wi_ServerPort w,
       wi_LocalHost := ToValidUTF8 (wi_LocalHost w), wi_LocalPort := wi_LocalPort w, wi_RemotePort := wi_RemotePort w,
       wi_Status := ToValidUTF8 (wi_Status w), wi_Proto := ToValidUTF8 (wi_Proto w)\<rparr>"

lemma listed_worker_json: "ports_ok w \<Longrightarrow> listed_worker (cleaned (worker_json tt w)) = Some (shown_worker w)"
  by (simp add: worker_json_def listed_worker_def number_member_def string_member_def shown_worker_def ports_ok_def
      Atoi_itoa int_range_def)

lemma listed_workers:
  "list_all ports_ok ws \<Longrightarrow> those (map listed_worker (map cleaned (map (worker_json tt) ws))) = Some (map shown_worker ws)"
  by (induction ws) (simp_all add: listed_worker_json)

lemma integers_list: "integers (rs_Data (list_response tt pid version ws))"
  by (auto simp: list_response_def success_def worker_json_def list_all_iff)

lemma list_reply_read:
  assumes "int_range pid" "list_all ports_ok ws"
  shows "Option.bind (decode_response (encode_response (list_response tt pid version ws))) reply_of =
     Some (ListReply pid (ToValidUTF8 version) (map shown_worker ws))"
  using response_carried [OF integers_list, of tt pid version ws] listed_workers [OF assms(2), of tt] assms(1)
  by (simp add: list_response_def success_def clean_response_def reply_of_def reply_of_data_def number_member_def
      string_member_def Atoi_itoa int_range_def)

text \<open>An exported worker is read back up to the private key and the time of its start.\<close>

definition shown_export :: "WorkerInfo \<Rightarrow> WorkerInfo" where
  "shown_export w =
     blank_worker\<lparr>wi_Username := ToValidUTF8 (wi_Username w), wi_ServerHost := ToValidUTF8 (wi_ServerHost w),
       wi_ServerPort := wi_ServerPort w, wi_LocalHost := ToValidUTF8 (wi_LocalHost w), wi_LocalPort := wi_LocalPort w,
       wi_RemotePort := wi_RemotePort w, wi_Password := ToValidUTF8 (wi_Password w)\<rparr>"

lemma exported_worker_json: "ports_ok w \<Longrightarrow> exported_worker (cleaned (export_json tt w)) = Some (shown_export w)"
  by (simp add: export_json_def exported_worker_def port_member_def number_member_def string_member_def shown_export_def
      ports_ok_def Atoi_itoa int_range_def)

lemma exported_workers:
  "list_all ports_ok ws \<Longrightarrow> List.map_filter exported_worker (map cleaned (map (export_json tt) ws)) = map shown_export ws"
  by (induction ws) (simp_all add: exported_worker_json List.map_filter_def)

lemma integers_export: "integers (rs_Data (export_response tt version pid ws))"
  by (auto simp: export_response_def success_def export_json_def list_all_iff)

lemma export_reply_read:
  assumes "int_range pid" "list_all ports_ok ws"
  shows "Option.bind (decode_response (encode_response (export_response tt version pid ws))) reply_of =
     Some (ExportReply (ToValidUTF8 version) pid (map shown_export ws))"
  using response_carried [OF integers_export, of tt version pid ws] exported_workers [OF assms(2), of tt] assms(1)
  by (simp add: export_response_def success_def clean_response_def reply_of_def reply_of_data_def export_of_data_def
      number_member_def string_member_def Atoi_itoa int_range_def)

text \<open>\<open>jsonQuote\<close>, and the line that \<open>sendManagementCommandJSON\<close> prints for an error.\<close>

definition jsonQuote :: "string \<Rightarrow> string" where
  "jsonQuote s = Marshal (JString s)"

definition json_error_line :: "string \<Rightarrow> string" where
  "json_error_line e = ''{'' @ quote ''success'' @ '': false, '' @ quote ''error'' @ '': '' @ jsonQuote e @ ''}''"


section \<open>A start command, byte by byte\<close>

text \<open>The keys of the start parameters in ascending order.\<close>

definition start_keys :: "string list" where
  "start_keys =
     [''local_host'', ''local_port'', ''max_lifetime'', ''password'', ''proto'', ''reconnect_delay'', ''remote_port'',
      ''server_host'', ''server_port'', ''ssh_key'', ''transport'', ''username'']"

text \<open>
  The keys of the parameters in the calls that are followed as a whole: a start, the restart of one worker,
  and the list of a restart of all and the takeover, which are asked for with the nil map.
\<close>

definition call_keys :: "int \<Rightarrow> string list option" where
  "call_keys cmd = (if cmd = CMD_START then Some start_keys else if cmd = CMD_RESTART then Some [''username''] else None)"

text \<open>
  The channel with these codecs; what the command line takes from the other replies stays open.
\<close>

definition json_channel :: "(gotime \<Rightarrow> string) \<Rightarrow> channel \<Rightarrow> channel" where
  "json_channel tt ch =
     ch\<lparr>ch_enc := (\<lambda>req. encode_request (call_keys (rq_Cmd req)) req), ch_dec := decode_request,
        ch_render := (\<lambda>r. encode_response (reply_response tt r)),
        ch_parse := (\<lambda>s. case Option.bind (decode_response s) reply_of of Some r \<Rightarrow> Some r | None \<Rightarrow> ch_parse ch s)\<rparr>"

lemma json_channel_sel [simp]:
  "ch_sha (json_channel tt ch) = ch_sha ch" "ch_enc (json_channel tt ch) req = encode_request (call_keys (rq_Cmd req)) req"
  "ch_dec (json_channel tt ch) = decode_request" "ch_rfc3339 (json_channel tt ch) = ch_rfc3339 ch"
  "ch_render (json_channel tt ch) r = encode_response (reply_response tt r)"
  by (simp_all add: json_channel_def)

lemma json_channel_parse: "Option.bind (decode_response s) reply_of = Some r \<Longrightarrow> ch_parse (json_channel tt ch) s = Some r"
  by (simp add: json_channel_def)

lemma response_one_line: "integers (rs_Data r) \<Longrightarrow> nl \<notin> set (encode_response r)"
  unfolding encode_response_def by (rule response_line.one_line)

lemma action_answered:
  assumes "valid_utf8 user" "valid_utf8 key" "valid_utf8 status"
  shows "answers_with (json_channel tt ch) (ActionReply user key status) (ActionReply user key status)"
  using assms response_one_line [of "action_response user key status"] json_channel_parse [OF action_reply_read, of tt ch]
  by (simp add: answers_with_def ToValidUTF8_valid) (simp add: action_response_def success_def)

lemma list_answered:
  assumes "int_range pid" "list_all ports_ok ws"
  shows "answers_with (json_channel tt ch) (ListReply pid version ws) (ListReply pid (ToValidUTF8 version) (map shown_worker ws))"
  using response_one_line [OF integers_list] json_channel_parse [OF list_reply_read [OF assms], of tt ch]
  by (simp add: answers_with_def)

lemma export_answered:
  assumes "int_range pid" "list_all ports_ok ws"
  shows "answers_with (json_channel tt ch) (ExportReply version pid ws) (ExportReply (ToValidUTF8 version) pid (map shown_export ws))"
  using response_one_line [OF integers_export] json_channel_parse [OF export_reply_read [OF assms], of tt ch]
  by (simp add: answers_with_def)

text \<open>A request with UTF-8 strings is carried by this channel as it is.\<close>

lemma json_carried:
  assumes "request_ok (call_keys cmd) (request ch cmd params ts)" "\<And>k. valid_utf8 (params k)"
    and "valid_utf8 (EncryptKeyWithTime (ch_sha ch) ts)"
  shows "carried (json_channel tt ch) (request (json_channel tt ch) cmd params ts)"
  using request_carried [OF assms(1)] assms(2,3)
  by (simp add: carried_def request_def clean_request_def clean_params_def ToValidUTF8_valid comp_def)

definition clean_config :: "Config \<Rightarrow> Config" where
  "clean_config c =
     c\<lparr>ServerHost := ToValidUTF8 (ServerHost c), Username := ToValidUTF8 (Username c), Password := ToValidUTF8 (Password c),
       SSHKeyPath := ToValidUTF8 (SSHKeyPath c), LocalHost := ToValidUTF8 (LocalHost c),
       Transport := ToValidUTF8 (Transport c), Proto := ToValidUTF8 (Proto c)\<rparr>"

lemma clean_start_params: "clean_params (buildStartParams c) = buildStartParams (clean_config c)"
  by (simp add: clean_params_def buildStartParams_def clean_config_def fun_eq_iff)

lemma start_request_ok:
  "int_range ts \<Longrightarrow> request_ok (Some start_keys) (request ch CMD_START (buildStartParams c) ts)"
  by (simp add: request_ok_def request_def start_keys_def buildStartParams_def CMD_START_def int_range_def
      min_int_def max_int_def)

lemma clean_config_key: "ToValidUTF8 (config_key (clean_config c)) = config_key (clean_config c)"
  by (intro ToValidUTF8_valid) (simp add: config_key_def generateProcessKey_def clean_config_def)

text \<open>
  Any command over JSON, with any keys of the map of parameters: the handler runs once, on the parameters in UTF-8,
  and its reply comes back as a line.
\<close>

lemma ask_over_json:
  assumes "request_ok keys (request ch cmd params ts)" "valid_utf8 (EncryptKeyWithTime (ch_sha ch) ts)"
    and "handleTransportCommand (ch_sha ch) (ch_rfc3339 ch) now cmd (clean_params params) (EncryptKeyWithTime (ch_sha ch) ts) ts d = (r, d')"
  shows "ask ((json_channel tt ch)\<lparr>ch_enc := encode_request keys\<rparr>) Linked now cmd params ts d =
    (Inr (encode_response (reply_response tt r)), d')"
proof -
  have "decode_request (encode_request keys (request ch cmd params ts) @ [nl]) = Some (request ch cmd (clean_params params) ts)"
    using request_carried [OF assms(1)] assms(2) by (simp add: clean_request_def request_def ToValidUTF8_valid)
  then show ?thesis using assms(3) response_one_line [OF reply_integers]
    by (simp add: ask_def SendCommand_def handleConnection_def request_def daemon_handler_def)
qed

lemma ask_start_over_json:
  assumes "int_range ts" "handleStart now (buildStartParams (clean_config c)) d = (StartReply key user old, d')"
  shows "ask (json_channel tt ch) Linked now CMD_START (buildStartParams c) ts d =
    (Inr (encode_response (start_response key user old)), d')"
proof -
  have "decode_request (encode_request (call_keys CMD_START) (request ch CMD_START (buildStartParams c) ts) @ [nl]) =
      Some (clean_request (request ch CMD_START (buildStartParams c) ts))"
    using request_carried [OF start_request_ok [OF assms(1)]] by (simp add: call_keys_def)
  moreover have "nl \<notin> set (encode_response (start_response key user old))"
    by (rule response_one_line) (simp add: start_response_def success_def)
  ultimately show ?thesis using assms(2)
    by (simp add: ask_def SendCommand_def handleConnection_def request_def clean_request_def clean_start_params
        daemon_handler_def handleTransportCommand_def)
qed

text \<open>What a takeover takes over of a worker whose strings are UTF-8.\<close>

definition utf8_worker :: "WorkerInfo \<Rightarrow> bool" where
  "utf8_worker w \<longleftrightarrow> valid_utf8 (wi_Username w) \<and> valid_utf8 (wi_ServerHost w) \<and> valid_utf8 (wi_LocalHost w) \<and> valid_utf8 (wi_Password w)"

lemma takeover_config_shown: "utf8_worker w \<Longrightarrow> takeover_config (shown_export w) = takeover_config w"
  by (simp add: utf8_worker_def takeover_config_def shown_export_def ToValidUTF8_valid)

lemma clean_takeover_config: "clean_config (takeover_config (shown_export w)) = takeover_config (shown_export w)"
  by (simp add: clean_config_def takeover_config_def shown_export_def ToValidUTF8_valid)

lemma takeover_carried:
  assumes "int_range ts" "valid_utf8 (EncryptKeyWithTime (ch_sha ch) ts)"
  shows "carried (json_channel tt ch)
    (request (json_channel tt ch) CMD_START (buildStartParams (takeover_config (shown_export w))) ts)"
proof (intro json_carried assms(2))
  show "request_ok (call_keys CMD_START) (request ch CMD_START (buildStartParams (takeover_config (shown_export w))) ts)"
    using start_request_ok [OF assms(1)] by (simp add: call_keys_def)
  have "buildStartParams (takeover_config (shown_export w)) k = ToValidUTF8 (buildStartParams (takeover_config (shown_export w)) k)" for k
    using clean_start_params [of "takeover_config (shown_export w)", unfolded clean_takeover_config] by (metis clean_params_def comp_apply)
  then show "valid_utf8 (buildStartParams (takeover_config (shown_export w)) k)" for k by (metis valid_ToValidUTF8)
qed


section \<open>Properties\<close>

text \<open>
  C12. Any command over JSON: whatever the reply of the handler and whatever bytes are in the names it mentions, the
  command line gets the one line of JSON that the daemon writes for it; the handler has run once, on the parameters with
  every byte that is not UTF-8 replaced by U+FFFD; the line is read as a failure exactly when the reply is an error, with the
  text of the error, and otherwise as the data of the reply.
\<close>

theorem command_over_json:
  assumes "request_ok keys (request ch cmd params ts)" "valid_utf8 (EncryptKeyWithTime (ch_sha ch) ts)"
    and "handleTransportCommand (ch_sha ch) (ch_rfc3339 ch) now cmd (clean_params params) (EncryptKeyWithTime (ch_sha ch) ts) ts d = (r, d')"
  shows "\<exists>line resp. ask ((json_channel tt ch)\<lparr>ch_enc := encode_request keys\<rparr>) Linked now cmd params ts d = (Inr line, d') \<and>
    nl \<notin> set line \<and> decode_response line = Some resp \<and> (rs_Success resp \<longleftrightarrow> (\<forall>e. r \<noteq> ErrorReply e)) \<and>
    rs_Error resp = ToValidUTF8 (case r of ErrorReply e \<Rightarrow> error_text e | _ \<Rightarrow> []) \<and>
    rs_Data resp = cleaned (rs_Data (reply_response tt r)) \<and>
    ((\<forall>k. valid_utf8 (params k)) \<longrightarrow> clean_params params = params)"
  using ask_over_json [OF assms] response_one_line [OF reply_integers] response_carried [OF reply_integers, of tt r]
  by (simp add: clean_response_def reply_success reply_error_text clean_params_def ToValidUTF8_valid comp_def)

text \<open>A command on a worker that is not there, whose name is a line feed and a byte that is not UTF-8.\<close>

theorem command_over_json_witness:
  "\<exists>line resp. ask ((json_channel (\<lambda>_. []) (start_channel web_config 7))\<lparr>ch_enc := encode_request (Some [''username''])\<rparr>) Linked 5
      CMD_LOG (user_params [nl, CHR 0xFF]) 7 (NewDaemon [] 1) = (Inr line, NewDaemon [] 1) \<and>
     decode_response line = Some resp \<and> \<not> rs_Success resp \<and> rs_Error resp = ''worker not found''"
proof -
  let ?ch = "start_channel web_config 7" and ?p = "user_params [nl, CHR 0xFF]"
  have "request_ok (Some [''username'']) (request ?ch CMD_LOG ?p 7)"
    by (simp add: request_ok_def request_def user_params_def int_range_def min_int_def max_int_def cmd_defs)
  moreover have "valid_utf8 (EncryptKeyWithTime (ch_sha ?ch) 7)"
    by (simp add: EncryptKeyWithTime_def start_channel_def TakeoverKey_def)
  moreover have "handleTransportCommand (ch_sha ?ch) (ch_rfc3339 ?ch) 5 CMD_LOG (clean_params ?p) (EncryptKeyWithTime (ch_sha ?ch) 7) 7
      (NewDaemon [] 1) = (ErrorReply LogNotFound, NewDaemon [] 1)"
    by (simp add: handleTransportCommand_def cmd_defs handleLog_def table_workers_def NewDaemon_def)
  ultimately obtain line resp where
    "ask ((json_channel (\<lambda>_. []) ?ch)\<lparr>ch_enc := encode_request (Some [''username''])\<rparr>) Linked 5 CMD_LOG ?p 7 (NewDaemon [] 1) =
      (Inr line, NewDaemon [] 1)" "decode_response line = Some resp" "\<not> rs_Success resp" "rs_Error resp = ToValidUTF8 ''worker not found''"
    using command_over_json [where tt = "\<lambda>_. []"] by fastforce
  then show ?thesis by (intro exI [of _ line] exI [of _ resp]) simp
qed

lemma daemon_config_fields:
  "daemon_config (clean_config c) =
     \<lparr>ServerHost = ToValidUTF8 (ServerHost c), ServerPort = ServerPort c, Username = ToValidUTF8 (Username c),
      Password = ToValidUTF8 (Password c), SSHKeyPath = ToValidUTF8 (SSHKeyPath c), LocalHost = ToValidUTF8 (LocalHost c),
      LocalPort = LocalPort c, RemotePort = RemotePort c,
      ReconnectDelay = (if ReconnectDelay c \<le> 0 then 30 else ReconnectDelay c), MaxOfflineCount = 0,
      MaxLifetime = MaxLifetime c, Transport = NormalizeTransport (ToValidUTF8 (Transport c)),
      Proto = NormalizeProto (ToValidUTF8 (Proto c)), Compress = False, UDPSocketBuffer = 0, UDPMaxPacketSize = 0,
      UDPFlowIdleTimeout = 0, Version = []\<rparr>"
  by (cases c) (simp add: daemon_config_def clean_config_def)

text \<open>
  C9. A start over JSON: in every reachable state of the daemon, a start command whose request and reply go over the wire
  as JSON files a running worker. Of the command line's configuration it has the server, both local and remote ends, the
  user, the key file and the lifetime as given, with every byte that is not UTF-8 replaced, transport and protocol
  normalised, and the reconnect delay, 30 seconds when none is given; compression is off and the limit of offline ticks,
  the UDP settings and the version are cleared. The password that the worker logs in with is the one that was given
  exactly when that is UTF-8. The worker that had the key before is dead, and no other entry changes.
\<close>

theorem start_over_json:
  assumes "dm_reach s" "validateConfig (clean_config c) = None" "int_range (ReconnectDelay c)" "int_range (MaxLifetime c)" "int_range ts"
  shows "\<exists>d' a. sendStartCommand (json_channel tt ch) Linked now ts c (dy_d s) =
      (ReplyShown (StartReply (config_key (clean_config c)) (Username (clean_config c))
         (entry (dy_d s) (config_key (clean_config c)) \<noteq> None)), d') \<and>
    entry d' (config_key (clean_config c)) = Some a \<and> live d' a \<and>
    (\<forall>k. k \<noteq> config_key (clean_config c) \<longrightarrow> entry d' k = entry (dy_d s) k) \<and>
    (\<forall>b. entry (dy_d s) (config_key (clean_config c)) = Some b \<longrightarrow> \<not> live d' b) \<and>
    wi_Config (worker_at d' a) = Some
      \<lparr>ServerHost = ToValidUTF8 (ServerHost c), ServerPort = ServerPort c, Username = ToValidUTF8 (Username c),
       Password = ToValidUTF8 (Password c), SSHKeyPath = ToValidUTF8 (SSHKeyPath c), LocalHost = ToValidUTF8 (LocalHost c),
       LocalPort = LocalPort c, RemotePort = RemotePort c,
       ReconnectDelay = (if ReconnectDelay c \<le> 0 then 30 else ReconnectDelay c), MaxOfflineCount = 0,
       MaxLifetime = MaxLifetime c, Transport = NormalizeTransport (ToValidUTF8 (Transport c)),
       Proto = NormalizeProto (ToValidUTF8 (Proto c)), Compress = False, UDPSocketBuffer = 0, UDPMaxPacketSize = 0,
       UDPFlowIdleTimeout = 0, Version = []\<rparr> \<and>
    (ToValidUTF8 (Password c) = Password c \<longleftrightarrow> valid_utf8 (Password c))"
proof -
  let ?c = "clean_config c" and ?d = "dy_d s"
  have inv: "daemon_inv ?d" using dm_reach_inv [OF assms(1)] by simp
  have p: "configFromStartParams (buildStartParams ?c) = daemon_config ?c"
    using validated_ports [OF assms(2)] assms(3,4)
    by (intro start_params_config) (simp_all add: port_int_range, simp_all add: clean_config_def)
  obtain r d' where h: "handleStart now (buildStartParams ?c) ?d = (r, d')" by fastforce
  note e = handleStart_effect [OF inv p _ h, unfolded daemon_config_sel, OF assms(2)]
  have "ToValidUTF8 (Username ?c) = Username ?c" by (simp add: clean_config_def ToValidUTF8_valid)
  then have "sendStartCommand (json_channel tt ch) Linked now ts c ?d = (ReplyShown r, d')"
    using ask_start_over_json [OF assms(5), of now c ?d] h e json_channel_parse [OF start_reply_read] clean_config_key [of c]
    by (simp add: sendStartCommand_def shown_def)
  moreover have "ToValidUTF8 (Password c) = Password c \<longleftrightarrow> valid_utf8 (Password c)" by (rule ToValidUTF8_id)
  ultimately show ?thesis using e
    by (intro exI [of _ d'] exI [of _ "length (dm_heap ?d)"])
      (simp add: worker_begin_def new_worker_def set_worker_status_def flip: daemon_config_fields)
qed

text \<open>A password in Latin-1.\<close>

definition latin_config :: Config where
  "latin_config = web_config\<lparr>Password := [CHR 0xE9]\<rparr>"

lemma any_password: "validateConfig (c\<lparr>Password := p\<rparr>) = validateConfig c" "config_key (c\<lparr>Password := p\<rparr>) = config_key c"
  by (simp_all add: validateConfig_def config_key_def)

theorem start_over_json_witness:
  "\<exists>d' a c tt. entry d' (config_key web_config) = Some a \<and> live d' a \<and> wi_Config (worker_at d' a) = Some c \<and>
     snd (sendStartCommand (json_channel tt (start_channel web_config 7)) Linked 5 7 latin_config (NewDaemon [] 0)) = d' \<and>
     Password c \<noteq> Password latin_config \<and> \<not> Compress c \<and> ReconnectDelay c = 30"
proof -
  have "rune_size [CHR 0xE9] = 0" by (simp add: rune_size.simps(2) rune_length_def)
  then have pw: "\<not> valid_utf8 (Password latin_config)" by (simp add: latin_config_def)
  have c: "clean_config latin_config = latin_config\<lparr>Password := ToValidUTF8 [CHR 0xE9]\<rparr>"
    by (simp add: clean_config_def latin_config_def web_config_def base_config_def getEnv_def)
  have v: "validateConfig (clean_config latin_config) = None" "config_key (clean_config latin_config) = config_key web_config"
    unfolding c unfolding latin_config_def using web_config_valid by (simp_all add: any_password)
  have i: "int_range (ReconnectDelay latin_config)" "int_range (MaxLifetime latin_config)" "int_range 7"
    by (simp_all add: latin_config_def web_config_def base_config_def getEnvInt_def int_range_def min_int_def max_int_def)
  let ?send = "sendStartCommand (json_channel (\<lambda>_. []) (start_channel web_config 7)) Linked 5 7 latin_config (NewDaemon [] 0)"
  have delay: "ReconnectDelay (daemon_config (clean_config latin_config)) = 30" "\<not> Compress (daemon_config (clean_config latin_config))"
    by (simp_all add: daemon_config_def clean_config_def latin_config_def web_config_def base_config_def getEnvInt_def)
  obtain d' a r where "?send = (r, d')" "entry d' (config_key web_config) = Some a" "live d' a"
      "wi_Config (worker_at d' a) = Some (daemon_config (clean_config latin_config))"
      "Password (daemon_config (clean_config latin_config)) \<noteq> Password latin_config"
    using start_over_json [OF dm_reach.init [of "[]" 0] v(1) i, where ch = "start_channel web_config 7" and now = 5 and tt = "\<lambda>_. []"] v(2) pw
    unfolding daemon_config_fields by auto
  with delay show ?thesis by (metis snd_conv)
qed

text \<open>
  C10. \<open>--restart-all\<close> over JSON: in every reachable state of the daemon whose workers are addressable, have ports that a
  number can hold and names in UTF-8, and whichever order the list has, the list and the restarts that go over the wire as JSON
  give every entry a new running worker under its old key with the configuration of the old one, which is dead
  afterwards, no other entry appears, and the message counts as many successes as there are workers and no failure.
\<close>

theorem restart_all_over_json:
  assumes "dm_reach s" "d = dy_d s" "d' = snd (restartAllProcesses (json_channel tt ch) Linked now (\<lambda>_. Linked) nows ts d)"
    and "dm_workers d \<noteq> []" "\<And>key a. entry d key = Some a \<Longrightarrow> addressable (worker_at d a) \<and> ports_ok (worker_at d a)"
    and "\<And>key a. entry d key = Some a \<Longrightarrow> valid_utf8 key \<and> valid_utf8 (wi_Username (worker_at d a))"
    and "int_range ts" "int_range (dm_pid d)" "valid_utf8 (EncryptKeyWithTime (ch_sha ch) ts)"
  shows "fst (restartAllProcesses (json_channel tt ch) Linked now (\<lambda>_. Linked) nows ts d) = RestartComplete (length (dm_workers d)) 0 \<and>
    (\<forall>key. entry d key = None \<longrightarrow> entry d' key = None) \<and>
    (\<forall>key a. entry d key = Some a \<longrightarrow>
       (\<exists>a'. entry d' key = Some a' \<and> live d' a' \<and> wi_Config (worker_at d' a') = Some (restart_config (worker_at d a)) \<and>
          a' \<noteq> a \<and> \<not> live d' a))"
proof (rule restart_all_restarts [OF assms(1-4)])
  let ?ch = "json_channel tt ch"
  have inv: "daemon_inv d" using dm_reach_inv [OF assms(1)] assms(2) by simp
  have keyed: "valid_utf8 k" if "k \<in> fst ` set (dm_workers d)" for k
    using that assms(6) by (metis entry_def map_of_eq_None_iff option.exhaust)
  have cmds: "int_range CMD_LIST" "int_range CMD_RESTART" by (simp_all add: cmd_defs int_range_def min_int_def max_int_def)
  show "carried ?ch (request ?ch CMD_LIST (\<lambda>_. []) ts)"
    using assms(7) cmds by (intro json_carried assms(9)) (simp_all add: request_ok_def request_def call_keys_def cmd_defs)
  show "carried ?ch (request ?ch CMD_RESTART (user_params key) ts)" if "entry d key \<noteq> None" for key
    using assms(6,7) that cmds
    by (intro json_carried assms(9)) (auto simp: request_ok_def request_def call_keys_def user_params_def cmd_defs)
  show "answers_with ?ch (ActionReply (wi_Username (worker_at d a)) key ''restarted'') (ActionReply (wi_Username (worker_at d a)) key ''restarted'')"
    if "entry d key = Some a" for key a
    using assms(6) [OF that] by (intro action_answered) simp_all
  have "list_all ports_ok (table_workers d)"
    using assms(5) inv by (fastforce simp: list_all_iff table_workers_def daemon_inv_def entry_def)
  from list_answered [OF assms(8) this]
  show "answers_with ?ch (handleList d) (ListReply (dm_pid d) (ToValidUTF8 (dm_version d)) (map shown_worker (table_workers d)))"
    by (simp add: handleList_def)
  have "map wi_ID (map shown_worker (table_workers d)) = map ToValidUTF8 (map wi_ID (table_workers d))"
    by (simp add: shown_worker_def)
  also have "\<dots> = map wi_ID (table_workers d)"
    unfolding table_ids [OF inv] using keyed by (simp add: ToValidUTF8_valid)
  finally show "mset (map wi_ID (map shown_worker (table_workers d))) = mset (map wi_ID (table_workers d))" by (simp only:)
qed (use assms(5) in blast)

theorem restart_all_over_json_witness:
  "fst (restartAllProcesses (json_channel (\<lambda>_. []) (start_channel web_config 7)) Linked 5 (\<lambda>_. Linked) (\<lambda>_. 6) 7 web_daemon) =
     RestartComplete 1 0"
proof -
  let ?w = "worker_begin 0 web_config (new_worker 0 web_config)"
  have "wi_ServerPort ?w = ServerPort web_config" "wi_LocalPort ?w = LocalPort web_config" "wi_RemotePort ?w = RemotePort web_config"
    by (simp_all add: worker_begin_def new_worker_def set_worker_status_def)
  then have sel: "wi_Username ?w = ''me''" "ports_ok ?w"
    using validated_ports [OF web_config_valid]
    by (simp_all add: ports_ok_def port_int_range worker_begin_def new_worker_def set_worker_status_def web_config_def)
  have "fst (restartAllProcesses (json_channel (\<lambda>_. []) (start_channel web_config 7)) Linked 5 (\<lambda>_. Linked) (\<lambda>_. 6) 7 web_daemon) =
      RestartComplete (length (dm_workers web_daemon)) 0"
  proof (rule restart_all_over_json [THEN conjunct1, OF web_daemon_sel(1) _ refl])
    show "web_daemon = dy_d (empty_daemon\<lparr>dy_d := web_daemon\<rparr>)" by simp
    show "dm_workers web_daemon \<noteq> []" using web_daemon_sel(4) by auto
    show "addressable (worker_at web_daemon a) \<and> ports_ok (worker_at web_daemon a)" if "entry web_daemon key = Some a" for key a
      using that web_worker_addressable sel by (simp add: web_daemon_sel split: if_splits)
    show "valid_utf8 key \<and> valid_utf8 (wi_Username (worker_at web_daemon a))" if "entry web_daemon key = Some a" for key a
      using that sel by (simp add: web_daemon_sel config_key_def generateProcessKey_def web_config_def base_config_def split: if_splits)
    show "int_range 7" "int_range (dm_pid web_daemon)"
      by (simp_all add: int_range_def min_int_def max_int_def web_daemon_def startWorker_def NewDaemon_def entry_def Let_def)
    show "valid_utf8 (EncryptKeyWithTime (ch_sha (start_channel web_config 7)) 7)"
      by (simp add: EncryptKeyWithTime_def start_channel_def TakeoverKey_def)
  qed
  then show ?thesis by (simp add: web_daemon_sel(4))
qed

text \<open>
  C20. A takeover over JSON: in every reachable state of the old daemon whose workers can be started again and have
  ports that a number can hold and strings in UTF-8, in whatever order the export is sorted, the export and the starts
  that go over the wire as JSON give the new daemon a running worker under every key and no other, with the target and the
  password of the old worker, but without its private key, for TCP only, with the automatic choice of the transport, a delay
  of 30 seconds and no maximal lifetime, whatever the old one had. The message counts every tunnel as migrated.
\<close>

theorem takeover_over_json:
  assumes "dm_reach s" "d = dy_d s" "\<And>key a. entry d key = Some a \<Longrightarrow> validateConfig (takeover_config (worker_at d a)) = None"
    and "\<And>key a. entry d key = Some a \<Longrightarrow> utf8_worker (worker_at d a)"
    and "int_range ts" "int_range (dm_pid d)" "\<And>j. int_range (tss j)"
    and "\<And>t. valid_utf8 (EncryptKeyWithTime (ch_sha ch) t)"
    and "\<And>ws. mset (order ws) = mset ws" "force \<or> confirmed input"
    and "cli_takeover (json_channel tt ch) True Linked now ts force input order (\<lambda>_. Linked) nows tss d (NewDaemon v' pid') = (out, d')"
  shows "out = Migrated (length (dm_workers d)) (length (dm_workers d)) \<and>
    (\<forall>key. entry d key = None \<longrightarrow> entry d' key = None) \<and>
    (\<forall>key a. entry d key = Some a \<longrightarrow>
       (\<exists>a' c. entry d' key = Some a' \<and> live d' a' \<and> wi_Config (worker_at d' a') = Some c \<and>
          config_key c = key \<and> LocalHost c = wi_LocalHost (worker_at d a) \<and> LocalPort c = wi_LocalPort (worker_at d a) \<and>
          Password c = wi_Password (worker_at d a) \<and> SSHKeyPath c = [] \<and> Proto c = ''tcp'' \<and> Transport c = ''auto'' \<and>
          ReconnectDelay c = 30 \<and> MaxLifetime c = 0))"
proof (rule takeover_migrates [OF assms(1-3) _ _ _ assms(9,10) _ assms(11)])
  let ?ch = "json_channel tt ch"
  have inv: "daemon_inv d" using dm_reach_inv [OF assms(1)] assms(2) by simp
  have each: "\<exists>key a. entry d key = Some a \<and> w = worker_at d a" if "w \<in> set (table_workers d)" for w
    using that inv by (fastforce simp: table_workers_def daemon_inv_def entry_def)
  have ports: "list_all ports_ok (table_workers d)"
    unfolding list_all_iff
  proof
    fix w assume "w \<in> set (table_workers d)"
    then obtain key a where "entry d key = Some a" "w = worker_at d a" using each by blast
    with assms(3) have "validateConfig (takeover_config w) = None" by simp
    from validated_ports [OF this] show "ports_ok w" by (simp add: ports_ok_def port_int_range takeover_config_def)
  qed
  show "carried ?ch (request ?ch CMD_TAKEOVER (\<lambda>_. []) ts)"
    using assms(5) by (intro json_carried assms(8)) (simp_all add: request_ok_def request_def call_keys_def cmd_defs int_range_def min_int_def max_int_def)
  show "answers_with ?ch (handleTakeoverExport d) (ExportReply (ToValidUTF8 (dm_version d)) (dm_pid d) (map shown_export (table_workers d)))"
    unfolding handleTakeoverExport_def by (rule export_answered [OF assms(6) ports])
  have "utf8_worker w" if "w \<in> set (table_workers d)" for w using each [OF that] assms(4) by blast
  then have "map takeover_config (map shown_export (table_workers d)) = map takeover_config (table_workers d)"
    by (simp add: takeover_config_shown)
  then show "mset (map takeover_config (map shown_export (table_workers d))) = mset (map takeover_config (table_workers d))" by (simp only:)
  show "carried ?ch (request ?ch CMD_START (buildStartParams (takeover_config w)) (tss j))"
    if "w \<in> set (map shown_export (table_workers d))" for w j
    using that takeover_carried [OF assms(7,8)] by auto
qed

theorem takeover_over_json_witness:
  "\<exists>d' a c. snd (cli_takeover (json_channel (\<lambda>_. []) (start_channel web_config 7)) True Linked 5 7 False ''y'' rev
      (\<lambda>_. Linked) (\<lambda>_. 6) (\<lambda>_. 7) web_daemon (NewDaemon [] 1)) = d' \<and> entry d' (config_key web_config) = Some a \<and>
     wi_Config (worker_at d' a) = Some c \<and> Proto c = ''tcp'' \<and> wi_Proto (worker_at web_daemon 0) = ''udp''"
proof -
  let ?w = "worker_at web_daemon 0" and ?ch = "json_channel (\<lambda>_. []) (start_channel web_config 7)"
  obtain out d' where t: "cli_takeover ?ch True Linked 5 7 False ''y'' rev (\<lambda>_. Linked) (\<lambda>_. 6) (\<lambda>_. 7) web_daemon (NewDaemon [] 1) = (out, d')"
    by fastforce
  have zero: "a = 0" if "entry web_daemon key = Some a" for key a using that by (simp add: web_daemon_sel split: if_splits)
  have "\<exists>a' c. entry d' (config_key web_config) = Some a' \<and> live d' a' \<and> wi_Config (worker_at d' a') = Some c \<and>
      config_key c = config_key web_config \<and> LocalHost c = wi_LocalHost ?w \<and> LocalPort c = wi_LocalPort ?w \<and>
      Password c = wi_Password ?w \<and> SSHKeyPath c = [] \<and> Proto c = ''tcp'' \<and> Transport c = ''auto'' \<and> ReconnectDelay c = 30 \<and> MaxLifetime c = 0"
  proof (rule takeover_over_json [THEN conjunct2, THEN conjunct2, rule_format, OF web_daemon_sel(1) _ _ _ _ _ _ _ _ _ t])
    show "web_daemon = dy_d (empty_daemon\<lparr>dy_d := web_daemon\<rparr>)" by simp
    show "validateConfig (takeover_config (worker_at web_daemon a)) = None" if "entry web_daemon key = Some a" for key a
      using zero [OF that] web_takeover_valid by (simp add: web_daemon_sel)
    show "utf8_worker (worker_at web_daemon a)" if "entry web_daemon key = Some a" for key a
      using zero [OF that]
      by (simp add: web_daemon_sel utf8_worker_def worker_begin_def new_worker_def set_worker_status_def web_config_def base_config_def getEnv_def)
    show "int_range 7" "int_range 7" "int_range (dm_pid web_daemon)"
      by (simp_all add: int_range_def min_int_def max_int_def web_daemon_def startWorker_def NewDaemon_def entry_def Let_def)
    show "valid_utf8 (EncryptKeyWithTime (ch_sha (start_channel web_config 7)) t)" for t
      by (simp add: EncryptKeyWithTime_def start_channel_def TakeoverKey_def)
    show "mset (rev ws) = mset ws" for ws :: "WorkerInfo list" by simp
    show "False \<or> confirmed ''y''" by code_simp
    show "entry web_daemon (config_key web_config) = Some 0" by (simp add: web_daemon_sel)
  qed
  moreover have "wi_Proto ?w = ''udp''" using web_proto by (simp add: web_daemon_sel)
  ultimately show ?thesis using t by (metis snd_conv)
qed

end
