(* ===== verification/Logging.thy ===== *)
theory Logging
  imports Go_Strings
begin

text \<open>
  The logger (\<open>base_core/logger.go\<close>) and \<open>FormatBytes\<close> (\<open>base_core/utils.go\<close>): levels as a linear
  order, which messages are printed, and the bounded number of pushes to Loki. The body of a push
  and the client's settings are in \<open>Loki\<close>; the console writer of zerolog is not modelled, and
  that zerolog ends the process after a message of level FATAL is a parameter.
\<close>

section \<open>Levels\<close>

datatype Level = DEBUG | INFO | WARN | ERROR | FATAL

primrec level_number :: "Level \<Rightarrow> nat" where
  "level_number DEBUG = 0"
| "level_number INFO = 1"
| "level_number WARN = 2"
| "level_number ERROR = 3"
| "level_number FATAL = 4"

lemma level_number_inject: "level_number a = level_number b \<longleftrightarrow> a = b"
  by (cases a; cases b) simp_all

instantiation Level :: linorder
begin

definition less_eq_Level :: "Level \<Rightarrow> Level \<Rightarrow> bool" where
  "less_eq_Level a b \<longleftrightarrow> level_number a \<le> level_number b"

definition less_Level :: "Level \<Rightarrow> Level \<Rightarrow> bool" where
  "less_Level a b \<longleftrightarrow> level_number a < level_number b"

instance
  by standard (auto simp: less_eq_Level_def less_Level_def level_number_inject)

end

definition levelToString :: "Level \<Rightarrow> string" where
  "levelToString level =
     (case level of DEBUG \<Rightarrow> ''DEBUG'' | INFO \<Rightarrow> ''INFO'' | WARN \<Rightarrow> ''WARN'' | ERROR \<Rightarrow> ''ERROR'' | FATAL \<Rightarrow> ''FATAL'')"


section \<open>The logger\<close>

text \<open>
  \<open>lg_tokens\<close> are the values in \<open>lokiChan\<close>, which has room for two; \<open>lg_pushes\<close> the goroutines
  that push or are about to; \<open>lg_stopped\<close> whether \<open>Stop\<close> has closed the two channels.
\<close>

record log_entry =
  le_level :: Level
  le_file :: string
  le_context :: string
  le_message :: string

record log_sys =
  lg_level :: Level
  lg_context :: string
  lg_enableLoki :: bool
  lg_lokiURL :: string
  lg_lokiJob :: string
  lg_processType :: string
  lg_tokens :: nat
  lg_pushes :: nat
  lg_stopped :: bool
  lg_output :: "log_entry list"
  lg_panic :: bool
  lg_exited :: bool

definition NewCustomLogger :: log_sys where
  "NewCustomLogger =
     \<lparr>lg_level = INFO, lg_context = [], lg_enableLoki = False, lg_lokiURL = [], lg_lokiJob = ''nssh'', lg_processType = [],
      lg_tokens = 0, lg_pushes = 0, lg_stopped = False, lg_output = [], lg_panic = False, lg_exited = False\<rparr>"

definition EnableLoki :: "string \<Rightarrow> string \<Rightarrow> log_sys \<Rightarrow> log_sys" where
  "EnableLoki url job l =
     (let l = l\<lparr>lg_lokiURL := url\<rparr>; l = (if job \<noteq> [] then l\<lparr>lg_lokiJob := job\<rparr> else l) in l\<lparr>lg_enableLoki := True\<rparr>)"

definition SetProcessType :: "string \<Rightarrow> log_sys \<Rightarrow> log_sys" where
  "SetProcessType processType l = l\<lparr>lg_processType := processType\<rparr>"

definition SetLogContext :: "string \<Rightarrow> string \<Rightarrow> int \<Rightarrow> log_sys \<Rightarrow> log_sys" where
  "SetLogContext username serverHost serverPort l =
     l\<lparr>lg_context := username @ '':'' @ serverHost @ '':'' @ itoa serverPort\<rparr>"

definition SetLevel :: "Level \<Rightarrow> log_sys \<Rightarrow> log_sys" where
  "SetLevel level l = l\<lparr>lg_level := level\<rparr>"

text \<open>Closing a closed channel is a panic.\<close>

definition logger_stop :: "log_sys \<Rightarrow> log_sys" where
  "logger_stop l = (if lg_stopped l then l\<lparr>lg_panic := True\<rparr> else l\<lparr>lg_stopped := True\<rparr>)"

definition file_name :: "string \<Rightarrow> string" where
  "file_name file = rev (takeWhile (\<lambda>c. c \<noteq> CHR ''/'') (rev file))"

text \<open>
  The \<open>select\<close> with a default: a full channel drops the push, a send on a closed one panics.
\<close>

definition loki_push :: "log_sys \<Rightarrow> log_sys" where
  "loki_push l =
     (if lg_stopped l then l\<lparr>lg_panic := True\<rparr>
      else if lg_tokens l < 2 then l\<lparr>lg_tokens := lg_tokens l + 1, lg_pushes := lg_pushes l + 1\<rparr>
      else l)"

definition logMessage :: "bool \<Rightarrow> Level \<Rightarrow> string \<Rightarrow> int \<Rightarrow> string \<Rightarrow> log_sys \<Rightarrow> log_sys" where
  "logMessage fatal_exits level file line message l =
     (if level < lg_level l then l
      else let e = \<lparr>le_level = level, le_file = file_name file @ '':'' @ itoa line, le_context = lg_context l, le_message = message\<rparr>;
               l = l\<lparr>lg_output := lg_output l @ [e]\<rparr>
           in if level = FATAL \<and> fatal_exits then l\<lparr>lg_exited := True\<rparr>
              else if lg_enableLoki l \<and> level \<ge> ERROR then loki_push l
              else l)"

definition log_fatal :: "bool \<Rightarrow> string \<Rightarrow> int \<Rightarrow> string \<Rightarrow> log_sys \<Rightarrow> log_sys" where
  "log_fatal fatal_exits file line message l = (logMessage fatal_exits FATAL file line message l)\<lparr>lg_exited := True\<rparr>"

text \<open>The end of a push: it takes a token back; a closed channel gives the ones that are left, then zero values.\<close>

definition push_done :: "log_sys \<Rightarrow> log_sys" where
  "push_done l = l\<lparr>lg_tokens := lg_tokens l - 1, lg_pushes := lg_pushes l - 1\<rparr>"

text \<open>\<open>formatWithFields\<close>, with the fields in the order in which the map gives them.\<close>

definition formatWithFields :: "string \<Rightarrow> (string \<times> string) list \<Rightarrow> string" where
  "formatWithFields format kvs =
     (if kvs = [] then format
      else format @ '' | fields: '' @
        concat (map2 (\<lambda>first (k, v). (if first then [] else '', '') @ k @ ''='' @ v)
          (True # replicate (length kvs - 1) False) kvs))"

inductive log_step :: "log_sys \<Rightarrow> log_sys \<Rightarrow> bool" where
  logged: "log_step l (logMessage fatal_exits level file line message l)"
| pushed: "0 < lg_pushes l \<Longrightarrow> log_step l (push_done l)"
| stopped: "log_step l (logger_stop l)"
| enabled: "log_step l (EnableLoki url job l)"
| leveled: "log_step l (SetLevel level l)"
| context_set: "log_step l (SetLogContext u h p l)"
| typed: "log_step l (SetProcessType t l)"

inductive log_reach :: "log_sys \<Rightarrow> bool" where
  init: "log_reach NewCustomLogger"
| step: "log_reach l \<Longrightarrow> \<not> lg_exited l \<Longrightarrow> \<not> lg_panic l \<Longrightarrow> log_step l l' \<Longrightarrow> log_reach l'"

inductive_cases log_stepE: "log_step l l'"

lemmas log_ops = logMessage_def loki_push_def push_done_def logger_stop_def EnableLoki_def SetLevel_def SetLogContext_def
  SetProcessType_def Let_def

lemma log_tokens: "log_reach l \<Longrightarrow> lg_tokens l = lg_pushes l \<and> lg_pushes l \<le> 2"
proof (induction rule: log_reach.induct)
  case init
  then show ?case by (simp add: NewCustomLogger_def)
next
  case (step l l')
  from step.hyps(4) step.IH show ?case by (elim log_stepE) (auto simp: log_ops)
qed

text \<open>
  At most two pushes to Loki are under way at any time, in every interleaving of messages, pushes
  and settings; only messages of level ERROR start one, and a message of level FATAL none when
  zerolog ends the process. A message of level ERROR after \<open>Stop\<close> panics when Loki is enabled.
\<close>

theorem loki_bounded:
  assumes "log_reach l"
  shows "lg_pushes l \<le> 2 \<and>
    (level < ERROR \<or> level = FATAL \<and> fatal_exits \<longrightarrow> lg_pushes (logMessage fatal_exits level file line message l) = lg_pushes l) \<and>
    (lg_stopped l \<and> lg_enableLoki l \<and> level = ERROR \<and> lg_level l \<le> ERROR \<longrightarrow>
       lg_panic (logMessage fatal_exits level file line message l))"
  using log_tokens [OF assms]
  by (auto simp: log_ops not_less [symmetric])


section \<open>Sizes for people\<close>

text \<open>
  \<open>FormatBytes\<close>: the divisor and the index of the unit, \<open>None\<close> for an index out of range, which
  panics. The decimal fraction (a floating point quotient) is not modelled.
\<close>

function unit_loop :: "int \<Rightarrow> int \<Rightarrow> nat \<Rightarrow> int \<times> nat" where
  "unit_loop n d e = (if n \<ge> 1024 then unit_loop (n div 1024) (d * 1024) (e + 1) else (d, e))"
  by pat_completeness auto
termination by (relation "measure (\<lambda>(n, d, e). nat n)") auto

declare unit_loop.simps [simp del]

definition FormatBytes :: "int \<Rightarrow> (int \<times> string) option" where
  "FormatBytes bytes =
     (if bytes < 1024 then Some (1, [])
      else let (d, e) = unit_loop (bytes div 1024) 1024 0; units = [''K'', ''M'', ''G'', ''T'', ''P'']
           in if e < length units then Some (d, units ! e) else None)"

lemma unit_loop_result:
  "0 < n \<Longrightarrow> 0 < d \<Longrightarrow> unit_loop n d e = (d', e') \<Longrightarrow>
   e \<le> e' \<and> d' = d * 1024 ^ (e' - e) \<and> 1024 ^ (e' - e) \<le> n \<and> n < 1024 ^ (e' - e + 1)"
proof (induction n d e rule: unit_loop.induct)
  case (1 n d e)
  show ?case
  proof (cases "n \<ge> 1024")
    case True
    then have "unit_loop (n div 1024) (d * 1024) (e + 1) = (d', e')" using "1.prems" by (simp add: unit_loop.simps [of n])
    with "1.IH" True "1.prems" have IH: "e + 1 \<le> e'" "d' = d * 1024 * 1024 ^ (e' - (e + 1))"
      "1024 ^ (e' - (e + 1)) \<le> n div 1024" "n div 1024 < 1024 ^ (e' - (e + 1) + 1)" by simp_all
    then have p: "e' - e = Suc (e' - (e + 1))" by simp
    show ?thesis using IH unfolding p by (simp add: mult.assoc) linarith
  next
    case False
    with "1.prems" show ?thesis by (simp add: unit_loop.simps [of n])
  qed
qed

text \<open>
  The unit is the largest one that is not larger than the number of bytes; from 2 to the 60 bytes
  on there is none and the function panics.
\<close>

theorem FormatBytes_unit:
  assumes "1024 \<le> bytes"
  shows "(bytes < 2 ^ 60 \<longrightarrow> (\<exists>e < 5. FormatBytes bytes = Some (1024 ^ (e + 1), [''K'', ''M'', ''G'', ''T'', ''P''] ! e) \<and>
      1024 ^ (e + 1) \<le> bytes \<and> bytes < 1024 ^ (e + 2))) \<and>
    (2 ^ 60 \<le> bytes \<longrightarrow> FormatBytes bytes = None)"
proof -
  obtain d e where u: "unit_loop (bytes div 1024) 1024 0 = (d, e)" by fastforce
  from unit_loop_result [OF _ _ u] assms have r: "d = 1024 ^ (e + 1)" "1024 ^ e \<le> bytes div 1024" "bytes div 1024 < 1024 ^ (e + 1)"
    by simp_all
  then have b: "1024 ^ (e + 1) \<le> bytes" "bytes < 1024 ^ (e + 2)" by simp_all
  have "e < 5 \<longleftrightarrow> bytes < 2 ^ 60"
  proof
    assume "e < 5"
    then have "(1024::int) ^ (e + 2) \<le> 1024 ^ 6" by (intro power_increasing) simp_all
    with b(2) show "bytes < 2 ^ 60" by simp
  next
    assume "bytes < 2 ^ 60"
    with b(1) have "(1024::int) ^ (e + 1) < 1024 ^ 6" by simp
    then show "e < 5" using power_less_imp_less_exp [of "1024::int" "e + 1" 6] by simp
  qed
  with u r b assms show ?thesis by (auto simp: FormatBytes_def)
qed

end
