(* ===== verification/Reports.thy ===== *)
theory Reports
  imports Daemon Logging
begin

text \<open>
  What the daemon reports (\<open>daemon/system_info.go\<close>, \<open>reportMonitorData\<close> in \<open>daemon/daemon.go\<close>): the
  texts it reads about the system and about its memory, durations for people, and the monitor
  report. Commands and files are values of the environment; sending the report is in \<open>Loki\<close>.
\<close>

section \<open>Texts about the system\<close>

definition TrimPrefix :: "string \<Rightarrow> string \<Rightarrow> string" where
  "TrimPrefix p s = (case drop_prefix p s of Some r \<Rightarrow> r | None \<Rightarrow> s)"

definition HasPrefix :: "string \<Rightarrow> string \<Rightarrow> bool" where
  "HasPrefix p s \<longleftrightarrow> drop_prefix p s \<noteq> None"

definition trim_quotes :: "string \<Rightarrow> string" where
  "trim_quotes s = rev (dropWhile (\<lambda>c. c = CHR 0x22) (rev (dropWhile (\<lambda>c. c = CHR 0x22) s)))"

abbreviation newline :: char where "newline \<equiv> CHR 0x0A"

text \<open>The lines of \<open>/etc/os-release\<close>: the first pretty name ends the search, else the first non-empty name counts.\<close>

fun os_distro :: "string list \<Rightarrow> string \<Rightarrow> string" where
  "os_distro [] distro = distro"
| "os_distro (line # lines) distro =
     (if HasPrefix ''PRETTY_NAME='' line then trim_quotes (TrimPrefix ''PRETTY_NAME='' line)
      else if HasPrefix ''NAME='' line \<and> distro = [] then os_distro lines (trim_quotes (TrimPrefix ''NAME='' line))
      else os_distro lines distro)"

record SystemInfo =
  si_KernelVersion :: string
  si_Distro :: string
  si_Arch :: string
  si_OS :: string
  si_Hostname :: string

definition GetSystemInfo :: "string \<Rightarrow> string \<Rightarrow> string option \<Rightarrow> string option \<Rightarrow> string option \<Rightarrow> SystemInfo" where
  "GetSystemInfo arch goos uname hostname os_release =
     \<lparr>si_KernelVersion = (case uname of Some k \<Rightarrow> TrimSpace k | None \<Rightarrow> []),
      si_Distro = (case os_release of Some data \<Rightarrow> os_distro (split_on newline data) [] | None \<Rightarrow> []),
      si_Arch = arch, si_OS = goos, si_Hostname = (case hostname of Some h \<Rightarrow> h | None \<Rightarrow> [])\<rparr>"

text \<open>\<open>strings.Fields\<close>, with the blank characters of \<open>unicode.IsSpace\<close>: \<open>w\<close> is the field so far, reversed.\<close>

function fields_from :: "string \<Rightarrow> string \<Rightarrow> string list" where
  "fields_from w s =
     (case first_prefix space_encodings s of
        Some r \<Rightarrow> (if w = [] then [] else [rev w]) @ fields_from [] r
      | None \<Rightarrow> (case s of [] \<Rightarrow> if w = [] then [] else [rev w] | c # r \<Rightarrow> fields_from (c # w) r))"
  by pat_completeness auto
termination
  by (relation "measure (\<lambda>(w, s). length s)") (auto intro: first_prefix_length [OF _ space_encodings_nonempty])

declare fields_from.simps [simp del]

definition Fields :: "string \<Rightarrow> string list" where
  "Fields s = fields_from [] s"

record ProcessMemory =
  pm_PID :: int
  pm_VmRSS :: int
  pm_VmSize :: int

text \<open>\<open>strconv.ParseInt\<close> in base 10 with 64 bits is \<open>Atoi\<close>; a value that cannot be read is ignored.\<close>

definition status_value :: "string \<Rightarrow> string \<Rightarrow> int \<Rightarrow> int" where
  "status_value key line old =
     (if HasPrefix key line
      then let parts = Fields line
           in if length parts \<ge> 2 then case Atoi (parts ! 1) of (v, None) \<Rightarrow> v | _ \<Rightarrow> old else old
      else old)"

definition status_line :: "string \<Rightarrow> ProcessMemory \<Rightarrow> ProcessMemory" where
  "status_line line mem =
     (let mem = mem\<lparr>pm_VmRSS := status_value ''VmRSS:'' line (pm_VmRSS mem)\<rparr>
      in mem\<lparr>pm_VmSize := status_value ''VmSize:'' line (pm_VmSize mem)\<rparr>)"

definition getProcessMemoryLinux :: "int \<Rightarrow> string option \<Rightarrow> bool \<times> ProcessMemory" where
  "getProcessMemoryLinux pid status =
     (let mem = \<lparr>pm_PID = pid, pm_VmRSS = 0, pm_VmSize = 0\<rparr>
      in case status of
           None \<Rightarrow> (False, mem)
         | Some data \<Rightarrow> (True, fold status_line (split_on newline data) mem))"

definition getProcessMemoryDarwin :: "int \<Rightarrow> string option \<Rightarrow> bool \<times> ProcessMemory" where
  "getProcessMemoryDarwin pid output =
     (let mem = \<lparr>pm_PID = pid, pm_VmRSS = 0, pm_VmSize = 0\<rparr>
      in case output of
           None \<Rightarrow> (False, mem)
         | Some out \<Rightarrow>
             (let parts = Fields (TrimSpace out)
              in if length parts < 2 then (False, mem)
                 else let mem = (case Atoi (parts ! 0) of (rss, None) \<Rightarrow> mem\<lparr>pm_VmRSS := rss\<rparr> | _ \<Rightarrow> mem);
                          mem = (case Atoi (parts ! 1) of (vsz, None) \<Rightarrow> mem\<lparr>pm_VmSize := vsz\<rparr> | _ \<Rightarrow> mem)
                      in (pm_VmRSS mem > 0, mem)))"

definition GetProcessMemory :: "string \<Rightarrow> int \<Rightarrow> string option \<Rightarrow> bool \<times> ProcessMemory" where
  "GetProcessMemory goos pid text =
     (if goos = ''linux'' then getProcessMemoryLinux pid text
      else if goos = ''darwin'' then getProcessMemoryDarwin pid text
      else (False, \<lparr>pm_PID = pid, pm_VmRSS = 0, pm_VmSize = 0\<rparr>))"


section \<open>Durations for people\<close>

text \<open>
  \<open>int(d.Seconds())\<close> cuts off the fraction (the rounding of the floating point sum is left out). The
  daemon and the command line differ only below a minute.
\<close>

definition whole_seconds :: "duration \<Rightarrow> int" where
  "whole_seconds d = (if d < 0 then - ((- d) div second) else d div second)"

definition duration_text :: "(int \<Rightarrow> string) \<Rightarrow> duration \<Rightarrow> string" where
  "duration_text short d =
     (let seconds = whole_seconds d
      in if seconds \<ge> 365 * 24 * 3600 then itoa (seconds div (365 * 24 * 3600)) @ ''y''
         else if seconds \<ge> 30 * 24 * 3600 then itoa (seconds div (30 * 24 * 3600)) @ ''m''
         else if seconds \<ge> 7 * 24 * 3600 then itoa (seconds div (7 * 24 * 3600)) @ ''w''
         else if seconds \<ge> 24 * 3600 then itoa (seconds div (24 * 3600)) @ ''d''
         else if seconds \<ge> 3600 then itoa (seconds div 3600) @ ''h''
         else if seconds \<ge> 60 then itoa (seconds div 60) @ ''m''
         else short seconds)"

definition formatDuration :: "duration \<Rightarrow> string" where
  "formatDuration d = duration_text (\<lambda>seconds. itoa seconds @ ''s'') d"

definition formatDuration_cli :: "duration \<Rightarrow> string" where
  "formatDuration_cli d = duration_text (\<lambda>_. ''1m'') d"

text \<open>Minutes and months have the same letter: up to twelve of them have the same text.\<close>

lemma duration_ambiguous:
  assumes "1 \<le> n" "n \<le> 12"
  shows "formatDuration (n * minute) = formatDuration (n * 30 * 24 * 60 * minute)"
proof -
  have "whole_seconds (n * minute) = n * 60" "whole_seconds (n * 30 * 24 * 60 * minute) = n * 2592000"
    using assms(1) by (simp_all add: whole_seconds_def duration_defs)
  then show ?thesis using assms by (simp add: formatDuration_def duration_text_def Let_def)
qed


section \<open>The monitor report\<close>

record MonitorReport =
  mr_DaemonPID :: int
  mr_DaemonMemory :: ProcessMemory
  mr_OnlineWorkers :: nat
  mr_OfflineWorkers :: nat
  mr_TotalWorkers :: nat
  mr_Version :: string
  mr_SystemInfo :: SystemInfo
  mr_WorkersMemory :: "(string \<times> string \<times> string) list"

definition worker_memory :: "instant \<Rightarrow> WorkerInfo \<Rightarrow> string \<times> string \<times> string" where
  "worker_memory now p =
     (wi_ID p, wi_Status p, case wi_StatusChangeTime p of None \<Rightarrow> [] | Some t \<Rightarrow> formatDuration (now - t))"

definition reportMonitorData :: "instant \<Rightarrow> SystemInfo \<Rightarrow> bool \<times> ProcessMemory \<Rightarrow> Daemon \<Rightarrow> MonitorReport" where
  "reportMonitorData now info memory d =
     (let processes = table_workers d;
          daemonMem = (if fst memory then snd memory else \<lparr>pm_PID = dm_pid d, pm_VmRSS = 0, pm_VmSize = 0\<rparr>);
          (online, offline) = fold (\<lambda>p (online, offline). if wi_Status p = ''online'' then (online + 1, offline) else (online, offline + 1))
            processes (0, 0)
      in \<lparr>mr_DaemonPID = dm_pid d, mr_DaemonMemory = daemonMem, mr_OnlineWorkers = online, mr_OfflineWorkers = offline,
          mr_TotalWorkers = length processes, mr_Version = dm_version d, mr_SystemInfo = info,
          mr_WorkersMemory = map (worker_memory now) processes\<rparr>)"

text \<open>The counts of the report add up, and it has one line per worker of the table.\<close>

lemma count_online:
  "fold (\<lambda>p (online, offline). if wi_Status p = ''online'' then (online + 1, offline) else (online, offline + 1)) ps (a, b) =
     (a + length (filter (\<lambda>p. wi_Status p = ''online'') ps), b + length (filter (\<lambda>p. wi_Status p \<noteq> ''online'') ps))"
  by (induction ps arbitrary: a b) auto

lemma report_counts:
  "mr_OnlineWorkers (reportMonitorData now info memory d) + mr_OfflineWorkers (reportMonitorData now info memory d) =
     length (dm_workers d)"
  "mr_OnlineWorkers (reportMonitorData now info memory d) = length (filter (\<lambda>p. wi_Status p = ''online'') (table_workers d))"
  "length (mr_WorkersMemory (reportMonitorData now info memory d)) = length (dm_workers d)"
proof -
  have "length (filter P ps) + length (filter (\<lambda>p. \<not> P p) ps) = length ps" for P and ps :: "WorkerInfo list"
    by (induction ps) auto
  from this [of "\<lambda>p. wi_Status p = ''online''" "table_workers d"] show "mr_OnlineWorkers (reportMonitorData now info memory d) + mr_OfflineWorkers (reportMonitorData now info memory d) =
      length (dm_workers d)"
    by (simp add: reportMonitorData_def count_online Let_def) (simp add: table_workers_def)
qed (simp_all add: reportMonitorData_def count_online Let_def table_workers_def)

text \<open>The kernel's status text is read right: a label, a tab, blanks, the number, the unit.\<close>

definition graphic :: "char \<Rightarrow> bool" where
  "graphic c \<longleftrightarrow> 33 \<le> (of_char c :: nat) \<and> of_char c < (127 :: nat)"

lemma first_prefix_none: "list_all (\<lambda>e. e \<noteq> [] \<and> hd e \<noteq> c) es \<Longrightarrow> first_prefix es (c # s) = None"
proof (induction es)
  case (Cons e es)
  then obtain d r where "e = d # r" "d \<noteq> c" by (cases e) auto
  with Cons show ?case by simp
qed simp

lemma graphic_no_space: "graphic c \<Longrightarrow> first_prefix space_encodings (c # s) = None"
proof (rule first_prefix_none)
  assume c: "graphic c"
  have "list_all (\<lambda>e. e \<noteq> [] \<and> \<not> graphic (hd e)) space_encodings" by code_simp
  then show "list_all (\<lambda>e. e \<noteq> [] \<and> hd e \<noteq> c) space_encodings"
    using c by (auto simp: list_all_iff)
qed

lemma fields_graphic:
  "list_all graphic ds \<Longrightarrow> fields_from w (ds @ s) = fields_from (rev ds @ w) s"
proof (induction ds arbitrary: w)
  case (Cons c ds)
  then show ?case by (simp add: fields_from.simps [of w] graphic_no_space)
qed simp

lemma fields_space:
  "c \<in> {CHR 0x20, CHR 0x09} \<Longrightarrow> fields_from w (c # s) = (if w = [] then [] else [rev w]) @ fields_from [] s"
  by (auto simp: fields_from.simps [of w] space_encodings_def)

lemma fields_spaces: "fields_from [] (replicate k (CHR 0x20) @ s) = fields_from [] s"
  by (induction k) (simp_all add: fields_space)

lemma itoa_graphic: "list_all graphic (itoa n)"
  by (auto simp: list_all_iff graphic_def is_digit_def dest!: itoa_chars)

lemma status_value_read:
  assumes "min_int \<le> n" "n \<le> max_int" "list_all graphic key" "key \<noteq> []"
  shows "status_value key (key @ CHR 0x09 # replicate k (CHR 0x20) @ itoa n @ '' kB'') old = n"
proof -
  have d: "drop_prefix key (key @ s) = Some s" for s by (induction key) simp_all
  have i: "itoa n \<noteq> []" by (simp add: itoa_def)
  have "Fields (key @ CHR 0x09 # replicate k (CHR 0x20) @ itoa n @ '' kB'') = [key, itoa n] @ fields_from [] ''kB''"
    using fields_graphic [OF assms(3)] fields_graphic [OF itoa_graphic] assms(4) i
    by (simp add: Fields_def fields_space fields_spaces)
  then show ?thesis using d Atoi_itoa [OF assms(1,2)] by (simp add: status_value_def HasPrefix_def)
qed

end
