(* ===== verification/Loki.thy ===== *)
theory Loki
  imports Reports Json
begin

text \<open>
  The pushes to Loki: log messages (\<open>pushLogToLoki\<close> in \<open>base_core/logger.go\<close>), statistics
  (\<open>pushToLoki\<close> in \<open>base_core/stats.go\<close>) and monitor reports (\<open>PushMonitorReport\<close> in
  \<open>daemon/system_info.go\<close>, with the Windows variants of \<open>daemon/system_info_windows.go\<close>), as the
  body that is posted and the error that is returned; the shared HTTP client. What the server
  answers, figures of the Go runtime and texts of times are arguments. The lemmas show that the
  entry can be read back from the body.
\<close>

section \<open>The client\<close>

record http_client =
  hc_timeout :: duration
  hc_insecure :: bool

text \<open>\<open>GetHTTPClient\<close>: the first call makes the client, with the settings of that moment.\<close>

definition GetHTTPClient :: "string \<Rightarrow> bool \<Rightarrow> http_client option \<Rightarrow> http_client \<times> http_client option" where
  "GetHTTPClient goos lokiEnabled once =
     (case once of
        Some client \<Rightarrow> (client, once)
      | None \<Rightarrow>
          (let client = \<lparr>hc_timeout = (if lokiEnabled then 3 * second else 5 * second),
                         hc_insecure = (goos = ''darwin'' \<or> goos = ''windows'')\<rparr>
           in (client, Some client)))"

lemma client_made_once:
  "GetHTTPClient goos enabled once = (client, once') \<Longrightarrow> GetHTTPClient goos enabled' once' = (client, once')"
  by (auto simp: GetHTTPClient_def Let_def split: option.splits)

text \<open>The constants of zerolog, and the level that is set there.\<close>

datatype zerolog_level = DebugLevel | InfoLevel | WarnLevel | ErrorLevel | FatalLevel

definition levelToZerologLevel :: "Level \<Rightarrow> zerolog_level" where
  "levelToZerologLevel level =
     (case level of
        DEBUG \<Rightarrow> DebugLevel | INFO \<Rightarrow> InfoLevel | WARN \<Rightarrow> WarnLevel | ERROR \<Rightarrow> ErrorLevel | FATAL \<Rightarrow> FatalLevel)"


section \<open>Bodies\<close>

definition string_object :: "(string \<times> string) list \<Rightarrow> json" where
  "string_object ps = JObject (map (\<lambda>(k, v). (k, JString v)) ps)"

definition loki_data :: "(string \<times> string) list \<Rightarrow> int \<Rightarrow> string \<Rightarrow> json" where
  "loki_data stream timestamp line =
     JObject
       [(''streams'', JArray
          [JObject
             [(''stream'', string_object stream),
              (''values'', JArray [JArray [JString (itoa timestamp), JString line]])]])]"

text \<open>\<open>Encoder.Encode\<close> ends the text with a newline.\<close>

definition Encode :: "json \<Rightarrow> string" where
  "Encode v = Marshal v @ [CHR 0x0A]"

text \<open>Reading a body: the stream of the first entry, and its line.\<close>

definition loki_entry :: "json \<Rightarrow> (json \<times> string) option" where
  "loki_entry v =
     (case v of
        JObject [(_, JArray [JObject [(_, stream), (_, JArray [JArray [_, JString line]])]])] \<Rightarrow> Some (stream, line)
      | _ \<Rightarrow> None)"

definition stored_entry :: "string \<Rightarrow> (json \<times> json) option" where
  "stored_entry body =
     Option.bind (Unmarshal body) (\<lambda>v. Option.bind (loki_entry v) (\<lambda>(stream, line). map_option (Pair stream) (Unmarshal line)))"

lemma integers_strings [simp]: "integers (string_object ps)"
  by (auto simp: string_object_def list_all_iff)

lemma integers_loki_data: "integers (loki_data stream timestamp line)"
  by (simp add: loki_data_def)

lemma Unmarshal_Encode: "integers v \<Longrightarrow> Unmarshal (Encode v) = Some (cleaned v)"
  using Decode_Marshal [of v "[CHR 0x0A]"]
  by (simp add: Unmarshal_def Encode_def number_stops_def is_digit_def is_space_def)

lemma valid_Encode: "integers v \<Longrightarrow> valid_utf8 (Encode v)"
  by (simp add: Encode_def valid_Marshal)

lemma loki_entry_data: "valid_utf8 line \<Longrightarrow> loki_entry (cleaned (loki_data stream timestamp line)) = Some (cleaned (string_object stream), line)"
  by (simp add: loki_data_def loki_entry_def ToValidUTF8_valid)

text \<open>The entry inside the text inside the body is read back whole.\<close>

lemma stored_line:
  assumes "valid_utf8 line" "Unmarshal line = Some v" "Unmarshal body = Some (cleaned (loki_data stream timestamp line))"
  shows "stored_entry body = Some (cleaned (string_object stream), v)"
  using assms by (simp add: stored_entry_def loki_entry_data)

lemma stored_body [simp]:
  "integers v \<Longrightarrow> stored_entry (Encode (loki_data stream timestamp (Encode v))) = Some (cleaned (string_object stream), cleaned v)"
  "integers v \<Longrightarrow> stored_entry (Marshal (loki_data stream timestamp (Marshal v))) = Some (cleaned (string_object stream), cleaned v)"
  by (rule stored_line, simp_all add: integers_loki_data valid_Marshal valid_Encode Unmarshal_Marshal Unmarshal_Encode)+


section \<open>Pushes\<close>

text \<open>What becomes of the request: a URL that is none, no answer, or a status.\<close>

datatype http_result = BadURL | NoAnswer | Answer int

definition log_stream :: "string \<Rightarrow> string \<Rightarrow> (string \<times> string) list" where
  "log_stream job processType =
     [(''job'', job)] @ (if processType \<noteq> [] then [(''process_type'', processType)] else [])"

definition log_json :: "string \<Rightarrow> string \<Rightarrow> string \<Rightarrow> int \<Rightarrow> string \<Rightarrow> string \<Rightarrow> json" where
  "log_json level message file line context time_text =
     JObject
       [(''context'', JString context), (''file'', JString file), (''level'', JString level),
        (''line'', JNumber (itoa line)), (''message'', JString message), (''timestamp'', JString time_text)]"

text \<open>\<open>pushLogToLoki\<close>: what is posted, if anything; errors and the answer are ignored.\<close>

definition pushLogToLoki ::
  "http_result \<Rightarrow> int \<Rightarrow> string \<Rightarrow> string \<Rightarrow> string \<Rightarrow> string \<Rightarrow> int \<Rightarrow> log_sys \<Rightarrow> string option" where
  "pushLogToLoki answer timestamp time_text level message file line l =
     (if lg_lokiURL l = [] then None
      else let entry = Encode (log_json level message file line (lg_context l) time_text);
               body = Encode (loki_data (log_stream (lg_lokiJob l) (lg_processType l)) timestamp entry)
           in if answer = BadURL then None else Some body)"

text \<open>
  The statistics; \<open>tt\<close> and \<open>dt\<close> are the texts of times and durations, \<open>memory\<close> the members of the
  memory figures.
\<close>

definition stats_json :: "(gotime \<Rightarrow> string) \<Rightarrow> (duration \<Rightarrow> string) \<Rightarrow> (string \<times> json) list \<Rightarrow> Stats \<Rightarrow> json" where
  "stats_json tt dt memory s =
     JObject
       ([(''username'', JString (sa_Username s)), (''server_host'', JString (sa_ServerHost s)),
         (''server_port'', JNumber (itoa (sa_ServerPort s))), (''local_host'', JString (sa_LocalHost s)),
         (''local_port'', JNumber (itoa (sa_LocalPort s))), (''start_time'', JString (tt (Some (sa_StartTime s)))),
         (''uptime'', JString (dt (sa_Uptime s))), (''connection_count'', JNumber (itoa (sint (sa_ConnectionCount s)))),
         (''failure_count'', JNumber (itoa (sint (sa_FailureCount s)))),
         (''last_connect_time'', JString (tt (sa_LastConnectTime s))),
         (''status_duration'', JString (dt (sa_StatusDuration s))),
         (''bytes_transferred'', JNumber (itoa (sint (sa_BytesTransferred s)))),
         (''connection_status'', JString (sa_ConnectionStatus s)),
         (''last_status_change_time'', JString (tt (Some (sa_LastStatusChangeTime s))))] @
        (if memory = [] then [] else [(''memory'', JObject memory)]))"

text \<open>\<open>pushToLoki\<close> of the statistics: what is posted, and whether an error is logged.\<close>

definition pushToLoki :: "http_result \<Rightarrow> int \<Rightarrow> json \<Rightarrow> string option \<times> bool" where
  "pushToLoki answer timestamp stats =
     (let body = Marshal (loki_data [(''job'', ''nssh'')] timestamp (Marshal stats))
      in case answer of
           BadURL \<Rightarrow> (None, True)
         | NoAnswer \<Rightarrow> (Some body, True)
         | Answer status \<Rightarrow> (Some body, status \<ge> 400))"

definition memory_json :: "ProcessMemory \<Rightarrow> json" where
  "memory_json m =
     JObject [(''pid'', JNumber (itoa (pm_PID m))), (''vmrss'', JNumber (itoa (pm_VmRSS m))), (''vmsize'', JNumber (itoa (pm_VmSize m)))]"

definition system_json :: "SystemInfo \<Rightarrow> json" where
  "system_json s =
     string_object [(''kernel_version'', si_KernelVersion s), (''distro'', si_Distro s), (''arch'', si_Arch s), (''os'', si_OS s),
       (''hostname'', si_Hostname s)]"

definition worker_memory_json :: "string \<times> string \<times> string \<Rightarrow> json" where
  "worker_memory_json w = string_object [(''id'', fst w), (''status'', fst (snd w)), (''status_stable_duration'', snd (snd w))]"

text \<open>The report; allocated bytes, goroutines and the text of the time come from outside.\<close>

definition report_json :: "int \<Rightarrow> int \<Rightarrow> string \<Rightarrow> MonitorReport \<Rightarrow> json" where
  "report_json alloc goroutines time_text r =
     JObject
       [(''alloc_memory'', JNumber (itoa alloc)), (''daemon_memory'', memory_json (mr_DaemonMemory r)),
        (''daemon_pid'', JNumber (itoa (mr_DaemonPID r))), (''goroutine_count'', JNumber (itoa goroutines)),
        (''offline_workers'', JNumber (itoa (int (mr_OfflineWorkers r)))), (''online_workers'', JNumber (itoa (int (mr_OnlineWorkers r)))),
        (''report_type'', JString ''daemon_monitor''), (''system_info'', system_json (mr_SystemInfo r)),
        (''timestamp'', JString time_text), (''total_workers'', JNumber (itoa (int (mr_TotalWorkers r)))),
        (''version'', JString (mr_Version r)), (''vmrss_memory'', JNumber (itoa (pm_VmRSS (mr_DaemonMemory r)))),
        (''workers_memory'', JArray (map worker_memory_json (mr_WorkersMemory r)))]"

datatype push_error = CreateRequestFailed | SendRequestFailed | LokiStatus int

definition monitor_stream :: "(string \<times> string) list" where
  "monitor_stream = [(''job'', ''nssh''), (''process_type'', ''daemon''), (''report_type'', ''monitor'')]"

definition PushMonitorReport :: "string \<Rightarrow> http_result \<Rightarrow> int \<Rightarrow> json \<Rightarrow> push_error option \<times> string option" where
  "PushMonitorReport lokiURL answer timestamp report =
     (if lokiURL = [] then (None, None)
      else let body = Encode (loki_data monitor_stream timestamp (Encode report))
           in case answer of
                BadURL \<Rightarrow> (Some CreateRequestFailed, None)
              | NoAnswer \<Rightarrow> (Some SendRequestFailed, Some body)
              | Answer status \<Rightarrow> (if status \<ge> 400 then Some (LokiStatus status) else None, Some body))"

lemma integers_report: "integers (report_json alloc goroutines time_text r)"
  by (auto simp: report_json_def memory_json_def system_json_def worker_memory_json_def list_all_iff)

lemma integers_stats: "list_all (\<lambda>p. integers (snd p)) memory \<Longrightarrow> integers (stats_json tt dt memory s)"
  by (auto simp: stats_json_def list_all_iff)

lemma integers_log: "integers (log_json level message file line context time_text)"
  by (simp add: log_json_def)

lemma posted_log:
  assumes "pushLogToLoki answer timestamp time_text level message file line l = Some body"
  shows "stored_entry body =
    Some (cleaned (string_object (log_stream (lg_lokiJob l) (lg_processType l))), cleaned (log_json level message file line (lg_context l) time_text))"
  using assms by (auto simp: pushLogToLoki_def integers_log Let_def split: if_splits)

lemma posted_stats:
  assumes "pushToLoki answer timestamp (stats_json tt dt memory s) = (Some body, err)" "list_all (\<lambda>p. integers (snd p)) memory"
  shows "stored_entry body = Some (cleaned (string_object [(''job'', ''nssh'')]), cleaned (stats_json tt dt memory s))"
  using assms(1) integers_stats [OF assms(2)] by (auto simp: pushToLoki_def Let_def split: http_result.splits)

text \<open>
  A monitor report is pushed whole: unless the URL is empty, which is no error, or is none, the body
  is posted, the report is in it, and there is no error exactly for an answer below 400.
\<close>

theorem report_pushed:
  assumes "lokiURL \<noteq> []" "answer \<noteq> BadURL"
    and "report = report_json alloc goroutines time_text (reportMonitorData now info memory d)"
  shows "\<exists>body. snd (PushMonitorReport lokiURL answer timestamp report) = Some body \<and>
    stored_entry body = Some (cleaned (string_object monitor_stream), cleaned report) \<and>
    (fst (PushMonitorReport lokiURL answer timestamp report) = None \<longleftrightarrow> (\<exists>status < 400. answer = Answer status))"
  using assms(1,2) unfolding assms(3) by (cases answer) (auto simp: PushMonitorReport_def integers_report Let_def)


section \<open>Windows\<close>

definition GetSystemInfo_windows :: "string \<Rightarrow> string \<Rightarrow> string option \<Rightarrow> SystemInfo" where
  "GetSystemInfo_windows arch goos hostname =
     \<lparr>si_KernelVersion = [], si_Distro = [], si_Arch = arch, si_OS = goos,
      si_Hostname = (case hostname of Some h \<Rightarrow> h | None \<Rightarrow> [])\<rparr>"

text \<open>
  \<open>GetProcessMemory\<close>: whether the process can be opened, and what \<open>GetProcessMemoryInfo\<close> gives, the
  working set and its peak in bytes, as \<open>uintptr\<close> of 64 bits.
\<close>

definition GetProcessMemory_windows :: "int \<Rightarrow> bool \<Rightarrow> (64 word \<times> 64 word) option \<Rightarrow> bool \<times> ProcessMemory" where
  "GetProcessMemory_windows pid opened counters =
     (let mem = \<lparr>pm_PID = pid, pm_VmRSS = 0, pm_VmSize = 0\<rparr>
      in if \<not> opened then (False, mem)
         else case counters of
                None \<Rightarrow> (False, mem)
              | Some (workingSet, peak) \<Rightarrow>
                  (True, mem\<lparr>pm_VmRSS := sint (workingSet div 1024), pm_VmSize := sint (peak div 1024)\<rparr>))"

text \<open>The quotients fit, so the conversion to \<open>int64\<close> keeps them.\<close>

lemma windows_memory:
  "GetProcessMemory_windows pid True (Some (w, p)) = (True, \<lparr>pm_PID = pid, pm_VmRSS = uint w div 1024, pm_VmSize = uint p div 1024\<rparr>)"
proof -
  have "sint (x div 1024) = uint x div 1024" for x :: "64 word"
  proof -
    have "uint x div 1024 < 2 ^ 63" "0 \<le> uint x div 1024" using uint_bounded [of x] by (simp_all add: pos_imp_zdiv_nonneg_iff)
    moreover have "uint (x div 1024) = uint x div 1024" by (simp add: uint_div)
    ultimately show ?thesis by (simp add: sint_uint signed_take_bit_int_eq_self)
  qed
  then show ?thesis by (simp add: GetProcessMemory_windows_def)
qed

definition formatDuration_windows :: "duration \<Rightarrow> string" where
  "formatDuration_windows d = duration_text (\<lambda>seconds. itoa seconds @ ''s'') d"

definition PushMonitorReport_windows :: "string \<Rightarrow> http_result \<Rightarrow> int \<Rightarrow> json \<Rightarrow> push_error option \<times> string option" where
  "PushMonitorReport_windows lokiURL answer timestamp report =
     (if lokiURL = [] then (None, None)
      else let body = Encode (loki_data monitor_stream timestamp (Encode report))
           in case answer of
                BadURL \<Rightarrow> (Some CreateRequestFailed, None)
              | NoAnswer \<Rightarrow> (Some SendRequestFailed, Some body)
              | Answer status \<Rightarrow> (if status \<ge> 400 then Some (LokiStatus status) else None, Some body))"

text \<open>The two systems differ only in where the figures come from.\<close>

lemma windows_agrees:
  "formatDuration_windows = formatDuration" "PushMonitorReport_windows = PushMonitorReport"
  "GetSystemInfo_windows arch goos hostname = GetSystemInfo arch goos None hostname None"
  by (simp_all add: fun_eq_iff formatDuration_windows_def formatDuration_def PushMonitorReport_windows_def PushMonitorReport_def
      GetSystemInfo_windows_def GetSystemInfo_def)

end
