(* ===== verification/Daemon_Process.thy ===== *)
theory Daemon_Process
  imports Local_Transport Reports
begin

text \<open>
  The daemon as a process: its start (\<open>runDaemonInner\<close> and \<open>StartDaemonProcess\<close>), its PID file
  (\<open>daemon/platform_*.go\<close>, \<open>base_core/daemon_check_windows.go\<close>), the ways in which it ends
  (\<open>Run\<close>, \<open>monitorAgent\<close> and \<open>handleStopDaemonTransport\<close> in \<open>daemon/daemon.go\<close>) as sequences of
  operations on the socket file, the PID file and the process, and how several processes
  interleave them. What system calls answer is an argument.
\<close>

section \<open>Starting\<close>

text \<open>\<open>runDaemonInner\<close>: nothing when a daemon runs, else a daemon with the version of the build.\<close>

definition runDaemonInner :: "bool \<Rightarrow> string \<Rightarrow> int \<Rightarrow> Daemon option" where
  "runDaemonInner running build pid =
     (if running then None else Some (NewDaemon (if build = [] then ''dev'' else build) pid))"

text \<open>What is started: the file, the arguments and the directory; a new session or process group goes with it.\<close>

record launch =
  la_path :: string
  la_args :: "string list"
  la_dir :: string

definition StartDaemonProcess_unix :: "string option \<Rightarrow> (launch \<Rightarrow> string + int) \<Rightarrow> string \<Rightarrow> string + int" where
  "StartDaemonProcess_unix devnull_error start execPath =
     (case devnull_error of
        Some e \<Rightarrow> Inl (''failed to open /dev/null: '' @ e)
      | None \<Rightarrow> start \<lparr>la_path = execPath, la_args = [''nssh'', ''--daemon-inner''], la_dir = ''/''\<rparr>)"

definition StartDaemonProcess_windows :: "env \<Rightarrow> (launch \<Rightarrow> string + int) \<Rightarrow> string \<Rightarrow> string + int" where
  "StartDaemonProcess_windows env start execPath =
     start \<lparr>la_path = execPath, la_args = [execPath, ''--daemon-inner''], la_dir = env ''TEMP''\<rparr>"

text \<open>Signals: the error of finding the process or of sending.\<close>

datatype sig = SIGTERM | SIGKILL | OtherSignal int

definition SendSignal :: "(int \<Rightarrow> string option) \<Rightarrow> (int \<Rightarrow> sig \<Rightarrow> string option) \<Rightarrow> int \<Rightarrow> sig \<Rightarrow> string option" where
  "SendSignal locate send pid s = (case locate pid of Some e \<Rightarrow> Some e | None \<Rightarrow> send pid s)"

definition TerminateProcess_unix :: "(int \<Rightarrow> string option) \<Rightarrow> (int \<Rightarrow> sig \<Rightarrow> string option) \<Rightarrow> int \<Rightarrow> string option" where
  "TerminateProcess_unix locate send pid = (case locate pid of Some e \<Rightarrow> Some e | None \<Rightarrow> send pid SIGTERM)"

definition TerminateProcess_windows :: "(int \<Rightarrow> string option) \<Rightarrow> (int \<Rightarrow> sig \<Rightarrow> string option) \<Rightarrow> int \<Rightarrow> string option" where
  "TerminateProcess_windows locate send pid = (case locate pid of Some e \<Rightarrow> Some e | None \<Rightarrow> send pid SIGKILL)"


section \<open>Processes and PID files on Windows\<close>

text \<open>What the system says of a process id: it cannot be opened, has no exit code to tell, or its exit code.\<close>

datatype win_process = CannotOpen | NoExitCode | ExitCode "32 word"

definition STILL_ACTIVE :: "32 word" where "STILL_ACTIVE = 259"

definition isWindowsProcessRunning :: "win_process \<Rightarrow> bool" where
  "isWindowsProcessRunning p = (case p of CannotOpen \<Rightarrow> False | NoExitCode \<Rightarrow> False | ExitCode c \<Rightarrow> c = STILL_ACTIVE)"

text \<open>\<open>agentProcessAlive\<close>: on Windows it is enough that the process can be opened.\<close>

definition agentProcessAlive_windows :: "win_process \<Rightarrow> bool" where
  "agentProcessAlive_windows p \<longleftrightarrow> p \<noteq> CannotOpen"

datatype kill_result = KillOk | KillEPERM | KillFailed

definition agentProcessAlive_unix :: "kill_result \<Rightarrow> bool" where
  "agentProcessAlive_unix r \<longleftrightarrow> r = KillOk \<or> r = KillEPERM"

text \<open>The PID file: its content, when it can be read.\<close>

definition checkDaemonPIDFile :: "(int \<Rightarrow> win_process) \<Rightarrow> string option \<Rightarrow> (DaemonStatus \<times> int) \<times> string option" where
  "checkDaemonPIDFile processes file =
     (case file of
        None \<Rightarrow> ((DaemonNotExist, 0), file)
      | Some data \<Rightarrow>
          (case Atoi (TrimSpace data) of
             (_, Some _) \<Rightarrow> ((DaemonNotExist, 0), file)
           | (pid, None) \<Rightarrow>
               if isWindowsProcessRunning (processes pid) then ((DaemonRunning, pid), file) else ((DaemonDead, pid), None)))"

definition WriteDaemonPIDFile :: "int \<Rightarrow> string option \<Rightarrow> string option" where
  "WriteDaemonPIDFile pid file = Some (itoa pid)"

definition RemoveDaemonPIDFile :: "string option \<Rightarrow> string option" where
  "RemoveDaemonPIDFile file = None"

definition GetDaemonPID_windows :: "(int \<Rightarrow> win_process) \<Rightarrow> string option \<Rightarrow> int" where
  "GetDaemonPID_windows processes file = snd (fst (checkDaemonPIDFile processes file))"

text \<open>Where the file is; \<open>join\<close> is \<open>filepath.Join\<close> for Windows.\<close>

definition GetDaemonPIDFilePath_windows :: "(string \<Rightarrow> string \<Rightarrow> string) \<Rightarrow> env \<Rightarrow> string" where
  "GetDaemonPIDFilePath_windows join env =
     (if env ''NSSH_PID_FILE'' \<noteq> [] then env ''NSSH_PID_FILE''
      else let appData = env ''APPDATA'';
               appData = (if appData = [] then env ''TEMP'' else appData);
               appData = (if appData = [] then ''C:'' @ [CHR 0x5C] @ ''temp'' else appData)
           in join (join appData ''nssh'') ''daemon.pid'')"

definition CheckDaemonStatus_windows :: "(int \<Rightarrow> win_process) \<Rightarrow> string option \<Rightarrow> DaemonStatus" where
  "CheckDaemonStatus_windows processes file = fst (fst (checkDaemonPIDFile processes file))"

lemma trim_start_none: "first_prefix es s = None \<Longrightarrow> trim_start es s = s"
  by (simp add: trim_start.simps)

lemma TrimSpace_graphic: "list_all graphic s \<Longrightarrow> TrimSpace s = s"
proof -
  have e: "list_all (\<lambda>e. e \<noteq> [] \<and> \<not> graphic (hd e)) space_encodings"
    "list_all (\<lambda>e. e \<noteq> [] \<and> \<not> graphic (hd e)) (map rev space_encodings)" by code_simp+
  have f: "trim_start es s = s" if "list_all (\<lambda>e. e \<noteq> [] \<and> \<not> graphic (hd e)) es" "list_all graphic s" for es s
  proof (cases s)
    case (Cons c r)
    have "list_all (\<lambda>e. e \<noteq> [] \<and> hd e \<noteq> c) es" using that Cons by (auto simp: list_all_iff)
    then show ?thesis using Cons by (intro trim_start_none) (simp add: first_prefix_none)
  next
    case Nil
    have "first_prefix es [] = None" using that(1)
    proof (induction es)
      case (Cons e es)
      then show ?case by (cases e) auto
    qed simp
    then show ?thesis using Nil by (simp add: trim_start_none)
  qed
  assume "list_all graphic s"
  then show ?thesis using f [OF e(1)] f [OF e(2), of "rev s"] by (simp add: TrimSpace_def)
qed

text \<open>
  The PID file on Windows: after a daemon has written it, the check reports its number as running exactly while the
  process with that number has not ended, whichever program that is; afterwards the check removes
  the file. A process that has ended can still pass for a living agent.
\<close>

theorem windows_pid_file:
  assumes "min_int \<le> pid" "pid \<le> max_int"
  shows "checkDaemonPIDFile processes (WriteDaemonPIDFile pid file) =
      (if processes pid = ExitCode 259 then ((DaemonRunning, pid), Some (itoa pid)) else ((DaemonDead, pid), None)) \<and>
    (agentProcessAlive_windows (ExitCode 0) \<and> \<not> isWindowsProcessRunning (ExitCode 0))"
  using assms TrimSpace_graphic [OF itoa_graphic, of pid]
  by (auto simp: checkDaemonPIDFile_def WriteDaemonPIDFile_def Atoi_itoa isWindowsProcessRunning_def STILL_ACTIVE_def
      agentProcessAlive_windows_def split: win_process.splits)



section \<open>Ending\<close>

text \<open>
  The ways in which the process ends on purpose, as the operations that the code runs in order: without a
  worker for ten minutes, on a signal, when its agent has gone, and on \<open>--stop-daemon\<close>. \<open>shutdown\<close> closes
  the two channels of the daemon; a command that arrives from then on sends on a closed channel and panics.
\<close>

datatype exit_op = Shutdown | StopTransport | RemovePIDFile | ExitProcess

definition exit_idle :: "exit_op list" where "exit_idle = [Shutdown, RemovePIDFile, ExitProcess]"
definition exit_signal :: "exit_op list" where "exit_signal = [Shutdown, StopTransport, RemovePIDFile, ExitProcess]"
definition exit_agent :: "exit_op list" where "exit_agent = [Shutdown, RemovePIDFile, ExitProcess]"
definition exit_stop_command :: "exit_op list" where "exit_stop_command = [StopTransport, RemovePIDFile, ExitProcess]"

text \<open>A tick of \<open>monitorAgent\<close>: what it does next, \<open>None\<close> to go on.\<close>

definition monitorAgent_tick :: "bool \<Rightarrow> exit_op list option" where
  "monitorAgent_tick alive = (if \<not> alive then Some exit_agent else None)"

text \<open>
  Several processes on one socket file and one PID file: \<open>sn_pid\<close> is the process whose number is in the
  PID file, \<open>sn_todo\<close> what each process still has to do to end, \<open>sn_closed\<close> which ones have closed their channels.
\<close>

record scene =
  sn_host :: host
  sn_pid :: "nat option"
  sn_todo :: "nat \<Rightarrow> exit_op list"
  sn_closed :: "nat set"

definition exit_op_turn :: "nat \<Rightarrow> exit_op \<Rightarrow> scene \<Rightarrow> scene" where
  "exit_op_turn i x s =
     (case x of
        Shutdown \<Rightarrow> s\<lparr>sn_closed := insert i (sn_closed s)\<rparr>
      | StopTransport \<Rightarrow> s\<lparr>sn_host := Stop_turn i (Stop_turn i ((sn_host s)\<lparr>ho_calm := False\<rparr>))\<rparr>
      | RemovePIDFile \<Rightarrow> s\<lparr>sn_pid := None\<rparr>
      | ExitProcess \<Rightarrow> s\<lparr>sn_host := die i ((sn_host s)\<lparr>ho_calm := False\<rparr>)\<rparr>)"

text \<open>
  A command to a process that has closed its channels ends it with a panic, the files as they are.
\<close>

definition command_turn :: "nat \<Rightarrow> scene \<Rightarrow> scene" where
  "command_turn i s =
     (if i \<in> sn_closed s then s\<lparr>sn_host := die i ((sn_host s)\<lparr>ho_calm := False\<rparr>), sn_todo := (sn_todo s)(i := [])\<rparr> else s)"

inductive scene_step :: "scene \<Rightarrow> scene \<Rightarrow> bool" where
  spawn: "scene_step s (s\<lparr>sn_host := (sn_host s)\<lparr>ho_procs := ho_procs (sn_host s) @ [Begin]\<rparr>\<rparr>)"
| start: "i < length (ho_procs (sn_host s)) \<Longrightarrow> sn_todo s i = [] \<Longrightarrow> scene_step s (s\<lparr>sn_host := StartServer_turn i (sn_host s)\<rparr>)"
| write_pid: "i < length (ho_procs (sn_host s)) \<Longrightarrow> ho_procs (sn_host s) ! i = Serving \<Longrightarrow> scene_step s (s\<lparr>sn_pid := Some i\<rparr>)"
| begin_exit: "i < length (ho_procs (sn_host s)) \<Longrightarrow> ho_procs (sn_host s) ! i = Serving \<Longrightarrow> sn_todo s i = [] \<Longrightarrow>
    xs \<in> {exit_idle, exit_signal, exit_agent, exit_stop_command} \<Longrightarrow> scene_step s (s\<lparr>sn_todo := (sn_todo s)(i := xs)\<rparr>)"
| exit_turn: "i < length (ho_procs (sn_host s)) \<Longrightarrow> sn_todo s i = x # xs \<Longrightarrow>
    scene_step s (exit_op_turn i x (s\<lparr>sn_todo := (sn_todo s)(i := xs)\<rparr>))"
| handle: "i < length (ho_procs (sn_host s)) \<Longrightarrow> scene_step s (command_turn i s)"

inductive_cases scene_stepE: "scene_step s s'"

definition fresh_scene :: scene where
  "fresh_scene = \<lparr>sn_host = fresh_host, sn_pid = None, sn_todo = (\<lambda>_. []), sn_closed = {}\<rparr>"

inductive scene_reach :: "scene \<Rightarrow> bool" where
  init: "scene_reach fresh_scene"
| step: "scene_reach s \<Longrightarrow> scene_step s s' \<Longrightarrow> scene_reach s'"

text \<open>The sockets of a scene are those of the processes of \<open>Local_Transport\<close>.\<close>

lemma host_reach_stop_twice:
  assumes "host_reach h" "i < length (ho_procs h)"
  shows "host_reach (Stop_turn i (Stop_turn i (h\<lparr>ho_calm := False\<rparr>)))"
proof -
  let ?h = "Stop_turn i (h\<lparr>ho_calm := False\<rparr>)"
  have 1: "host_reach ?h" using assms by (intro host_reach.step [OF _ host_step.stop])
  have "?h\<lparr>ho_calm := False\<rparr> = ?h" by (simp add: Stop_turn_def set_phase_def sock_remove_def split: phase.split)
  moreover have "i < length (ho_procs ?h)" using assms(2) by (simp add: Stop_turn_def split: phase.split)
  ultimately show ?thesis using host_reach.step [OF 1 host_step.stop [of i ?h]] by simp
qed

lemma scene_hosts: "scene_reach s \<Longrightarrow> host_reach (sn_host s)"
proof (induction rule: scene_reach.induct)
  case init
  then show ?case by (simp add: fresh_scene_def host_reach.init)
next
  case (step s s')
  from step.hyps(2) show ?case
  proof cases
    case (exit_turn i x xs)
    then show ?thesis
      using step.IH host_reach_stop_twice [OF step.IH] host_reach.step [OF step.IH host_step.death]
      by (cases x) (simp_all add: exit_op_turn_def)
  qed (use step.IH in \<open>auto simp: command_turn_def intro: host_reach.step host_step.spawn host_step.turn host_step.death\<close>)
qed

text \<open>A whole exit of one process, without interruption.\<close>

definition run_exit :: "nat \<Rightarrow> exit_op list \<Rightarrow> scene \<Rightarrow> scene" where
  "run_exit i xs s = fold (exit_op_turn i) xs s"

datatype scene_event = SSpawn | SStart nat | SWrite nat | SExit nat "exit_op list" | STurn nat | SHandle nat

fun scene_move :: "scene_event \<Rightarrow> scene \<Rightarrow> scene" where
  "scene_move SSpawn s = s\<lparr>sn_host := (sn_host s)\<lparr>ho_procs := ho_procs (sn_host s) @ [Begin]\<rparr>\<rparr>"
| "scene_move (SStart i) s =
     (if i < length (ho_procs (sn_host s)) \<and> sn_todo s i = [] then s\<lparr>sn_host := StartServer_turn i (sn_host s)\<rparr> else s)"
| "scene_move (SWrite i) s =
     (if i < length (ho_procs (sn_host s)) \<and> ho_procs (sn_host s) ! i = Serving then s\<lparr>sn_pid := Some i\<rparr> else s)"
| "scene_move (SExit i xs) s =
     (if i < length (ho_procs (sn_host s)) \<and> ho_procs (sn_host s) ! i = Serving \<and> sn_todo s i = [] \<and>
         xs \<in> {exit_idle, exit_signal, exit_agent, exit_stop_command}
      then s\<lparr>sn_todo := (sn_todo s)(i := xs)\<rparr> else s)"
| "scene_move (STurn i) s =
     (if i < length (ho_procs (sn_host s))
      then case sn_todo s i of [] \<Rightarrow> s | x # xs \<Rightarrow> exit_op_turn i x (s\<lparr>sn_todo := (sn_todo s)(i := xs)\<rparr>) else s)"
| "scene_move (SHandle i) s = (if i < length (ho_procs (sn_host s)) then command_turn i s else s)"

lemma scene_reach_move: "scene_reach s \<Longrightarrow> scene_reach (scene_move m s)"
  by (cases m) (auto split: list.split intro: scene_reach.step scene_step.intros)

lemma scene_reach_moves: "scene_reach s \<Longrightarrow> scene_reach (fold scene_move ms s)"
  by (induction ms arbitrary: s) (simp_all add: scene_reach_move)

text \<open>
  What an exit leaves behind. A daemon that serves on the socket file and ends without being
  interrupted removes its PID file in every way of ending, but the socket file only on a signal and on
  \<open>--stop-daemon\<close>: after ten idle minutes and with its agent it leaves the file, which the next start has to find dead.
\<close>

theorem exit_leaves:
  assumes "sn_host s = h" "i < length (ho_procs h)" "ho_procs h ! i = Serving" "ho_sock h = Bound i"
    and "xs \<in> {exit_idle, exit_signal, exit_agent, exit_stop_command}"
  shows "sn_pid (run_exit i xs s) = None \<and> ho_procs (sn_host (run_exit i xs s)) = (ho_procs h)[i := Gone] \<and>
    CheckDaemonStatus (sn_host (run_exit i xs s)) = (if StopTransport \<in> set xs then DaemonNotExist else DaemonDead)"
  using assms
  by (auto simp: exit_idle_def exit_signal_def exit_agent_def exit_stop_command_def run_exit_def exit_op_turn_def
      Stop_turn_def die_def sock_remove_def set_phase_def CheckDaemonStatus_def)

text \<open>A start after any exit serves: alone, a process needs at most four of its own turns.\<close>

theorem start_after_exit:
  assumes "i < length (ho_procs h)" "ho_procs h ! i = Begin" "ho_sock h \<in> {NoFile, Stale}"
  shows "\<exists>n \<le> 4. let h' = (StartServer_turn i ^^ n) h in ho_procs h' ! i = Serving \<and> ho_sock h' = Bound i \<and> (ho_hit h' \<longleftrightarrow> ho_hit h)"
proof (cases "ho_sock h")
  case NoFile
  then show ?thesis using assms(1,2)
    by (intro exI [of _ 2]) (simp add: numeral_eq_Suc StartServer_turn_def set_phase_def)
next
  case Stale
  then show ?thesis using assms(1,2)
    by (intro exI [of _ 4]) (simp add: numeral_eq_Suc StartServer_turn_def set_phase_def sock_remove_def)
qed (use assms(3) in simp)

text \<open>
  The races of an exit. A daemon that ends removes the PID file whoever wrote it: a successor that has started
  between the close of the socket and that removal serves without a PID file. And a command that
  arrives after the channels were closed ends the process with a panic, which leaves both files.
\<close>

theorem exit_races:
  "(\<exists>s. scene_reach s \<and> ho_procs (sn_host s) = [Gone, Serving] \<and> ho_sock (sn_host s) = Bound 1 \<and> sn_pid s = None \<and>
      sn_pid (fold scene_move [SSpawn, SStart 0, SStart 0, SWrite 0, SExit 0 exit_stop_command, STurn 0, SSpawn, SStart 1, SStart 1, SWrite 1] fresh_scene) = Some 1) \<and>
   (\<exists>s. scene_reach s \<and> ho_procs (sn_host s) = [Gone] \<and> ho_sock (sn_host s) = Stale \<and> sn_pid s = Some 0)"
proof
  let ?m = "[SSpawn, SStart 0, SStart 0, SWrite 0, SExit 0 exit_stop_command, STurn 0, SSpawn, SStart 1, SStart 1, SWrite 1]"
  let ?s = "fold scene_move (?m @ [STurn 0, STurn 0]) fresh_scene"
  have "scene_reach ?s" by (rule scene_reach_moves) (rule scene_reach.init)
  moreover have "ho_procs (sn_host ?s) = [Gone, Serving] \<and> ho_sock (sn_host ?s) = Bound 1 \<and> sn_pid ?s = None \<and> sn_pid (fold scene_move ?m fresh_scene) = Some 1"
    by code_simp
  ultimately show "\<exists>s. scene_reach s \<and> ho_procs (sn_host s) = [Gone, Serving] \<and> ho_sock (sn_host s) = Bound 1 \<and> sn_pid s = None \<and>
      sn_pid (fold scene_move ?m fresh_scene) = Some 1" by blast
next
  let ?s = "fold scene_move [SSpawn, SStart 0, SStart 0, SWrite 0, SExit 0 exit_signal, STurn 0, SHandle 0] fresh_scene"
  have "scene_reach ?s" by (rule scene_reach_moves) (rule scene_reach.init)
  moreover have "ho_procs (sn_host ?s) = [Gone] \<and> ho_sock (sn_host ?s) = Stale \<and> sn_pid ?s = Some 0"
    by code_simp
  ultimately show "\<exists>s. scene_reach s \<and> ho_procs (sn_host s) = [Gone] \<and> ho_sock (sn_host s) = Stale \<and> sn_pid s = Some 0" by blast
qed

end
