(* ===== verification/Quic_Dial.thy ===== *)
theory Quic_Dial
  imports Transport_Dial
begin

text \<open>
  The dials that \<open>dialTransport\<close> chooses between (\<open>base_tunnel/transport.go\<close>): \<open>dialTCPTransport\<close> and
  \<open>dialQUICTransport\<close> with the deadline that the QUIC handshake and the opening of the stream share, and
  the adapter of a QUIC stream to a connection. How long the network takes, or that it fails, is an
  argument.
\<close>

text \<open>\<open>None\<close> is a failure, \<open>Some t\<close> a success after the time \<open>t\<close>.\<close>

record quic_path =
  qp_handshake :: "duration option"
  qp_stream :: "duration option"
  qp_datagrams :: bool

definition TCPDialTimeout :: duration where "TCPDialTimeout = 10 * second"

definition dialTCPTransport :: "duration option \<Rightarrow> bool" where
  "dialTCPTransport connect = (case connect of None \<Rightarrow> False | Some t \<Rightarrow> t \<le> TCPDialTimeout)"

text \<open>\<open>quicStreamConn\<close>: the stream and the connection below it; \<open>Close\<close> closes both.\<close>

record quicStreamConn =
  qs_stream_open :: bool
  qs_conn_open :: bool
  qs_datagrams :: bool

definition quic_Close :: "quicStreamConn \<Rightarrow> quicStreamConn" where
  "quic_Close c = c\<lparr>qs_stream_open := False, qs_conn_open := False\<rparr>"

definition SupportsDatagrams :: "quicStreamConn \<Rightarrow> bool" where
  "SupportsDatagrams c = qs_datagrams c"

text \<open>
  The result, and the QUIC connections that are left open: none has been made, one was made and
  closed again because the stream could not be opened in time, or the one that is returned.
\<close>

definition dialQUICTransport :: "duration \<Rightarrow> quic_path \<Rightarrow> quicStreamConn option \<times> nat" where
  "dialQUICTransport timeout path =
     (case qp_handshake path of
        None \<Rightarrow> (None, 0)
      | Some t \<Rightarrow>
          if t > timeout then (None, 0)
          else let opened = 1
               in case qp_stream path of
                    None \<Rightarrow> (None, opened - 1)
                  | Some u \<Rightarrow>
                      if t + u > timeout then (None, opened - 1)
                      else (Some \<lparr>qs_stream_open = True, qs_conn_open = True, qs_datagrams = qp_datagrams path\<rparr>, opened))"

definition quic_ok :: "quic_path \<Rightarrow> duration \<Rightarrow> bool" where
  "quic_ok path timeout \<longleftrightarrow> fst (dialQUICTransport timeout path) \<noteq> None"

lemma dialQUICTransport_no_leak:
  "dialQUICTransport timeout path = (r, n) \<Longrightarrow> n = (case r of None \<Rightarrow> 0 | Some c \<Rightarrow> 1)"
  by (auto simp: dialQUICTransport_def Let_def split: option.splits if_splits)

lemma quic_ok_mono: "quic_ok path t \<Longrightarrow> t \<le> t' \<Longrightarrow> quic_ok path t'"
  by (auto simp: quic_ok_def dialQUICTransport_def Let_def split: option.splits if_splits)

text \<open>
  Successive dials to one server with a transport setting over the same network, each at its times: the
  transports in use, and the cache.
\<close>

fun dial_rounds ::
  "string \<Rightarrow> string \<Rightarrow> quic_path \<Rightarrow> duration option \<Rightarrow> (instant \<times> instant) list \<Rightarrow> transportCache \<Rightarrow>
   (dial_error option \<times> string) list \<times> transportCache" where
  "dial_rounds mode addr path tcp [] cache = ([], cache)"
| "dial_rounds mode addr path tcp ((t1, t2) # ts) cache =
     (case dialTransport t1 t2 mode addr (quic_ok path) (dialTCPTransport tcp) cache of
        (r, cache, _) \<Rightarrow> (case dial_rounds mode addr path tcp ts cache of (rs, cache) \<Rightarrow> (r # rs, cache)))"

lemma dial_rounds_length: "length (fst (dial_rounds mode addr path tcp ts cache)) = length ts"
  by (induction mode addr path tcp ts cache rule: dial_rounds.induct) (auto split: prod.splits)

section \<open>Properties\<close>

text \<open>
  C25. A QUIC server that takes longer than the probe allows, one second, but not longer than a dial, ten seconds, is used in
  mode quic and never in mode auto, however often and when it is dialled.
\<close>

theorem slow_quic_never_used:
  assumes "quic_ok path QUICDialTimeout" "\<not> quic_ok path QUICProbeTimeout"
    and "\<And>e. map_of cache addr = Some e \<Longrightarrow> ce_mode e \<noteq> ''quic''"
  shows "(\<forall>r \<in> set (fst (dial_rounds ''auto'' addr path tcp ts cache)). snd r = ''tcp'') \<and>
    (\<forall>r \<in> set (fst (dial_rounds ''quic'' addr path tcp ts cache)). r = (None, ''quic''))"
proof
  show "\<forall>r \<in> set (fst (dial_rounds ''auto'' addr path tcp ts cache)). snd r = ''tcp''"
    using assms(3)
  proof (induction ts arbitrary: cache)
    case (Cons t ts)
    obtain t1 t2 where t: "t = (t1, t2)" by fastforce
    obtain r cache' dials where d: "dialTransport t1 t2 ''auto'' addr (quic_ok path) (dialTCPTransport tcp) cache = (r, cache', dials)"
      by (metis prod_cases3)
    have "snd r = ''tcp'' \<and> (\<forall>e. map_of cache' addr = Some e \<longrightarrow> ce_mode e \<noteq> ''quic'')"
      using d Cons.prems assms(2) by (auto simp: dial_defs store_simps split: option.splits if_splits)
    with Cons.IH [of cache'] t d show ?case by (auto split: prod.split)
  qed simp
  show "\<forall>r \<in> set (fst (dial_rounds ''quic'' addr path tcp ts cache)). r = (None, ''quic'')"
  proof (induction ts arbitrary: cache)
    case (Cons t ts)
    obtain rs cache' where "dial_rounds ''quic'' addr path tcp ts cache = (rs, cache')" by fastforce
    with Cons.IH [of cache] show ?case using assms(1) by (cases t) (simp add: dial_defs)
  qed simp
qed

theorem slow_quic_never_used_witness:
  "let rs = fst (dial_rounds ''auto'' ''h'' \<lparr>qp_handshake = Some (2 * second), qp_stream = Some 0, qp_datagrams = True\<rparr> (Some 1)
     [(0, 0), (400 * minute, 400 * minute)] []) in length rs = 2 \<and> (\<forall>r \<in> set rs. snd r = ''tcp'')"
proof -
  let ?p = "\<lparr>qp_handshake = Some (2 * second), qp_stream = Some 0, qp_datagrams = True\<rparr>"
  have "quic_ok ?p QUICDialTimeout" "\<not> quic_ok ?p QUICProbeTimeout"
    by (simp_all add: quic_ok_def dialQUICTransport_def QUICDialTimeout_def QUICProbeTimeout_def duration_defs)
  from slow_quic_never_used [OF this, THEN conjunct1, of "[]" "''h''" "Some 1" "[(0, 0), (400 * minute, 400 * minute)]"]
  show ?thesis by (simp only: Let_def dial_rounds_length) simp
qed

end
