(* ===== verification/Spec2Isabelle.thy ===== *)
theory Spec2Isabelle
  imports Udp_Pumps Cli_Manage Wire Loki Daemon_Process Quic_Dial
begin

text \<open>
  A verification development for nssh, a reverse-tunnel client (Go): it exposes a local TCP or
  UDP service on a public port of an SSH server, over TCP or QUIC, with a background daemon that
  supervises one worker per tunnel and a command line that talks to the daemon.

  \<^bold>\<open>The program and its models.\<close> Go strings are lists of characters (bytes), byte slices lists of
  8 bit words, times and durations integers in nanoseconds, \<open>int\<close> an integer with its range written
  out where it is parsed or wraps, counters of a fixed width words. Errors, panics and
  \<open>log.Fatal\<close> are values of a sum, an option or a datatype. Goroutines are step relations over
  the shared state, with an atomic step for what happens under one lock, in one closure of the
  daemon's loop or in one system call; what the network, the operating system and the server do is
  an argument. Time enters as an argument of each operation.

  \<^item> \<open>Go_Prelude\<close>: big endian numbers, slices, readers, Go maps as association lists, clock; the
    locales \<open>frame_codec\<close> (a reader that inverts an encoder) and \<open>go_store\<close> (a map with its laws).
  \<^item> \<open>Go_Strings\<close>: the functions of \<open>strings\<close> and \<open>strconv\<close> that the code uses, with round trips.
  \<^item> \<open>Udp_Frame\<close> (\<open>base_tunnel/udp_proxy.go\<close>, \<open>udp_datagram.go\<close>): frames of both versions, their
    readers and the datagram parser; an interpretation of \<open>frame_codec\<close> for each version.
  \<^item> \<open>Udp_Reassembly\<close> (\<open>udpReassembler\<close>): fragments of a datagram in any order and interleaving,
    the bounds of the table, time-outs; its table interprets \<open>go_store\<close>.
  \<^item> \<open>Udp_Proxy\<close>: sending a datagram over channels or QUIC datagrams, receiving frames.
  \<^item> \<open>Udp_Pumps\<close>: the pumps of all flows writing at the same time, one frame per step, and the readers
    of all channels on one reassembler; both by a schedule that says whose turn it is.
  \<^item> \<open>Udp_Flows\<close>: the flow table, and readers, pumps, the sweeper, keepalives and the shutdown of
    \<open>runUDPProxy\<close> as a step relation \<open>px_step\<close>.
  \<^item> \<open>Udp_Forward\<close> (\<open>setupUDPForward\<close>): the request, the negotiation, the data channels.
  \<^item> \<open>Compress\<close> (\<open>base_tunnel/compress.go\<close>): blocks, flags and the fallback to raw frames.
  \<^item> \<open>Config\<close> (\<open>base_core/config.go\<close>), \<open>Transport_Dial\<close> (\<open>base_tunnel/transport.go\<close>), \<open>Stats\<close>
    (\<open>base_core/stats.go\<close>), \<open>Logging\<close> (\<open>base_core/logger.go\<close>, \<open>utils.go\<close>).
  \<^item> \<open>Data_Plane\<close> (\<open>base_tunnel/data_plane.go\<close>, \<open>handler.go\<close>): the control channel of the QUIC data
    plane, the answers to DATA_OPEN, and the copying of one connection as a step relation, with what
    the kernel holds for the local service and what a close with a linger time of zero discards.
  \<^item> \<open>Tunnel\<close> (\<open>base_tunnel/tunnel.go\<close>): \<open>ConnectAndTunnel\<close> from the dial to the last release, with
    heartbeat and UDP self check.
  \<^item> \<open>Worker\<close> (\<open>daemon/worker.go\<close>, parts of \<open>daemon/daemon.go\<close>): the record of a worker, keys and
    targets, checks, start parameters, the reconnect loop around \<open>ConnectAndTunnel\<close> with the
    heartbeat ticker of each attempt.
  \<^item> \<open>Daemon\<close> (\<open>daemon/daemon.go\<close>): commands, supervision, takeover; \<open>dm_step\<close> interleaves the
    closures of \<open>processLoop\<close> with the goroutines of the workers.
  \<^item> \<open>Local_Transport\<close> (\<open>daemon/transport_unix.go\<close>, \<open>transport_windows.go\<close>, \<open>base_core/daemon_check.go\<close>):
    requests and replies; several processes on one socket file (\<open>host_step\<close>); the Windows pipe.
  \<^item> \<open>Daemon_Process\<close> (\<open>platform/\<close>, \<open>daemon/platform_*.go\<close>, \<open>Run\<close>): how a daemon process is started and
    ends, with the socket file and the PID file it leaves (\<open>scene_step\<close>); signals, the Windows probes.
  \<^item> \<open>Cli\<close>, \<open>Cli_Session\<close>, \<open>Cli_Manage\<close> (\<open>main.go\<close>): flags and modes, starting a tunnel in the daemon,
    restart of all, takeover; port forms, the printed command, the foreground loop; stopping the
    daemon, lists.
  \<^item> \<open>Json_Strings\<close>, \<open>Json\<close>: \<open>encoding/json\<close> as far as the code uses it: runes and the replacement of
    bytes that are not UTF-8, quoting, \<open>Marshal\<close>, and a decoder that is a scanner with a stack.
  \<^item> \<open>Wire\<close> (\<open>daemon/transport_common.go\<close>, \<open>transport_unix.go\<close>, \<open>main.go\<close>): the lines of JSON for
    requests and replies, interpretations of the locale \<open>json_line\<close>; any command, a start, \<open>--restart-all\<close> and a takeover over them.
  \<^item> \<open>Reports\<close> (\<open>daemon/system_info.go\<close>, \<open>reportMonitorData\<close>): texts about the system, the report.
  \<^item> \<open>Loki\<close> (\<open>base_core/logger.go\<close>, \<open>stats.go\<close>, \<open>daemon/system_info.go\<close>, \<open>system_info_windows.go\<close>): the
    bodies of the three pushes and their errors, the shared client, the Windows variants.
  \<^item> \<open>Quic_Dial\<close> (\<open>base_tunnel/transport.go\<close>): the TCP and QUIC dials with their deadlines, the adapter of a
    QUIC stream to a connection, and what a sequence of dials ends up using.

  \<^bold>\<open>How the parts fit.\<close> The command line turns flags into a \<open>Config\<close>, \<open>buildStartParams\<close> and
  \<open>SendCommand\<close> carry it to \<open>handleTransportCommand\<close>, \<open>configFromStartParams\<close> and \<open>startWorker\<close> make
  a worker of it, whose rounds run \<open>ConnectAndTunnel\<close>, which uses dialling, forward declarations,
  compression, the data plane and the UDP proxy. The models are composed in the same way, so
  that \<open>start_over_json\<close>, \<open>takeover_over_json\<close> or \<open>printed_command_restarts\<close> speak of the whole
  path. Where a part relies on another through a contract, the contract is a locale, interpreted on the
  model's own definitions: \<open>frame_codec\<close>, \<open>go_store\<close>, \<open>io_writer\<close>, \<open>tunnel_observable\<close> (what the
  worker sees of a tunnel), \<open>json_line\<close> (a value that is carried as one line of JSON).
\<close>

text \<open>
  \<^bold>\<open>What the lemmas show.\<close> On the wire: frames written back to back are read back, the two
  parsers agree, a cut frame is an error; datagrams whose frames are written in any interleaving of the
  flows arrive as sent, and the reassembler stays within its bounds; QUIC messages stay small; inflating the compressed direction gives the bytes written.
  On interleavings: the flow table, a handled connection, the daemon's table, the socket file and
  the logger have invariants proved by rule induction over all reachable states; where the code
  has a race, a theorem exhibits the run (\<open>shutdown_can_leak\<close>, \<open>stop_can_orphan\<close>,
  \<open>two_daemons\<close>, \<open>linger_loses_tail\<close>). On the life of a tunnel: every return releases what was opened, online means
  that the server accepted what was declared, backoff and supervision follow from the rounds. On commands: a target by id hits one
  worker, starts, restarts and takeovers have the stated effect and lose what the theorems say.
  On JSON: every value that \<open>Marshal\<close> writes is one line and is read back with its strings in UTF-8,
  and strings that are UTF-8 are unchanged.

  \<^bold>\<open>Loops and bounds.\<close> Every function is total. Loops over data are structural recursion or have
  a measure (\<open>unit_loop\<close>, \<open>waitDaemonGone\<close>, \<open>cw_write\<close>, \<open>ipv6_groups\<close>; \<open>runes\<close>, \<open>unquote\<close> and \<open>scan\<close> by
  the length of the text); there is no fuel
  except the literal 50 of the loop that waits for a started daemon (\<open>await_daemon\<close>). Loops of
  goroutines are the repetition of steps, with no bound on the number of steps.

  \<^bold>\<open>Parameters.\<close> flate (any lossless deflater), SHA-256, in \<open>Cli\<close> the codec of a channel (a request or
  reply that is carried is given back; for the commands that \<open>Wire\<close> follows as a whole, \<open>json_channel\<close>
  discharges this), pflag (\<open>pflag_ok\<close>), the texts of times and \<open>time.Parse\<close>, SSH, quic-go, the server's
  answers, and the results of system calls. A property with such a hypothesis has a witness with a
  concrete function.

  \<^bold>\<open>Not modelled.\<close> The parsing of the flags (pflag) and the usage text; the memory monitor and the figures of the Go runtime
  in a report (no state, no result); the subscription to signals; socket options but the linger time, and
  the settings given to crypto/tls and quic-go; the console writer of zerolog; the sorting of lists by time (any order is
  covered). The number of goroutines, memory use and the fairness of the scheduler are outside the
  models. Floating point appears only in texts for people, where the models have the integer part.
\<close>

end
